(* ===== verification/Prelude.thy ===== *)
theory Prelude
  imports Complex_Main "HOL-Library.Word" "HOL-Library.Multiset" "HOL-Library.While_Combinator"
    "HOL-Library.Code_Target_Numeral"
begin

text \<open>
  Shared vocabulary of the development: the machine integer types of the Rust code, its saturating
  and checked arithmetic, results as sums, the transaction id type with its order, and the generic
  facts on lists, maps and loops that several components use.

  Integers.  \<open>u32\<close> and \<open>u64\<close> are words of that width, so \<open>+\<close> wraps as it does in the release
  profile of the crate (\<open>overflow-checks\<close> is off).  \<open>usize\<close> values are lengths and counts of
  collections held in memory; they are naturals, with the operations that saturate or could leave the
  type written out (\<open>usize_max\<close>, \<open>usize_sat_mul\<close>, \<open>checked_sub_nat\<close>).
\<close>

type_synonym u16 = "16 word"
type_synonym u32 = "32 word"
type_synonym u64 = "64 word"
type_synonym usize = nat

named_theorems wf_intros \<open>introduction rules for the well-formedness invariants of the components\<close>
named_theorems frame_simps \<open>what an operation leaves unchanged\<close>

subsection \<open>Saturating and checked integer arithmetic\<close>

definition usize_max :: usize where
  "usize_max = 2 ^ 64 - 1"

definition usize_sat_mul :: "usize \<Rightarrow> usize \<Rightarrow> usize" where
  "usize_sat_mul a b = min (a * b) usize_max"

definition checked_sub_nat :: "nat \<Rightarrow> nat \<Rightarrow> nat option" where
  "checked_sub_nat a b = (if b \<le> a then Some (a - b) else None)"

text \<open>\<open>u32::try_from(x).unwrap_or(u32::MAX)\<close> on a \<open>u64\<close>.\<close>

definition u32_clamp :: "u64 \<Rightarrow> u32" where
  "u32_clamp x = (if unat x < 2 ^ 32 then ucast x else - 1)"

definition u32_sat_mul :: "u32 \<Rightarrow> u32 \<Rightarrow> u32" where
  "u32_sat_mul a b = (if unat a * unat b < 2 ^ 32 then a * b else - 1)"

definition u64_sat_mul :: "u64 \<Rightarrow> u64 \<Rightarrow> u64" where
  "u64_sat_mul a b = (if unat a * unat b < 2 ^ 64 then a * b else - 1)"

definition u64_sat_sub :: "u64 \<Rightarrow> u64 \<Rightarrow> u64" where
  "u64_sat_sub a b = (if b \<le> a then a - b else 0)"

definition u64_sat_add :: "u64 \<Rightarrow> u64 \<Rightarrow> u64" where
  "u64_sat_add a b = (if unat a + unat b < 2 ^ 64 then a + b else - 1)"

subsection \<open>Results\<close>

text \<open>\<open>Result<T, E>\<close> is \<open>'e + 't\<close>; \<open>res_ok\<close> is Rust's \<open>Result::ok\<close>.\<close>

fun res_ok :: "'e + 'a \<Rightarrow> 'a option" where
  "res_ok (Inl e) = None"
| "res_ok (Inr a) = Some a"

fun res_map :: "('a \<Rightarrow> 'b) \<Rightarrow> 'e + 'a \<Rightarrow> 'e + 'b" where
  "res_map f (Inl e) = Inl e"
| "res_map f (Inr a) = Inr (f a)"

text \<open>The panics that the model keeps as values: an index past the end of a slice.\<close>

datatype panic = IndexOutOfBounds

subsection \<open>Transaction ids\<close>

text \<open>
  A \<open>bitcoin::Txid\<close> is a 32-byte array, ordered and compared byte by byte from index 0.  Reading the
  bytes as one big-endian number keeps equality and order, so the model is a 256-bit word.  The
  leading four bytes, which \<open>fees.rs\<close> reads as a big-endian \<open>u32\<close>, are its top 32 bits.
\<close>

datatype txid = Txid (txid_word: "256 word")

definition txid_lead :: "txid \<Rightarrow> u32" where
  "txid_lead t = ucast (drop_bit 224 (txid_word t))"

instantiation txid :: linorder
begin

definition less_eq_txid :: "txid \<Rightarrow> txid \<Rightarrow> bool" where
  "a \<le> b \<longleftrightarrow> txid_word a \<le> txid_word b"

definition less_txid :: "txid \<Rightarrow> txid \<Rightarrow> bool" where
  "a < b \<longleftrightarrow> txid_word a < txid_word b"

instance
  by standard (auto simp: less_eq_txid_def less_txid_def txid.expand)

end

subsection \<open>Arithmetic facts\<close>

lemma usize_sat_mul_le [simp]: "usize_sat_mul a b \<le> usize_max"
  by (simp add: usize_sat_mul_def)

lemma checked_sub_nat_Some [simp]: "checked_sub_nat a b = Some c \<longleftrightarrow> b \<le> a \<and> c = a - b"
  by (auto simp: checked_sub_nat_def)

lemma unat_u32_max [simp]: "unat (- 1 :: u32) = 2 ^ 32 - 1"
  by (simp add: unsigned_minus_1_eq_mask mask_eq_exp_minus_1)

lemma unat_u64_max [simp]: "unat (- 1 :: u64) = 2 ^ 64 - 1"
  by (simp add: unsigned_minus_1_eq_mask mask_eq_exp_minus_1)

lemma unat_u32_clamp: "unat (u32_clamp x) = min (unat x) (2 ^ 32 - 1)"
  by (auto simp: u32_clamp_def unsigned_ucast_eq take_bit_nat_eq_self)

lemma unat_u32_sat_mul: "unat (u32_sat_mul a b) = min (unat a * unat b) (2 ^ 32 - 1)"
  by (auto simp: u32_sat_mul_def unat_word_ariths)

lemma unat_u64_sat_mul: "unat (u64_sat_mul a b) = min (unat a * unat b) (2 ^ 64 - 1)"
  by (auto simp: u64_sat_mul_def unat_word_ariths)

lemma unat_u64_sat_add: "unat (u64_sat_add a b) = min (unat a + unat b) (2 ^ 64 - 1)"
  by (auto simp: u64_sat_add_def unat_word_ariths)

lemma unat_u64_sat_sub: "unat (u64_sat_sub a b) = unat a - unat b"
  by (auto simp: u64_sat_sub_def unat_sub word_le_nat_alt)

lemma unat_u32_lt: "unat (x :: u32) < 2 ^ 32"
  using unsigned_less [of x] by simp

lemma unat_u64_lt: "unat (x :: u64) < 2 ^ 64"
  using unsigned_less [of x] by simp

lemma unat_ucast_u32_u64 [simp]: "unat (ucast (x :: u32) :: u64) = unat x"
  by (simp add: unsigned_ucast_eq take_bit_nat_eq_self unat_u32_lt less_trans [OF unat_u32_lt])

subsection \<open>Facts on lists\<close>

lemma sum_list_filter_le_nat:
  fixes f :: "'a \<Rightarrow> nat"
  shows "sum_list (map f (filter P xs)) \<le> sum_list (map f xs)"
  by (induction xs) auto

lemma sum_list_bound_nat:
  fixes f :: "'a \<Rightarrow> nat"
  assumes "\<And>x. x \<in> set xs \<Longrightarrow> f x \<le> b"
  shows "sum_list (map f xs) \<le> length xs * b"
  using assms by (induction xs) fastforce+

lemma distinct_append_disjoint: "distinct (xs @ ys) \<Longrightarrow> x \<in> set xs \<Longrightarrow> x \<notin> set ys"
  by auto

lemma distinct_length_le_bound: "distinct xs \<Longrightarrow> (\<And>x. x \<in> set xs \<Longrightarrow> x < n) \<Longrightarrow> length xs \<le> n"
  by (metis card_lessThan card_mono distinct_card finite_lessThan lessThan_iff subsetI)

subsection \<open>Loops that may not return\<close>

text \<open>
  A loop over a list whose body may fail to return (\<open>None\<close>: an endless loop or a panic inside), and the
  rule for its invariant.
\<close>

fun fold_opt :: "('a \<Rightarrow> 's \<Rightarrow> 's option) \<Rightarrow> 'a list \<Rightarrow> 's \<Rightarrow> 's option" where
  "fold_opt f [] s = Some s"
| "fold_opt f (x # xs) s = Option.bind (f x s) (fold_opt f xs)"

lemma fold_opt_inv:
  assumes "I s" "\<And>x s. x \<in> set xs \<Longrightarrow> I s \<Longrightarrow> \<exists>t. f x s = Some t \<and> I t"
  shows "\<exists>t. fold_opt f xs s = Some t \<and> I t"
  using assms
proof (induction xs arbitrary: s)
  case (Cons x xs)
  then obtain t where "f x s = Some t" "I t" by (meson list.set_intros(1))
  with Cons show ?case by simp
qed simp

lemma fold_opt_append: "fold_opt f (xs @ ys) s = Option.bind (fold_opt f xs s) (fold_opt f ys)"
  by (induction xs arbitrary: s) (auto simp: bind_eq_None_conv split: Option.bind_splits)

lemma those_map_Some: "(\<And>x. x \<in> set xs \<Longrightarrow> f x = Some (g x)) \<Longrightarrow> those (map f xs) = Some (map g xs)"
  by (induction xs) simp_all

subsection \<open>Loops\<close>

text \<open>
  \<open>while_option\<close> runs the loops of the code.  One rule gives termination and the invariant of the
  result together, for a well-founded relation that every iteration decreases.
\<close>

lemma while_option_total:
  assumes wf: "wf R"
    and init: "I s"
    and step: "\<And>s. I s \<Longrightarrow> b s \<Longrightarrow> I (c s)"
    and dec: "\<And>s. I s \<Longrightarrow> b s \<Longrightarrow> (c s, s) \<in> R"
  shows "\<exists>t. while_option b c s = Some t \<and> I t \<and> \<not> b t"
proof -
  have "\<exists>t. while_option b c s = Some t"
    by (rule wf_while_option_Some [where P = I, OF _ _ init])
      (auto intro: step wf_subset [OF wf] dec)
  then obtain t where t: "while_option b c s = Some t" by blast
  from t have "\<not> b t" by (rule while_option_stop)
  moreover have "I t"
    by (rule while_option_rule [where P = I, OF _ t init]) (rule step)
  ultimately show ?thesis using t by blast
qed

end
