(* ===== verification/F64.thy ===== *)
theory F64
  imports Prelude "HOL-Library.Log_Nat"
begin

text \<open>
  The \<open>f64\<close> arithmetic of the fee code.  A finite double is represented by the rational number it
  denotes; \<open>f64_round\<close> is IEEE 754 rounding to nearest, ties to even, with 53 significant bits
  (the exponent is floored at \<open>-1022\<close>, so subnormals are covered too).  Each Rust operation is the
  exact rational operation followed by one rounding.  Infinities and NaN have no representation: the
  fee code divides by a non-zero weight only and the magnitudes stay within \<open>2 ^ 67\<close> (lemma
  \<open>rate_bounds\<close> in theory Gbt\_Heap), far from the overflow threshold \<open>2 ^ 1024\<close>.
\<close>

type_synonym f64 = rat

definition rne :: "rat \<Rightarrow> int" where
  "rne x = (let f = \<lfloor>x\<rfloor>; d = x - of_int f in
     if d < 1 / 2 then f else if 1 / 2 < d then f + 1 else if even f then f else f + 1)"

definition ilog2 :: "rat \<Rightarrow> int" where
  "ilog2 x = (let (p, q) = quotient_of x; e = bitlen p - bitlen q in
     if 2 powi e \<le> x then e else e - 1)"

definition f64_ulp :: "rat \<Rightarrow> rat" where
  "f64_ulp x = 2 powi (max (ilog2 \<bar>x\<bar>) (- 1022) - 52)"

definition f64_round :: "rat \<Rightarrow> f64" where
  "f64_round x = (if x = 0 then 0 else sgn x * of_int (rne (\<bar>x\<bar> / f64_ulp x)) * f64_ulp x)"

definition f64_mul :: "f64 \<Rightarrow> f64 \<Rightarrow> f64" where
  "f64_mul a b = f64_round (a * b)"

definition f64_div :: "f64 \<Rightarrow> f64 \<Rightarrow> f64" where
  "f64_div a b = f64_round (a / b)"

definition f64_sub :: "f64 \<Rightarrow> f64 \<Rightarrow> f64" where
  "f64_sub a b = f64_round (a - b)"

definition u64_as_f64 :: "u64 \<Rightarrow> f64" where
  "u64_as_f64 n = f64_round (of_int (uint n))"

text \<open>\<open>f64::round\<close>, half away from zero, and \<open>as u64\<close>, which truncates and saturates.\<close>

definition f64_round_int :: "f64 \<Rightarrow> f64" where
  "f64_round_int x = sgn x * of_int \<lfloor>\<bar>x\<bar> + 1 / 2\<rfloor>"

definition f64_as_nat :: "nat \<Rightarrow> f64 \<Rightarrow> nat" where
  "f64_as_nat most x = (if x \<le> 0 then 0 else min (nat \<lfloor>x\<rfloor>) most)"

definition f64_as_u64 :: "f64 \<Rightarrow> u64" where
  "f64_as_u64 x = of_nat (f64_as_nat (2 ^ 64 - 1) x)"

text \<open>The literal \<open>1e-9\<close>: the double nearest to it.\<close>

definition f64_1e_9 :: f64 where
  "f64_1e_9 = f64_round (1 / 1000000000)"

subsection \<open>Rounding to an integer\<close>

lemma rne_cases: "rne x = \<lfloor>x\<rfloor> \<and> x - of_int \<lfloor>x\<rfloor> \<le> 1 / 2 \<or> rne x = \<lfloor>x\<rfloor> + 1 \<and> 1 / 2 \<le> x - of_int \<lfloor>x\<rfloor>"
  by (auto simp: rne_def Let_def)

lemma rne_error: "\<bar>of_int (rne x) - x\<bar> \<le> 1 / 2"
  using rne_cases [of x] floor_correct [of x] by (auto simp: abs_le_iff)

lemma rne_of_int [simp]: "rne (of_int n) = n"
  by (simp add: rne_def)

lemma rne_mono: "x \<le> y \<Longrightarrow> rne x \<le> rne y"
proof -
  assume "x \<le> y"
  then have fl: "\<lfloor>x\<rfloor> \<le> \<lfloor>y\<rfloor>" by (rule floor_mono)
  show ?thesis
  proof (cases "\<lfloor>x\<rfloor> = \<lfloor>y\<rfloor>")
    case True
    with \<open>x \<le> y\<close> show ?thesis by (auto simp: rne_def Let_def)
  next
    case False
    with fl have "\<lfloor>x\<rfloor> + 1 \<le> \<lfloor>y\<rfloor>" by linarith
    with rne_cases [of x] rne_cases [of y] show ?thesis by linarith
  qed
qed

lemma rne_le: "x \<le> of_int n \<Longrightarrow> rne x \<le> n"
  using rne_mono [of x "of_int n"] by simp

lemma rne_ge: "of_int n \<le> x \<Longrightarrow> n \<le> rne x"
  using rne_mono [of "of_int n" x] by simp

subsection \<open>The exponent\<close>

lemma two_powi_pos [simp]: "0 < (2 :: rat) powi k"
  by (simp add: zero_less_power_int)

lemma two_powi_mono: "j \<le> k \<Longrightarrow> (2 :: rat) powi j \<le> 2 powi k"
  by (rule power_int_increasing) simp_all

lemma bitlen_powi:
  assumes "0 < p"
  shows "(2 :: rat) powi (bitlen p - 1) \<le> of_int p" and "of_int p < (2 :: rat) powi (bitlen p)"
proof -
  have b: "2 ^ nat (bitlen p - 1) \<le> p" "p < 2 ^ nat (bitlen p)"
    using bitlen_bounds [OF assms] by simp_all
  have pos: "1 \<le> bitlen p"
    using assms bitlen_eq_zero_iff [of p] bitlen_nonneg [of p] by linarith
  have "of_int (2 ^ nat (bitlen p - 1)) \<le> (of_int p :: rat)"
    using b(1) by (simp only: of_int_le_iff)
  then show "(2 :: rat) powi (bitlen p - 1) \<le> of_int p"
    using pos by (simp add: power_int_def)
  have "(of_int p :: rat) < of_int (2 ^ nat (bitlen p))"
    using b(2) by (simp only: of_int_less_iff)
  then show "of_int p < (2 :: rat) powi (bitlen p)"
    using pos by (simp add: power_int_def)
qed

lemma ilog2_bounds:
  assumes "0 < x"
  shows "2 powi (ilog2 x) \<le> x" and "x < 2 powi (ilog2 x + 1)"
proof -
  obtain p q where pq: "quotient_of x = (p, q)" by (cases "quotient_of x")
  have q: "0 < q" using pq by (rule quotient_of_denom_pos)
  have x: "x = of_int p / of_int q" using pq by (rule quotient_of_div)
  have p: "0 < p" using assms q x by (simp add: zero_less_divide_iff)
  define e where "e = bitlen p - bitlen q"
  have "of_int p / of_int q < 2 powi bitlen p / (2 powi (bitlen q - 1) :: rat)"
    using bitlen_powi(2) [OF p] bitlen_powi(1) [OF q] p q
    by (intro frac_less) simp_all
  also have "\<dots> = 2 powi (e + 1)"
    by (simp add: e_def power_int_diff [symmetric] power_int_add [symmetric] algebra_simps)
  finally have up: "x < 2 powi (e + 1)" by (simp add: x)
  have "2 powi (bitlen p - 1) / 2 powi bitlen q \<le> (of_int p / of_int q :: rat)"
    using bitlen_powi(1) [OF p] bitlen_powi(2) [OF q] p q
    by (intro frac_le) simp_all
  moreover have "(2 :: rat) powi (bitlen p - 1) / 2 powi bitlen q = 2 powi (e - 1)"
    by (simp add: e_def power_int_diff [symmetric] algebra_simps)
  ultimately have lo: "2 powi (e - 1) \<le> x" by (simp add: x)
  have "ilog2 x = (if 2 powi e \<le> x then e else e - 1)"
    by (simp add: ilog2_def pq e_def Let_def)
  then show "2 powi (ilog2 x) \<le> x" and "x < 2 powi (ilog2 x + 1)"
    using up lo by (auto split: if_splits)
qed

lemma ilog2_mono:
  assumes "0 < x" "x \<le> y"
  shows "ilog2 x \<le> ilog2 y"
proof (rule ccontr)
  assume "\<not> ilog2 x \<le> ilog2 y"
  then have "(2 :: rat) powi (ilog2 y + 1) \<le> 2 powi (ilog2 x)"
    by (intro two_powi_mono) simp
  with ilog2_bounds [of x] ilog2_bounds [of y] assms show False by simp
qed

subsection \<open>Rounding to a double\<close>

lemma f64_ulp_pos [simp]: "0 < f64_ulp x"
  by (simp add: f64_ulp_def)

lemma f64_ulp_nonneg [simp]: "0 \<le> f64_ulp x"
  by (simp add: less_imp_le)

lemma f64_ulp_abs [simp]: "f64_ulp \<bar>x\<bar> = f64_ulp x"
  by (simp add: f64_ulp_def)

lemma f64_ulp_mono:
  assumes "0 < x" "x \<le> y"
  shows "f64_ulp x \<le> f64_ulp y"
  using ilog2_mono [OF assms] assms unfolding f64_ulp_def by (intro two_powi_mono) simp

lemma f64_round_0 [simp]: "f64_round 0 = 0"
  by (simp add: f64_round_def)

lemma f64_round_pos_eq: "0 < x \<Longrightarrow> f64_round x = of_int (rne (x / f64_ulp x)) * f64_ulp x"
  by (simp add: f64_round_def)

lemma f64_round_nonneg [simp]: "0 \<le> x \<Longrightarrow> 0 \<le> f64_round x"
  using rne_ge [of 0 "x / f64_ulp x"]
  by (cases "x = 0") (simp_all add: f64_round_pos_eq)

lemma abs_f64_round: "\<bar>f64_round x\<bar> = f64_round \<bar>x\<bar>"
  using rne_ge [of 0 "\<bar>x\<bar> / f64_ulp x"]
  by (auto simp: f64_round_def abs_mult abs_sgn_eq)

lemma f64_round_le_upper:
  assumes "0 < x" "x \<le> of_int n * f64_ulp x"
  shows "f64_round x \<le> of_int n * f64_ulp x"
proof -
  have "x / f64_ulp x \<le> of_int n" using assms by (simp add: pos_divide_le_eq)
  then have "rne (x / f64_ulp x) \<le> n" by (rule rne_le)
  with assms show ?thesis by (simp add: f64_round_pos_eq)
qed

lemma f64_round_ge_lower:
  assumes "0 < x" "of_int n * f64_ulp x \<le> x"
  shows "of_int n * f64_ulp x \<le> f64_round x"
proof -
  have "of_int n \<le> x / f64_ulp x" using assms by (simp add: pos_le_divide_eq)
  then have "n \<le> rne (x / f64_ulp x)" by (rule rne_ge)
  with assms show ?thesis by (simp add: f64_round_pos_eq)
qed

text \<open>A power of two inside the binade grid is a multiple of the unit in the last place.\<close>

lemma powi_multiple:
  assumes "j \<le> k"
  shows "(2 :: rat) powi k = of_int (2 ^ nat (k - j)) * 2 powi j"
proof -
  have "(2 :: rat) powi k = 2 powi (k - j) * 2 powi j"
    by (simp add: power_int_add [symmetric])
  then show ?thesis using assms by (simp add: power_int_def)
qed

lemma f64_round_binade:
  assumes "0 < x"
  shows "f64_round x \<le> 2 powi (max (ilog2 x) (- 1022) + 1)"
    and "- 1022 \<le> ilog2 x \<Longrightarrow> 2 powi (ilog2 x) \<le> f64_round x"
proof -
  define e where "e = max (ilog2 x) (- 1022)"
  have u: "f64_ulp x = 2 powi (e - 52)"
    using assms by (simp add: f64_ulp_def e_def)
  have "x < 2 powi (ilog2 x + 1)" using ilog2_bounds(2) [OF assms] .
  also have "\<dots> \<le> 2 powi (e + 1)" by (rule two_powi_mono) (simp add: e_def)
  finally have "x \<le> 2 powi (e + 1)" by simp
  then show "f64_round x \<le> 2 powi (max (ilog2 x) (- 1022) + 1)"
    using f64_round_le_upper [OF assms, of "2 ^ 53"] powi_multiple [of "e - 52" "e + 1"]
    by (simp add: u e_def [symmetric])
  assume "- 1022 \<le> ilog2 x"
  then have "2 powi e \<le> x" using ilog2_bounds(1) [OF assms] by (simp add: e_def)
  then show "2 powi (ilog2 x) \<le> f64_round x"
    using f64_round_ge_lower [OF assms, of "2 ^ 52"] powi_multiple [of "e - 52" e] \<open>- 1022 \<le> ilog2 x\<close>
    by (simp add: u e_def)
qed

lemma f64_round_mono:
  assumes "0 \<le> x" "x \<le> y"
  shows "f64_round x \<le> f64_round y"
proof (cases "x = 0")
  case True
  with assms show ?thesis by simp
next
  case False
  with assms have x: "0 < x" and y: "0 < y" by auto
  show ?thesis
  proof (cases "f64_ulp x = f64_ulp y")
    case True
    have "x / f64_ulp y \<le> y / f64_ulp y" using assms by (intro divide_right_mono) simp_all
    then have "rne (x / f64_ulp y) \<le> rne (y / f64_ulp y)" by (rule rne_mono)
    then show ?thesis by (simp add: f64_round_pos_eq x y True)
  next
    case False
    then have ne: "max (ilog2 x) (- 1022) \<noteq> max (ilog2 y) (- 1022)"
      using x y by (auto simp: f64_ulp_def)
    with ilog2_mono [OF x assms(2)] have lt: "max (ilog2 x) (- 1022) + 1 \<le> ilog2 y" "- 1022 \<le> ilog2 y"
      by (auto simp: max_def split: if_splits)
    have "f64_round x \<le> 2 powi (max (ilog2 x) (- 1022) + 1)" by (rule f64_round_binade(1) [OF x])
    also have "\<dots> \<le> 2 powi (ilog2 y)" using lt(1) by (rule two_powi_mono)
    also have "\<dots> \<le> f64_round y" using f64_round_binade(2) [OF y lt(2)] .
    finally show ?thesis .
  qed
qed

text \<open>In the normal range one rounding is off by at most one part in \<open>2 ^ 53\<close>.\<close>

lemma f64_round_error:
  assumes "2 powi (- 1022) \<le> x"
  shows "\<bar>f64_round x - x\<bar> \<le> x * 2 powi (- 53)"
proof -
  have x: "0 < x" using assms two_powi_pos [of "- 1022"] by linarith
  have e: "- 1022 \<le> ilog2 x"
  proof (rule ccontr)
    assume "\<not> - 1022 \<le> ilog2 x"
    then have "(2 :: rat) powi (ilog2 x + 1) \<le> 2 powi (- 1022)" by (intro two_powi_mono) simp
    with ilog2_bounds(2) [OF x] assms show False by linarith
  qed
  have u: "f64_ulp x = 2 powi (ilog2 x - 52)" using e x by (simp add: f64_ulp_def)
  have "f64_round x - x = (of_int (rne (x / f64_ulp x)) - x / f64_ulp x) * f64_ulp x"
    using x by (simp add: f64_round_pos_eq left_diff_distrib less_imp_neq [OF f64_ulp_pos, symmetric])
  then have "\<bar>f64_round x - x\<bar> = \<bar>of_int (rne (x / f64_ulp x)) - x / f64_ulp x\<bar> * f64_ulp x"
    by (simp add: abs_mult)
  also have "\<dots> \<le> 1 / 2 * f64_ulp x"
    by (rule mult_right_mono [OF rne_error]) simp
  also have "\<dots> = 2 powi (ilog2 x) * 2 powi (- 53)"
    by (simp add: u power_int_diff power_int_minus field_simps)
  also have "\<dots> \<le> x * 2 powi (- 53)"
    by (rule mult_right_mono [OF ilog2_bounds(1) [OF x]]) simp
  finally show ?thesis .
qed

text \<open>Multiples of a power of two with at most 53 significant bits are doubles.\<close>

lemma f64_round_exact:
  assumes m: "0 < m" "m < 2 ^ 53" and k: "- 1074 \<le> k"
  shows "f64_round (of_int m * 2 powi k) = of_int m * 2 powi k"
proof -
  define x :: rat where "x = of_int m * 2 powi k"
  have x: "0 < x" using m by (simp add: x_def)
  have "(of_int m :: rat) < of_int (2 ^ 53)" using m(2) by (simp only: of_int_less_iff)
  then have "x < of_int (2 ^ 53) * 2 powi k" unfolding x_def by (intro mult_strict_right_mono) simp_all
  also have "\<dots> = 2 powi (53 + k)" by (simp add: power_int_add)
  finally have "2 powi (ilog2 x) < (2 :: rat) powi (53 + k)" using ilog2_bounds(1) [OF x] by linarith
  then have "ilog2 x < 53 + k" by (meson not_less two_powi_mono)
  define j where "j = max (ilog2 x) (- 1022) - 52"
  have j: "j \<le> k" using \<open>ilog2 x < 53 + k\<close> k by (simp add: j_def)
  have u: "f64_ulp x = 2 powi j" using x by (simp add: f64_ulp_def j_def)
  have xj: "x = of_int (m * 2 ^ nat (k - j)) * 2 powi j"
    by (simp add: x_def powi_multiple [OF j])
  then have "x / f64_ulp x = of_int (m * 2 ^ nat (k - j))"
    unfolding u by (subst xj) simp
  then have "rne (x / f64_ulp x) = m * 2 ^ nat (k - j)" by (simp only: rne_of_int)
  then have "f64_round x = of_int (m * 2 ^ nat (k - j)) * 2 powi j"
    using x by (simp only: f64_round_pos_eq u)
  then have "f64_round x = x" by (simp only: xj [symmetric])
  then show ?thesis by (simp add: x_def)
qed

subsection \<open>The operations of the fee code\<close>

lemma f64_sub_self [simp]: "f64_sub a a = 0"
  by (simp add: f64_sub_def)

lemma f64_1e_9_nonneg: "0 < f64_1e_9"
  by code_simp

lemma f64_1e_9_lt: "f64_1e_9 < 2 powi (- 29)"
  by code_simp

lemma f64_sub_close:
  assumes "\<bar>f64_sub a b\<bar> \<le> f64_1e_9"
  shows "\<bar>a - b\<bar> < 2 powi (- 29)"
proof (rule ccontr)
  assume "\<not> \<bar>a - b\<bar> < 2 powi (- 29)"
  then have "f64_round (2 powi (- 29)) \<le> f64_round \<bar>a - b\<bar>"
    by (intro f64_round_mono) simp_all
  moreover have "f64_round (2 powi (- 29)) = 2 powi (- 29)"
    using f64_round_exact [of 1 "- 29"] by simp
  ultimately show False
    using assms f64_1e_9_lt by (simp add: f64_sub_def abs_f64_round)
qed

lemma u64_as_f64_nonneg [simp]: "0 \<le> u64_as_f64 n"
  by (simp add: u64_as_f64_def del: of_int_uint)

lemma u64_as_f64_mono: "m \<le> n \<Longrightarrow> u64_as_f64 m \<le> u64_as_f64 n"
  by (simp add: u64_as_f64_def f64_round_mono word_le_def del: of_int_uint)

lemma f64_round_int:
  assumes "0 \<le> m" "m < 2 ^ 53"
  shows "f64_round (of_int m) = of_int m"
  using f64_round_exact [of m 0] assms by (cases "m = 0") simp_all

lemma u64_as_f64_exact: "uint n < 2 ^ 53 \<Longrightarrow> u64_as_f64 n = of_int (uint n)"
  by (simp add: u64_as_f64_def f64_round_int del: of_int_uint)

subsection \<open>Evaluation\<close>

text \<open>
  Code equations on numerator and denominator, with integer arithmetic only, so that the simplifier
  evaluates concrete rates quickly.
\<close>

definition pow2_ratio :: "int \<Rightarrow> int \<times> int" where
  "pow2_ratio k = (if 0 \<le> k then (2 ^ nat k, 1) else (1, 2 ^ nat (- k)))"

definition ilog2_frac :: "int \<Rightarrow> int \<Rightarrow> int \<Rightarrow> int" where
  "ilog2_frac p q e = (case pow2_ratio e of (a, b) \<Rightarrow> if a * q \<le> p * b then e else e - 1)"

definition rne_frac :: "int \<Rightarrow> int \<Rightarrow> int" where
  "rne_frac p q = (case (p div q, 2 * (p mod q)) of (f, r) \<Rightarrow>
     if r < q then f else if q < r then f + 1 else if even f then f else f + 1)"

definition round_frac :: "int \<Rightarrow> int \<Rightarrow> int \<times> int \<Rightarrow> rat" where
  "round_frac p q ab = (case ab of (a, b) \<Rightarrow> of_int (rne_frac (p * b) (q * a) * a) / of_int b)"

lemma pow2_ratio:
  assumes "pow2_ratio k = (a, b)"
  shows "(2 :: rat) powi k = of_int a / of_int b" and "0 < a" and "0 < b"
  using assms by (auto simp: pow2_ratio_def power_int_def power_one_over inverse_eq_divide split: if_splits)

lemma rne_frac:
  assumes "0 < q"
  shows "rne (of_int p / of_int q) = rne_frac p q"
proof -
  have f: "\<lfloor>of_int p / of_int q :: rat\<rfloor> = p div q" by (rule floor_divide_of_int_eq)
  have "(of_int p :: rat) = of_int (p div q) * of_int q + of_int (p mod q)"
    by (metis div_mult_mod_eq of_int_add of_int_mult)
  then have d: "(of_int p / of_int q :: rat) - of_int (p div q) = of_int (p mod q) / of_int q"
    using assms by (simp add: add_divide_distrib)
  have "(of_int (p mod q) / of_int q < (1 / 2 :: rat)) = (of_int (2 * (p mod q)) < (of_int q :: rat))"
    "((1 / 2 :: rat) < of_int (p mod q) / of_int q) = (of_int q < (of_int (2 * (p mod q)) :: rat))"
    using assms by (simp_all add: pos_divide_less_eq pos_less_divide_eq mult.commute)
  then have c: "(of_int (p mod q) / of_int q < (1 / 2 :: rat)) = (2 * (p mod q) < q)"
    "((1 / 2 :: rat) < of_int (p mod q) / of_int q) = (q < 2 * (p mod q))"
    by (simp_all only: of_int_less_iff)
  show ?thesis by (simp only: rne_def rne_frac_def Let_def f d c prod.case)
qed

lemma ilog2_frac:
  assumes "quotient_of x = (p, q)"
  shows "ilog2 x = ilog2_frac p q (bitlen p - bitlen q)"
proof -
  obtain a b where ab: "pow2_ratio (bitlen p - bitlen q) = (a, b)" by fastforce
  have q: "0 < q" using assms by (rule quotient_of_denom_pos)
  have "(of_int a / of_int b \<le> x) = (a * q \<le> p * b)"
  proof -
    have x: "x = of_int p / of_int q" using assms by (rule quotient_of_div)
    have "(of_int a / of_int b \<le> x) = (of_int (a * q) \<le> (of_int (p * b) :: rat))"
      unfolding x using q pow2_ratio(2,3) [OF ab] by (simp add: field_simps)
    then show ?thesis by (simp only: of_int_le_iff)
  qed
  then show ?thesis
    by (simp add: ilog2_def ilog2_frac_def assms ab Let_def pow2_ratio(1) [OF ab])
qed

lemma f64_round_code [code]:
  "f64_round x = (if x < 0 then - f64_round (- x)
     else case quotient_of x of (p, q) \<Rightarrow>
       if p = 0 then 0
       else if q = 1 \<and> p < 2 ^ 53 then x
       else round_frac p q (pow2_ratio (max (ilog2_frac p q (bitlen p - bitlen q)) (- 1022) - 52)))"
proof -
  obtain p q where pq: "quotient_of x = (p, q)" by fastforce
  have q: "0 < q" using pq by (rule quotient_of_denom_pos)
  have x: "x = of_int p / of_int q" using pq by (rule quotient_of_div)
  consider "x < 0" | "x = 0" | "0 < x" by linarith
  then show ?thesis
  proof cases
    case 1
    then show ?thesis by (simp add: f64_round_def f64_ulp_def)
  next
    case 2
    then show ?thesis using pq q x by simp
  next
    case 3
    let ?e = "max (ilog2 x) (- 1022) - 52"
    obtain a b where ab: "pow2_ratio ?e = (a, b)" by fastforce
    note ab' = pow2_ratio [OF ab]
    have u: "f64_ulp x = of_int a / of_int b" using 3 ab'(1) by (simp add: f64_ulp_def)
    have "x / f64_ulp x = of_int (p * b) / of_int (q * a)"
      unfolding u using q ab'(2,3) by (subst x) simp
    then have "rne (x / f64_ulp x) = rne_frac (p * b) (q * a)"
      using q ab'(2) by (simp only: rne_frac mult_pos_pos)
    then have "f64_round x = round_frac p q (a, b)"
      using 3 by (simp add: f64_round_pos_eq round_frac_def u)
    moreover have "0 < p" using 3 q x by (simp add: zero_less_divide_iff)
    moreover have "f64_round x = x" if "q = 1" "p < 2 ^ 53"
      using f64_round_int [of p] that \<open>0 < p\<close> by (simp add: x)
    ultimately show ?thesis
      using 3 by (simp add: pq ilog2_frac [OF pq, symmetric] ab)
  qed
qed

lemma f64_1e_9_code [code]: "f64_1e_9 = 4835703278458517 / 4835703278458516698824704"
  by code_simp

end
