(* ===== verification/Gbt_Heap.thy ===== *)
theory Gbt_Heap
  imports F64
begin

text \<open>
  The priority queue of the block projection (\<open>gbt.rs\<close>): fee rates, the heap entry \<open>HeapItem\<close> with
  its order, and \<open>std::collections::BinaryHeap\<close> as a list kept in descending order.  The contract the
  projection relies on is the locale \<open>max_queue\<close>; the list heap is its interpretation \<open>bh\<close>.
\<close>

subsection \<open>Fee rates\<close>

definition rate :: "u64 \<Rightarrow> u64 \<Rightarrow> f64" where
  "rate fee weight =
     (if weight = 0 then 0 else f64_div (f64_mul 4 (u64_as_f64 fee)) (u64_as_f64 weight))"

subsection \<open>Heap entries\<close>

datatype heap_item = HeapItem (hi_score: f64) (hi_order: u32) (hi_uid: nat)

text \<open>
  \<open>Ord::cmp\<close>: higher score first, then the smaller \<open>order\<close>, then the smaller \<open>uid\<close> has the higher
  priority.  \<open>partial_cmp(..).expect(..)\<close> cannot fail: there is no NaN among the scores.
\<close>

definition heap_item_le :: "heap_item \<Rightarrow> heap_item \<Rightarrow> bool" where
  "heap_item_le a b \<longleftrightarrow> hi_score a < hi_score b \<or> hi_score a = hi_score b \<and>
     (hi_order b < hi_order a \<or> hi_order b = hi_order a \<and> hi_uid b \<le> hi_uid a)"

instantiation heap_item :: linorder
begin

definition less_eq_heap_item :: "heap_item \<Rightarrow> heap_item \<Rightarrow> bool" where
  "a \<le> b \<longleftrightarrow> heap_item_le a b"

definition less_heap_item :: "heap_item \<Rightarrow> heap_item \<Rightarrow> bool" where
  "(a :: heap_item) < b \<longleftrightarrow> a \<le> b \<and> \<not> b \<le> a"

instance
  by standard (auto simp: less_eq_heap_item_def heap_item_le_def less_heap_item_def heap_item.expand)

end

subsection \<open>The queue\<close>

fun heap_push :: "'a::linorder \<Rightarrow> 'a list \<Rightarrow> 'a list" where
  "heap_push x [] = [x]"
| "heap_push x (y # ys) = (if y \<le> x then x # y # ys else y # heap_push x ys)"

fun heap_pop :: "'a::linorder list \<Rightarrow> ('a \<times> 'a list) option" where
  "heap_pop [] = None"
| "heap_pop (x # xs) = Some (x, xs)"

definition heap_ok :: "'a::linorder list \<Rightarrow> bool" where
  "heap_ok h \<longleftrightarrow> sorted_wrt (\<ge>) h"

text \<open>What \<open>BinaryHeap\<close> promises: nothing is lost or invented, and \<open>pop\<close> returns a greatest entry.\<close>

locale max_queue =
  fixes empty :: "'q"
    and push :: "'a::linorder \<Rightarrow> 'q \<Rightarrow> 'q"
    and pop :: "'q \<Rightarrow> ('a \<times> 'q) option"
    and elems :: "'q \<Rightarrow> 'a multiset"
    and ok :: "'q \<Rightarrow> bool"
  assumes elems_empty: "elems empty = {#}"
    and ok_empty: "ok empty"
    and elems_push: "elems (push x q) = add_mset x (elems q)"
    and ok_push: "ok q \<Longrightarrow> ok (push x q)"
    and pop_None: "pop q = None \<longleftrightarrow> elems q = {#}"
    and pop_elems: "pop q = Some (x, q') \<Longrightarrow> elems q = add_mset x (elems q')"
    and pop_greatest: "ok q \<Longrightarrow> pop q = Some (x, q') \<Longrightarrow> y \<in># elems q \<Longrightarrow> y \<le> x"
    and pop_ok: "ok q \<Longrightarrow> pop q = Some (x, q') \<Longrightarrow> ok q'"
begin

lemma pop_in: "pop q = Some (x, q') \<Longrightarrow> x \<in># elems q"
  by (simp add: pop_elems)

lemma pop_size: "pop q = Some (x, q') \<Longrightarrow> size (elems q) = Suc (size (elems q'))"
  by (simp add: pop_elems)

lemma elems_push_all: "elems (fold push xs q) = mset xs + elems q"
  by (induction xs arbitrary: q) (simp_all add: elems_push)

lemma ok_push_all: "ok q \<Longrightarrow> ok (fold push xs q)"
  by (induction xs arbitrary: q) (simp_all add: ok_push)

lemma pop_push_greatest:
  assumes "ok q" "pop (push x q) = Some (y, q')"
  shows "x \<le> y"
  using pop_greatest [OF ok_push [OF assms(1)] assms(2), of x] by (simp add: elems_push)

end

lemma mset_heap_push: "mset (heap_push x h) = add_mset x (mset h)"
  by (induction h) (auto simp: add_mset_commute)

lemma set_heap_push [simp]: "set (heap_push x h) = insert x (set h)"
  by (induction h) auto

lemma length_heap_push [simp]: "length (heap_push x h) = Suc (length h)"
  by (induction h) auto

lemma heap_ok_push: "heap_ok h \<Longrightarrow> heap_ok (heap_push x h)"
  unfolding heap_ok_def by (induction h) (auto intro: order.trans)

lemma heap_ok_Cons: "heap_ok (x # h) \<longleftrightarrow> (\<forall>y \<in> set h. y \<le> x) \<and> heap_ok h"
  by (simp add: heap_ok_def)

lemma heap_pop_eq: "heap_pop h = Some (x, h') \<longleftrightarrow> h = x # h'"
  by (cases h) auto

interpretation bh: max_queue "[]" heap_push heap_pop mset heap_ok
proof unfold_locales
  fix q :: "'a list" and x y q'
  show "heap_pop q = None \<longleftrightarrow> mset q = {#}" by (cases q) auto
  show "heap_pop q = Some (x, q') \<Longrightarrow> mset q = add_mset x (mset q')"
    by (simp add: heap_pop_eq)
  show "heap_ok q \<Longrightarrow> heap_pop q = Some (x, q') \<Longrightarrow> y \<in># mset q \<Longrightarrow> y \<le> x"
    by (auto simp: heap_pop_eq heap_ok_def)
  show "heap_ok q \<Longrightarrow> heap_pop q = Some (x, q') \<Longrightarrow> heap_ok q'"
    by (auto simp: heap_pop_eq heap_ok_def)
qed (simp_all add: mset_heap_push heap_ok_push, simp add: heap_ok_def)

lemma set_push_all [simp]: "set (fold heap_push xs h) = set xs \<union> set h"
  by (induction xs arbitrary: h) auto

lemma length_push_all [simp]: "length (fold heap_push xs h) = length xs + length h"
  by (induction xs arbitrary: h) auto

subsection \<open>Properties of fee rates\<close>

lemma rate_nonneg [simp]: "0 \<le> rate fee weight"
  by (simp add: rate_def f64_div_def f64_mul_def divide_nonneg_nonneg)

lemma rate_mono_fee: "f \<le> f' \<Longrightarrow> rate f w \<le> rate f' w"
  unfolding rate_def f64_div_def f64_mul_def
  by (auto intro!: f64_round_mono divide_right_mono mult_left_mono u64_as_f64_mono)

lemma f64_round_le_powi:
  assumes "0 \<le> x" "x \<le> 2 powi k" "0 \<le> k"
  shows "f64_round x \<le> 2 powi k"
  using f64_round_mono [OF assms(1,2)] f64_round_exact [of 1 k] assms(3) by simp

lemma u64_as_f64_le: "u64_as_f64 n \<le> 2 powi 64"
proof -
  have "uint n < 2 ^ 64" using uint_lt2p [of n] by simp
  then have "of_int (uint n) < (of_int (2 ^ 64) :: rat)" by (simp only: of_int_less_iff)
  then have "of_int (uint n) \<le> (2 :: rat) powi 64" by (simp add: power_int_def del: of_int_uint)
  then show ?thesis unfolding u64_as_f64_def by (intro f64_round_le_powi) (simp_all del: of_int_uint)
qed

lemma u64_as_f64_ge_1:
  assumes "n \<noteq> 0"
  shows "1 \<le> u64_as_f64 n"
proof -
  have "1 \<le> n" using assms by (simp add: word_le_nat_alt Suc_le_eq unat_gt_0)
  from u64_as_f64_mono [OF this] show ?thesis by (simp add: u64_as_f64_exact)
qed

lemma rate_bounds: "0 \<le> rate fee weight" "rate fee weight \<le> 2 powi 66"
proof -
  show "0 \<le> rate fee weight" by (rule rate_nonneg)
  have "f64_mul 4 (u64_as_f64 fee) \<le> 2 powi 66"
    unfolding f64_mul_def using u64_as_f64_le [of fee] by (intro f64_round_le_powi) (simp_all add: power_int_def)
  then have "f64_mul 4 (u64_as_f64 fee) / u64_as_f64 weight \<le> 2 powi 66" if "weight \<noteq> 0"
    using u64_as_f64_ge_1 [OF that] mult_left_mono [OF u64_as_f64_ge_1 [OF that], of "2 powi 66"]
    by (simp add: pos_divide_le_eq)
  then have "f64_round (f64_mul 4 (u64_as_f64 fee) / u64_as_f64 weight) \<le> 2 powi 66" if "weight \<noteq> 0"
    using that by (intro f64_round_le_powi divide_nonneg_nonneg) (simp_all add: f64_mul_def)
  then show "rate fee weight \<le> 2 powi 66" by (simp add: rate_def f64_div_def)
qed

text \<open>
  With a fee no larger than the total supply (\<open>21e14\<close> satoshi) and a weight below \<open>2 ^ 53\<close> the only
  rounding is that of the division.
\<close>

lemma rate_exact:
  assumes "uint fee \<le> 2100000000000000" "weight \<noteq> 0" "uint weight < 2 ^ 53"
  shows "rate fee weight = f64_round (4 * of_int (uint fee) / of_int (uint weight))"
proof -
  have "u64_as_f64 fee = of_int (uint fee)" using assms(1) by (intro u64_as_f64_exact) simp
  moreover have "f64_mul 4 (of_int (uint fee)) = of_int (4 * uint fee)"
    unfolding f64_mul_def using f64_round_int [of "4 * uint fee"] assms(1) by (simp del: of_int_uint)
  ultimately show ?thesis
    using assms by (simp add: rate_def f64_div_def u64_as_f64_exact del: of_int_uint)
qed

lemma rate_relative_error:
  assumes "uint fee \<le> 2100000000000000" "weight \<noteq> 0" "uint weight < 2 ^ 53"
  shows "\<bar>rate fee weight - 4 * of_int (uint fee) / of_int (uint weight)\<bar>
    \<le> 4 * of_int (uint fee) / of_int (uint weight) * 2 powi (- 53)"
proof (cases "fee = 0")
  case False
  have w: "0 < uint weight" using assms(2) by (metis uint_0_iff uint_nonnegative order_le_imp_less_or_eq)
  have f: "1 \<le> uint fee" using False by (metis int_one_le_iff_zero_less uint_nonnegative uint_0_iff linorder_not_less order_antisym)
  have "(2 :: rat) powi (- 1022) \<le> 2 powi (- 51)" by (rule two_powi_mono) simp
  also have "2 powi (- 51) = (4 :: rat) / of_int (2 ^ 53)" by (simp add: power_int_minus power_int_def power_one_over)
  also have "\<dots> \<le> 4 * of_int (uint fee) / of_int (uint weight)"
  proof (rule frac_le)
    have "(1 :: rat) \<le> of_int (uint fee)" using f by (simp only: of_int_1_le_iff)
    then show "(4 :: rat) \<le> 4 * of_int (uint fee)" by linarith
    show "of_int (uint weight) \<le> (of_int (2 ^ 53) :: rat)" using assms(3) by (simp only: of_int_le_iff less_imp_le)
  qed (use w in \<open>simp_all del: of_int_uint\<close>)
  finally show ?thesis unfolding rate_exact [OF assms] by (rule f64_round_error)
qed (simp add: rate_def f64_div_def f64_mul_def u64_as_f64_def)

end
