(* ===== verification/Gbt_Ancestors.thy ===== *)
theory Gbt_Ancestors
  imports Gbt_Heap
begin

text \<open>
  The dependency graph of the block projection (\<open>gbt.rs\<close>): the transactions handed to the projector,
  the per-transaction working state \<open>Audit\<close>, the reverse edges, and the memoised depth-first search
  \<open>build_ancestors\<close> that computes every transaction's transitive ancestors.

  A \<open>uid\<close> is a natural number below \<open>2 ^ 32\<close> that indexes the input.  The Rust code indexes slices with
  it and panics past the end; parents are checked where the code first indexes with them
  (\<open>link_children\<close>), and after that every index is in range (lemma \<open>audits_ok_link\<close> and below).
  A \<open>HashSet\<close> is a duplicate-free list; \<open>score_of\<close> and the packages do not depend on its order
  (theory Gbt).  Recursion depth is a fuel parameter; \<open>build_ancestors_spec\<close> shows that one more than
  the number of transactions is enough for every graph, cyclic ones included.
\<close>

record gbt_tx =
  gt_uid :: nat
  gt_order :: u32
  gt_fee :: u64
  gt_weight :: u32
  gt_parents :: "nat list"

record audit =
  au_order :: u32
  au_fee :: u64
  au_weight :: u32
  au_ancestors :: "nat list"
  au_children :: "nat list"

subsection \<open>Audits and reverse edges\<close>

definition new_audit :: "gbt_tx \<Rightarrow> audit" where
  "new_audit tx = \<lparr>au_order = gt_order tx, au_fee = gt_fee tx, au_weight = gt_weight tx,
     au_ancestors = [], au_children = []\<rparr>"

definition add_child :: "nat \<Rightarrow> nat \<Rightarrow> audit list \<Rightarrow> panic + audit list" where
  "add_child uid p audits =
     (if p < length audits
      then Inr (audits[p := (audits ! p)\<lparr>au_children := au_children (audits ! p) @ [uid]\<rparr>])
      else Inl IndexOutOfBounds)"

fun add_children :: "nat \<Rightarrow> nat list \<Rightarrow> audit list \<Rightarrow> panic + audit list" where
  "add_children uid [] audits = Inr audits"
| "add_children uid (p # ps) audits =
     (case add_child uid p audits of
        Inl e \<Rightarrow> Inl e
      | Inr audits' \<Rightarrow> add_children uid ps audits')"

fun link_children :: "gbt_tx list \<Rightarrow> audit list \<Rightarrow> panic + audit list" where
  "link_children [] audits = Inr audits"
| "link_children (tx # txs) audits =
     (case add_children (gt_uid tx) (gt_parents tx) audits of
        Inl e \<Rightarrow> Inl e
      | Inr audits' \<Rightarrow> link_children txs audits')"

subsection \<open>The ancestor search\<close>

type_synonym dfs_state = "nat list option list \<times> bool list"

fun anc_parents ::
  "(nat \<Rightarrow> dfs_state \<Rightarrow> (nat list \<times> dfs_state) option) \<Rightarrow> nat list \<Rightarrow> nat list \<Rightarrow> dfs_state
     \<Rightarrow> (nat list \<times> dfs_state) option" where
  "anc_parents visit [] found st = Some (found, st)"
| "anc_parents visit (p # ps) found st =
     (case visit p st of
        None \<Rightarrow> None
      | Some (as, st') \<Rightarrow> anc_parents visit ps (fold List.insert as (List.insert p found)) st')"

primrec build_ancestors ::
  "nat \<Rightarrow> gbt_tx list \<Rightarrow> nat \<Rightarrow> dfs_state \<Rightarrow> (nat list \<times> dfs_state) option" where
  "build_ancestors 0 txs uid st = None"
| "build_ancestors (Suc fuel) txs uid st =
     (let (memo, visiting) = st in
      case memo ! uid of
        Some a \<Rightarrow> Some (a, st)
      | None \<Rightarrow>
          if visiting ! uid then Some ([], st)
          else (case anc_parents (build_ancestors fuel txs) (gt_parents (txs ! uid)) []
                       (memo, visiting[uid := True]) of
                  None \<Rightarrow> None
                | Some (v, (memo', visiting')) \<Rightarrow>
                    Some (v, (memo'[uid := Some v], visiting'[uid := False]))))"

fun fill_ancestors ::
  "nat \<Rightarrow> gbt_tx list \<Rightarrow> nat list \<Rightarrow> dfs_state \<Rightarrow> audit list \<Rightarrow> audit list option" where
  "fill_ancestors fuel txs [] st audits = Some audits"
| "fill_ancestors fuel txs (uid # uids) st audits =
     (case build_ancestors fuel txs uid st of
        None \<Rightarrow> None
      | Some (anc, st') \<Rightarrow>
          fill_ancestors fuel txs uids st' (audits[uid := (audits ! uid)\<lparr>au_ancestors := anc\<rparr>]))"

text \<open>
  The first part of \<open>project_with\<close>: audits, children, ancestors.  \<open>0..n as u32\<close> is \<open>[0..<n mod 2 ^ 32]\<close>;
  \<open>None\<close> would be a search that does not come back.
\<close>

definition build_audits :: "gbt_tx list \<Rightarrow> (panic + audit list) option" where
  "build_audits txs =
     (let n = length txs in
      case link_children txs (map new_audit txs) of
        Inl e \<Rightarrow> Some (Inl e)
      | Inr audits \<Rightarrow>
          map_option Inr
            (fill_ancestors (Suc n) txs [0..<n mod 2 ^ 32] (replicate n None, replicate n False) audits))"

subsection \<open>The graph\<close>

definition parent_rel :: "gbt_tx list \<Rightarrow> (nat \<times> nat) set" where
  "parent_rel txs = {(u, p). u < length txs \<and> p \<in> set (gt_parents (txs ! u))}"

text \<open>Dense uids that fit a \<open>u32\<close>, and parents inside the set: what \<open>snapshot_to_gbt\<close> produces.\<close>

definition wf_txs :: "gbt_tx list \<Rightarrow> bool" where
  "wf_txs txs \<longleftrightarrow> length txs < 2 ^ 32 \<and>
     (\<forall>i < length txs. gt_uid (txs ! i) = i \<and> (\<forall>p \<in> set (gt_parents (txs ! i)). p < length txs))"

definition anc_result :: "gbt_tx list \<Rightarrow> nat \<Rightarrow> nat list \<Rightarrow> bool" where
  "anc_result txs u a \<longleftrightarrow>
     distinct a \<and> set a \<subseteq> (parent_rel txs)\<^sup>+ `` {u} \<and>
     (acyclic (parent_rel txs) \<longrightarrow> set a = (parent_rel txs)\<^sup>+ `` {u})"

text \<open>The transactions on the recursion stack all have \<open>u\<close> among their ancestors.\<close>

definition on_path :: "gbt_tx list \<Rightarrow> bool list \<Rightarrow> nat \<Rightarrow> bool" where
  "on_path txs visiting u \<longleftrightarrow> (\<forall>v < length txs. visiting ! v \<longrightarrow> (v, u) \<in> (parent_rel txs)\<^sup>+)"

definition dfs_inv :: "gbt_tx list \<Rightarrow> dfs_state \<Rightarrow> bool" where
  "dfs_inv txs st \<longleftrightarrow> length (fst st) = length txs \<and> length (snd st) = length txs \<and>
     (\<forall>u a. u < length txs \<longrightarrow> fst st ! u = Some a \<longrightarrow> anc_result txs u a)"

lemma parent_relI: "u < length txs \<Longrightarrow> p \<in> set (gt_parents (txs ! u)) \<Longrightarrow> (u, p) \<in> parent_rel txs"
  by (simp add: parent_rel_def)

lemma wf_txs_parent: "wf_txs txs \<Longrightarrow> (u, p) \<in> parent_rel txs \<Longrightarrow> p < length txs"
  by (auto simp: wf_txs_def parent_rel_def)

lemma parent_rel_dom: "(u, p) \<in> parent_rel txs \<Longrightarrow> u < length txs"
  by (simp add: parent_rel_def)

lemma parent_trancl_bounds:
  assumes "wf_txs txs" "(u, a) \<in> (parent_rel txs)\<^sup>+"
  shows "u < length txs \<and> a < length txs"
  using assms(2) by (induction rule: trancl_induct) (auto dest: parent_rel_dom wf_txs_parent [OF assms(1)])

lemma parent_trancl_iff:
  "(u, a) \<in> (parent_rel txs)\<^sup>+ \<longleftrightarrow>
     (\<exists>p. (u, p) \<in> parent_rel txs \<and> (a = p \<or> (p, a) \<in> (parent_rel txs)\<^sup>+))"
proof
  assume "(u, a) \<in> (parent_rel txs)\<^sup>+"
  then show "\<exists>p. (u, p) \<in> parent_rel txs \<and> (a = p \<or> (p, a) \<in> (parent_rel txs)\<^sup>+)"
    by (cases rule: converse_tranclE) blast+
qed (blast intro: r_into_trancl trancl_into_trancl2)

lemma parent_trancl_unfold:
  assumes "u < length txs"
  shows "(\<Union>p \<in> set (gt_parents (txs ! u)). insert p ((parent_rel txs)\<^sup>+ `` {p})) = (parent_rel txs)\<^sup>+ `` {u}"
proof (rule set_eqI)
  fix a
  show "a \<in> (\<Union>p \<in> set (gt_parents (txs ! u)). insert p ((parent_rel txs)\<^sup>+ `` {p})) \<longleftrightarrow>
    a \<in> (parent_rel txs)\<^sup>+ `` {u}"
    using assms parent_trancl_iff [of u a txs] by (auto simp: parent_rel_def)
qed

lemma on_path_parent:
  assumes "on_path txs visiting u" "u < length txs" "p \<in> set (gt_parents (txs ! u))"
  shows "on_path txs (visiting[u := True]) p"
  unfolding on_path_def
proof (intro allI impI)
  fix w
  assume w: "w < length txs" "visiting[u := True] ! w"
  have up: "(u, p) \<in> parent_rel txs" using assms(2,3) by (rule parent_relI)
  show "(w, p) \<in> (parent_rel txs)\<^sup>+"
  proof (cases "w = u")
    case True
    with up show ?thesis by (simp add: r_into_trancl)
  next
    case False
    with w assms(1) have "(w, u) \<in> (parent_rel txs)\<^sup>+" by (simp add: on_path_def)
    with up show ?thesis by (rule trancl_into_trancl [rotated])
  qed
qed

lemma set_fold_insert [simp]: "set (fold List.insert as xs) = set as \<union> set xs"
  by (induction as arbitrary: xs) auto

lemma distinct_fold_insert: "distinct xs \<Longrightarrow> distinct (fold List.insert as xs)"
  by (induction as arbitrary: xs) auto

lemma count_False_update:
  "u < length vs \<Longrightarrow> \<not> vs ! u \<Longrightarrow> Suc (count_list (vs[u := True]) False) = count_list vs False"
  by (induction vs arbitrary: u) (auto simp: nth_Cons' list_update.simps split: nat.splits if_splits)

subsection \<open>The search finds the transitive ancestors\<close>

lemma anc_parents_spec:
  assumes visit: "\<And>p st. p \<in> set ps \<Longrightarrow> dfs_inv txs st \<Longrightarrow> snd st = vs \<Longrightarrow>
      \<exists>a st'. visit p st = Some (a, st') \<and> snd st' = vs \<and> dfs_inv txs st' \<and> anc_result txs p a"
    and st: "dfs_inv txs st" "snd st = vs" and found: "distinct found"
  shows "\<exists>v st'. anc_parents visit ps found st = Some (v, st') \<and> snd st' = vs \<and> dfs_inv txs st' \<and>
      distinct v \<and>
      set v \<subseteq> set found \<union> (\<Union>p \<in> set ps. insert p ((parent_rel txs)\<^sup>+ `` {p})) \<and>
      (acyclic (parent_rel txs) \<longrightarrow>
       set v = set found \<union> (\<Union>p \<in> set ps. insert p ((parent_rel txs)\<^sup>+ `` {p})))"
  using assms
proof (induction ps arbitrary: found st)
  case Nil
  then show ?case by simp
next
  case (Cons p ps)
  obtain a st' where a: "visit p st = Some (a, st')" "snd st' = vs" "dfs_inv txs st'" "anc_result txs p a"
    using Cons.prems(1) [of p st] Cons.prems(2,3) by auto
  let ?found = "fold List.insert a (List.insert p found)"
  let ?up = "\<Union>p \<in> set ps. insert p ((parent_rel txs)\<^sup>+ `` {p})"
  have "distinct ?found" using Cons.prems(4) by (simp add: distinct_fold_insert)
  then obtain v st'' where v: "anc_parents visit ps ?found st' = Some (v, st'')" "snd st'' = vs"
      "dfs_inv txs st''" "distinct v" "set v \<subseteq> set ?found \<union> ?up"
      "acyclic (parent_rel txs) \<longrightarrow> set v = set ?found \<union> ?up"
    using Cons.IH [OF Cons.prems(1) a(3,2)] by fastforce
  have a': "set a \<subseteq> (parent_rel txs)\<^sup>+ `` {p}" "acyclic (parent_rel txs) \<longrightarrow> set a = (parent_rel txs)\<^sup>+ `` {p}"
    using a(4) by (simp_all add: anc_result_def)
  show ?case using a(1) v a' by auto
qed

lemma dfs_inv_update:
  assumes "dfs_inv txs (memo, vs)" "length vs' = length txs" "anc_result txs u a"
  shows "dfs_inv txs (memo[u := Some a], vs')"
proof -
  have "anc_result txs w b" if "w < length txs" "memo[u := Some a] ! w = Some b" for w b
    using that assms by (cases "u = w") (auto simp: dfs_inv_def)
  then show ?thesis using assms by (simp add: dfs_inv_def)
qed

lemma build_ancestors_spec:
  assumes "wf_txs txs" "dfs_inv txs st" "u < length txs" "on_path txs (snd st) u"
    and "count_list (snd st) False < fuel"
  shows "\<exists>a st'. build_ancestors fuel txs u st = Some (a, st') \<and> snd st' = snd st \<and> dfs_inv txs st' \<and>
    anc_result txs u a"
  using assms
proof (induction fuel arbitrary: u st)
  case 0
  then show ?case by simp
next
  case (Suc fuel)
  obtain memo vs where st: "st = (memo, vs)" by (cases st)
  have len: "length memo = length txs" "length vs = length txs"
    using Suc.prems(2) by (simp_all add: st dfs_inv_def)
  consider (memo) a where "memo ! u = Some a" | (cycle) "memo ! u = None" "vs ! u" | (visit) "memo ! u = None" "\<not> vs ! u"
    by (cases "memo ! u") auto
  then show ?case
  proof cases
    case memo
    with Suc.prems show ?thesis by (simp add: st dfs_inv_def)
  next
    case cycle
    then have "anc_result txs u []"
      using Suc.prems(3,4) by (auto simp: anc_result_def acyclic_def on_path_def st)
    with cycle Suc.prems show ?thesis by (simp add: st)
  next
    case visit
    let ?ps = "gt_parents (txs ! u)" and ?vs = "vs[u := True]"
    have cnt: "count_list ?vs False < fuel"
      using count_False_update [of u vs] visit Suc.prems(3,5) len by (simp add: st)
    have inv: "dfs_inv txs (memo, ?vs)" using Suc.prems(2) by (simp add: dfs_inv_def st)
    have rec: "\<exists>a st'. build_ancestors fuel txs p st = Some (a, st') \<and> snd st' = ?vs \<and> dfs_inv txs st' \<and>
        anc_result txs p a" if "p \<in> set ?ps" "dfs_inv txs st" "snd st = ?vs" for p st
      using Suc.IH [of st p] that Suc.prems(1,3,4) cnt on_path_parent
      by (auto simp: st wf_txs_def)
    obtain v memo' where v: "anc_parents (build_ancestors fuel txs) ?ps [] (memo, ?vs) = Some (v, (memo', ?vs))"
        "dfs_inv txs (memo', ?vs)" "anc_result txs u v"
      using anc_parents_spec [of ?ps txs ?vs "build_ancestors fuel txs" "(memo, ?vs)" "[]", OF rec inv]
      unfolding parent_trancl_unfold [OF Suc.prems(3)] anc_result_def by fastforce
    have "dfs_inv txs (memo'[u := Some v], vs)"
      using dfs_inv_update [OF v(2) len(2) v(3)] .
    moreover have "?vs[u := False] = vs"
      using visit(2) by (metis list_update_id list_update_overwrite)
    ultimately show ?thesis
      using visit v(1,3) by (simp add: st)
  qed
qed

subsection \<open>The audits describe the graph\<close>

text \<open>What the reverse edges leave unchanged in an audit.\<close>

definition same_tx :: "audit \<Rightarrow> audit \<Rightarrow> bool" where
  "same_tx a b \<longleftrightarrow> au_order a = au_order b \<and> au_fee a = au_fee b \<and> au_weight a = au_weight b \<and>
     au_ancestors a = au_ancestors b"

lemma same_tx_refl [simp]: "same_tx a a"
  by (simp add: same_tx_def)

lemma same_tx_trans: "same_tx a b \<Longrightarrow> same_tx b c \<Longrightarrow> same_tx a c"
  by (simp add: same_tx_def)

definition audits_ok :: "gbt_tx list \<Rightarrow> audit list \<Rightarrow> bool" where
  "audits_ok txs audits \<longleftrightarrow> length audits = length txs \<and>
     (\<forall>i < length txs.
        au_order (audits ! i) = gt_order (txs ! i) \<and>
        au_fee (audits ! i) = gt_fee (txs ! i) \<and>
        au_weight (audits ! i) = gt_weight (txs ! i) \<and>
        set (au_children (audits ! i)) = {u. (u, i) \<in> parent_rel txs} \<and>
        anc_result txs i (au_ancestors (audits ! i)))"

lemma add_children_ok:
  assumes "\<forall>p \<in> set ps. p < length audits"
  shows "\<exists>audits'. add_children uid ps audits = Inr audits' \<and> length audits' = length audits \<and>
    (\<forall>i < length audits. same_tx (audits' ! i) (audits ! i) \<and>
       set (au_children (audits' ! i)) = set (au_children (audits ! i)) \<union> (if i \<in> set ps then {uid} else {}))"
  using assms
proof (induction ps arbitrary: audits)
  case Nil
  then show ?case by simp
next
  case (Cons p ps)
  define audits1 where
    "audits1 = audits[p := (audits ! p)\<lparr>au_children := au_children (audits ! p) @ [uid]\<rparr>]"
  have one: "add_child uid p audits = Inr audits1" "length audits1 = length audits"
    using Cons.prems by (simp_all add: add_child_def audits1_def)
  have step: "same_tx (audits1 ! i) (audits ! i) \<and>
      set (au_children (audits1 ! i)) = set (au_children (audits ! i)) \<union> (if i = p then {uid} else {})"
    if "i < length audits" for i
    using that Cons.prems by (auto simp: audits1_def nth_list_update same_tx_def)
  obtain audits' where IH: "add_children uid ps audits1 = Inr audits'" "length audits' = length audits1"
      "\<forall>i < length audits1. same_tx (audits' ! i) (audits1 ! i) \<and>
         set (au_children (audits' ! i)) = set (au_children (audits1 ! i)) \<union> (if i \<in> set ps then {uid} else {})"
    using Cons.IH [of audits1] Cons.prems one(2) by auto
  have "same_tx (audits' ! i) (audits ! i) \<and>
      set (au_children (audits' ! i)) = set (au_children (audits ! i)) \<union> (if i \<in> set (p # ps) then {uid} else {})"
    if "i < length audits" for i
    using step [OF that] IH(3) that one(2) by (auto intro: same_tx_trans)
  with IH(1,2) one show ?case by simp
qed

lemma add_children_panic:
  assumes "\<exists>p \<in> set ps. length audits \<le> p"
  shows "add_children uid ps audits = Inl IndexOutOfBounds"
  using assms
proof (induction ps arbitrary: audits)
  case (Cons p ps)
  then show ?case
    by (cases "p < length audits") (auto simp: add_child_def intro!: Cons.IH)
qed simp

lemma link_children_ok:
  assumes "\<forall>tx \<in> set txs. \<forall>p \<in> set (gt_parents tx). p < length audits"
  shows "\<exists>audits'. link_children txs audits = Inr audits' \<and> length audits' = length audits \<and>
    (\<forall>i < length audits. same_tx (audits' ! i) (audits ! i) \<and>
       set (au_children (audits' ! i)) =
         set (au_children (audits ! i)) \<union> {gt_uid tx | tx. tx \<in> set txs \<and> i \<in> set (gt_parents tx)})"
  using assms
proof (induction txs arbitrary: audits)
  case Nil
  then show ?case by simp
next
  case (Cons tx txs)
  obtain audits1 where one: "add_children (gt_uid tx) (gt_parents tx) audits = Inr audits1"
      "length audits1 = length audits"
      "\<forall>i < length audits. same_tx (audits1 ! i) (audits ! i) \<and> set (au_children (audits1 ! i)) =
         set (au_children (audits ! i)) \<union> (if i \<in> set (gt_parents tx) then {gt_uid tx} else {})"
    using add_children_ok [of "gt_parents tx" audits "gt_uid tx"] Cons.prems by auto
  obtain audits' where IH: "link_children txs audits1 = Inr audits'" "length audits' = length audits1"
      "\<forall>i < length audits1. same_tx (audits' ! i) (audits1 ! i) \<and> set (au_children (audits' ! i)) =
         set (au_children (audits1 ! i)) \<union> {gt_uid tx | tx. tx \<in> set txs \<and> i \<in> set (gt_parents tx)}"
    using Cons.IH [of audits1] Cons.prems one(2) by auto
  have "same_tx (audits' ! i) (audits ! i) \<and> set (au_children (audits' ! i)) =
      set (au_children (audits ! i)) \<union> {gt_uid t | t. t \<in> set (tx # txs) \<and> i \<in> set (gt_parents t)}"
    if "i < length audits" for i
  proof -
    have "{gt_uid t | t. t \<in> set (tx # txs) \<and> i \<in> set (gt_parents t)} =
        (if i \<in> set (gt_parents tx) then {gt_uid tx} else {}) \<union>
        {gt_uid t | t. t \<in> set txs \<and> i \<in> set (gt_parents t)}" by auto
    then show ?thesis
      using that one(2,3) IH(3) by (auto intro: same_tx_trans)
  qed
  with IH(1,2) one(1,2) show ?case by simp
qed

lemma link_children_panic:
  assumes "\<exists>tx \<in> set txs. \<exists>p \<in> set (gt_parents tx). length audits \<le> p"
  shows "link_children txs audits = Inl IndexOutOfBounds"
  using assms
proof (induction txs arbitrary: audits)
  case (Cons tx txs)
  show ?case
  proof (cases "\<exists>p \<in> set (gt_parents tx). length audits \<le> p")
    case True
    then show ?thesis by (simp add: add_children_panic)
  next
    case False
    then obtain audits1 where "add_children (gt_uid tx) (gt_parents tx) audits = Inr audits1"
        "length audits1 = length audits"
      using add_children_ok [of "gt_parents tx" audits "gt_uid tx"] by (auto simp: not_le)
    with Cons False show ?thesis by auto
  qed
qed simp

lemma count_list_replicate [simp]: "count_list (replicate n x) x = n"
  by (induction n) simp_all

lemma wf_txs_set:
  assumes "wf_txs txs" "tx \<in> set txs"
  shows "gt_uid tx < length txs" and "txs ! gt_uid tx = tx"
    and "\<forall>p \<in> set (gt_parents tx). p < length txs"
  using assms by (auto simp: wf_txs_def in_set_conv_nth [of tx])

lemma fill_ancestors_ok:
  assumes "wf_txs txs" "dfs_inv txs st" "snd st = replicate (length txs) False" "length txs < fuel"
    and "\<forall>u \<in> set us. u < length txs" "length audits = length txs" "distinct us"
  shows "\<exists>audits'. fill_ancestors fuel txs us st audits = Some audits' \<and> length audits' = length audits \<and>
    (\<forall>i < length txs. (i \<notin> set us \<longrightarrow> audits' ! i = audits ! i) \<and>
       (i \<in> set us \<longrightarrow> (\<exists>a. audits' ! i = (audits ! i)\<lparr>au_ancestors := a\<rparr> \<and> anc_result txs i a)))"
  using assms
proof (induction us arbitrary: st audits)
  case Nil
  then show ?case by simp
next
  case (Cons u us)
  have "on_path txs (snd st) u" using Cons.prems(3) by (simp add: on_path_def)
  moreover have "count_list (snd st) False < fuel"
    using Cons.prems(3,4) by simp
  ultimately obtain a st' where a: "build_ancestors fuel txs u st = Some (a, st')" "snd st' = snd st"
      "dfs_inv txs st'" "anc_result txs u a"
    using build_ancestors_spec [of txs st u fuel] Cons.prems(1,2,5) by auto
  let ?audits = "audits[u := (audits ! u)\<lparr>au_ancestors := a\<rparr>]"
  obtain audits' where IH: "fill_ancestors fuel txs us st' ?audits = Some audits'"
      "length audits' = length audits"
      "\<forall>i < length txs. (i \<notin> set us \<longrightarrow> audits' ! i = ?audits ! i) \<and>
         (i \<in> set us \<longrightarrow> (\<exists>a. audits' ! i = (?audits ! i)\<lparr>au_ancestors := a\<rparr> \<and> anc_result txs i a))"
    using Cons.IH [of st' ?audits] Cons.prems a by auto
  have "(i \<notin> set (u # us) \<longrightarrow> audits' ! i = audits ! i) \<and> (i \<in> set (u # us) \<longrightarrow>
      (\<exists>a. audits' ! i = (audits ! i)\<lparr>au_ancestors := a\<rparr> \<and> anc_result txs i a))" if "i < length txs" for i
  proof (cases "i = u")
    case True
    with IH(3) that Cons.prems(6,7) a(4) show ?thesis by auto
  next
    case False
    then have "?audits ! i = audits ! i" by simp
    with IH(3) that False show ?thesis by force
  qed
  with IH(1,2) a(1) show ?case by auto
qed

lemma build_audits_ok:
  assumes wf: "wf_txs txs"
  shows "\<exists>audits. build_audits txs = Some (Inr audits) \<and> audits_ok txs audits"
proof -
  let ?n = "length txs"
  note idx = wf_txs_set [OF wf]
  have "\<forall>tx \<in> set txs. \<forall>p \<in> set (gt_parents tx). p < length (map new_audit txs)"
    using idx(3) by simp
  from link_children_ok [OF this] obtain audits1 where
    l: "link_children txs (map new_audit txs) = Inr audits1" "length audits1 = ?n"
      "\<forall>i < ?n. same_tx (audits1 ! i) (new_audit (txs ! i)) \<and>
         set (au_children (audits1 ! i)) = {gt_uid tx | tx. tx \<in> set txs \<and> i \<in> set (gt_parents tx)}"
    by (auto simp: new_audit_def)
  have ch: "{gt_uid tx | tx. tx \<in> set txs \<and> i \<in> set (gt_parents tx)} = {u. (u, i) \<in> parent_rel txs}" for i
  proof -
    have "\<exists>tx. u = gt_uid tx \<and> tx \<in> set txs \<and> i \<in> set (gt_parents tx)" if "(u, i) \<in> parent_rel txs" for u
      using that wf by (intro exI [of _ "txs ! u"]) (auto simp: parent_rel_def wf_txs_def)
    moreover have "(gt_uid tx, i) \<in> parent_rel txs" if "tx \<in> set txs" "i \<in> set (gt_parents tx)" for tx
      using that idx by (simp add: parent_rel_def)
    ultimately show ?thesis by blast
  qed
  have inv: "dfs_inv txs (replicate ?n None, replicate ?n False)" by (simp add: dfs_inv_def)
  have n: "?n mod 2 ^ 32 = ?n" using wf by (simp add: wf_txs_def)
  obtain audits where f: "fill_ancestors (Suc ?n) txs [0..<?n] (replicate ?n None, replicate ?n False) audits1
        = Some audits" "length audits = ?n"
      "\<forall>i < ?n. \<exists>a. audits ! i = (audits1 ! i)\<lparr>au_ancestors := a\<rparr> \<and> anc_result txs i a"
    using fill_ancestors_ok [OF wf inv, of "Suc ?n" "[0..<?n]" audits1] l(2) by auto
  have "audits_ok txs audits"
    unfolding audits_ok_def using f(2,3) l(3) ch by (fastforce simp: same_tx_def new_audit_def)
  then show ?thesis using l(1) f(1) n by (simp add: build_audits_def Let_def)
qed

end
