(* ===== verification/Gbt.thy ===== *)
theory Gbt
  imports Gbt_Ancestors "HOL-Library.Product_Lexorder"
begin

text \<open>
  The block projection itself (\<open>gbt.rs\<close>): \<open>project_with\<close> packs transactions into projected blocks by
  ancestor-package fee rate.  The mutable locals of the Rust function are the record \<open>pack_state\<close>; one
  turn of its \<open>while let Some(item) = heap.pop()\<close> loop is \<open>pack_iter\<close>, and the loop is
  \<open>while_option\<close>, whose \<open>None\<close> would be a loop that never ends (it does not: theory Gbt\_Invariants).
\<close>

definition MAX_BLOCK_WEIGHT :: u32 where "MAX_BLOCK_WEIGHT = 4000000"
definition BLOCK_RESERVED_WEIGHT :: u32 where "BLOCK_RESERVED_WEIGHT = 4000"
definition MAX_BLOCKS :: usize where "MAX_BLOCKS = 8"
definition FAILURE_LIMIT :: nat where "FAILURE_LIMIT = 1000"

record projection =
  pj_blocks :: "nat list list"
  pj_rates :: "nat \<rightharpoonup> f64"

record pack_state =
  ps_heap :: "heap_item list"
  ps_used :: "bool list"
  ps_blocks :: "nat list list"
  ps_rates :: "nat \<rightharpoonup> f64"
  ps_cur :: "nat list"
  ps_weight :: u64
  ps_overflow :: "nat list"
  ps_failures :: nat

subsection \<open>Scores and packages\<close>

definition weight64 :: "audit list \<Rightarrow> nat \<Rightarrow> u64" where
  "weight64 audits u = ucast (au_weight (audits ! u))"

definition score_acc :: "audit list \<Rightarrow> bool list \<Rightarrow> nat \<Rightarrow> u64 \<times> u64 \<Rightarrow> u64 \<times> u64" where
  "score_acc audits used an pfw =
     (if used ! an then pfw
      else (fst pfw + au_fee (audits ! an), snd pfw + weight64 audits an))"

definition score_of :: "nat \<Rightarrow> audit list \<Rightarrow> bool list \<Rightarrow> f64" where
  "score_of uid audits used =
     (let a = audits ! uid;
          own = rate (au_fee a) (weight64 audits uid);
          (pf, pw) = fold (score_acc audits used) (au_ancestors a) (au_fee a, weight64 audits uid)
      in min own (rate pf pw))"

definition entry :: "audit list \<Rightarrow> bool list \<Rightarrow> nat \<Rightarrow> heap_item" where
  "entry audits used u = HeapItem (score_of u audits used) (au_order (audits ! u)) u"

definition package :: "audit list \<Rightarrow> bool list \<Rightarrow> nat \<Rightarrow> nat list" where
  "package audits used uid =
     sort_key (\<lambda>a. (length (au_ancestors (audits ! a)), au_order (audits ! a), a))
       (filter (\<lambda>a. \<not> used ! a) (au_ancestors (audits ! uid))) @ [uid]"

definition pkg_weight :: "audit list \<Rightarrow> nat list \<Rightarrow> u64" where
  "pkg_weight audits pkg = sum_list (map (weight64 audits) pkg)"

definition pkg_fee :: "audit list \<Rightarrow> nat list \<Rightarrow> u64" where
  "pkg_fee audits pkg = sum_list (map (\<lambda>m. au_fee (audits ! m)) pkg)"

subsection \<open>Refreshing the descendants of a package\<close>

definition children_of :: "audit list \<Rightarrow> nat \<Rightarrow> nat list" where
  "children_of audits d = (if d < length audits then au_children (audits ! d) else [])"

text \<open>\<open>if seen.insert(c) { stack.push(c); }\<close> over a list of children; the top of the stack is the head.\<close>

fun push_unseen :: "nat list \<Rightarrow> nat list \<times> nat list \<Rightarrow> nat list \<times> nat list" where
  "push_unseen [] ss = ss"
| "push_unseen (c # cs) (seen, stack) =
     (if c \<in> set seen then push_unseen cs (seen, stack)
      else push_unseen cs (c # seen, c # stack))"

definition all_children :: "audit list \<Rightarrow> nat set" where
  "all_children audits = (\<Union>a \<in> set audits. set (au_children a))"

lemma finite_all_children [simp]: "finite (all_children audits)"
  by (simp add: all_children_def)

lemma children_of_subset: "set (children_of audits d) \<subseteq> all_children audits"
  by (auto simp: children_of_def all_children_def intro: bexI [OF _ nth_mem])

lemma push_unseen_measure:
  assumes "finite U" "set cs \<subseteq> U"
  shows "card (U - set (fst (push_unseen cs (seen, stack)))) + length (snd (push_unseen cs (seen, stack)))
    = card (U - set seen) + length stack"
  using assms
proof (induction cs arbitrary: seen stack)
  case (Cons c cs)
  have "Suc (card (U - set (c # seen))) = card (U - set seen)" if "c \<notin> set seen"
  proof -
    have "c \<in> U - set seen" and "U - set (c # seen) = (U - set seen) - {c}"
      using that Cons.prems by auto
    then show ?thesis using Cons.prems(1) by (simp only: card_Suc_Diff1 finite_Diff)
  qed
  with Cons show ?case by auto
qed simp

function refresh_loop ::
  "audit list \<Rightarrow> bool list \<Rightarrow> nat list \<times> nat list \<Rightarrow> heap_item list \<Rightarrow> heap_item list" where
  "refresh_loop audits used (seen, []) heap = heap"
| "refresh_loop audits used (seen, d # stack) heap =
     refresh_loop audits used (push_unseen (children_of audits d) (seen, stack))
       (if used ! d then heap else heap_push (entry audits used d) heap)"
  by pat_completeness auto
termination
proof (relation "measure (\<lambda>(audits, used, ss, heap). card (all_children audits - set (fst ss)) + length (snd ss))")
  fix audits used seen d stack and heap :: "heap_item list"
  show "((audits, used, push_unseen (children_of audits d) (seen, stack),
      if used ! d then heap else heap_push (entry audits used d) heap), audits, used, (seen, d # stack), heap)
    \<in> measure (\<lambda>(audits, used, ss, heap). card (all_children audits - set (fst ss)) + length (snd ss))"
    using push_unseen_measure [OF finite_all_children children_of_subset, of audits d seen stack] by simp
qed simp

definition refresh_descendants ::
  "nat list \<Rightarrow> audit list \<Rightarrow> bool list \<Rightarrow> heap_item list \<Rightarrow> heap_item list" where
  "refresh_descendants pkg audits used heap =
     refresh_loop audits used (push_unseen (concat (map (children_of audits) pkg)) ([], [])) heap"

subsection \<open>The packing loop\<close>

definition bounded :: "usize \<Rightarrow> pack_state \<Rightarrow> bool" where
  "bounded max_blocks s \<longleftrightarrow> length (ps_blocks s) < max_blocks - 1"

definition include_one :: "audit list \<Rightarrow> f64 \<Rightarrow> nat \<Rightarrow> pack_state \<Rightarrow> pack_state" where
  "include_one audits r m s =
     s\<lparr>ps_used := (ps_used s)[m := True],
       ps_cur := ps_cur s @ [m],
       ps_weight := ps_weight s + weight64 audits m,
       ps_rates := (ps_rates s)(m \<mapsto> r)\<rparr>"

definition include_package :: "audit list \<Rightarrow> nat list \<Rightarrow> pack_state \<Rightarrow> pack_state" where
  "include_package audits pkg s =
     (let s' = fold (include_one audits (rate (pkg_fee audits pkg) (pkg_weight audits pkg))) pkg s
      in s'\<lparr>ps_heap := refresh_descendants pkg audits (ps_used s') (ps_heap s'), ps_failures := 0\<rparr>)"

definition defer_package :: "nat \<Rightarrow> pack_state \<Rightarrow> pack_state" where
  "defer_package uid s =
     s\<lparr>ps_overflow := ps_overflow s @ [uid], ps_failures := ps_failures s + 1\<rparr>"

definition place_package :: "audit list \<Rightarrow> usize \<Rightarrow> u32 \<Rightarrow> nat \<Rightarrow> pack_state \<Rightarrow> pack_state" where
  "place_package audits max_blocks max_block_weight uid s =
     (let pkg = package audits (ps_used s) uid in
      if bounded max_blocks s \<and> ps_cur s \<noteq> [] \<and>
         ucast max_block_weight < u64_sat_add (ps_weight s) (pkg_weight audits pkg)
      then defer_package uid s
      else include_package audits pkg s)"

definition finalize_block :: "audit list \<Rightarrow> usize \<Rightarrow> u32 \<Rightarrow> pack_state \<Rightarrow> pack_state" where
  "finalize_block audits max_blocks reserved s =
     (if bounded max_blocks s \<and> (FAILURE_LIMIT < ps_failures s \<or> ps_heap s = []) \<and> ps_cur s \<noteq> []
      then s\<lparr>ps_blocks := ps_blocks s @ [ps_cur s],
             ps_cur := [],
             ps_weight := ucast reserved,
             ps_failures := 0,
             ps_heap := fold heap_push (map (entry audits (ps_used s)) (ps_overflow s)) (ps_heap s),
             ps_overflow := []\<rparr>
      else s)"

definition is_stale :: "f64 \<Rightarrow> heap_item \<Rightarrow> bool" where
  "is_stale cur item \<longleftrightarrow> f64_1e_9 < \<bar>f64_sub cur (hi_score item)\<bar>"

definition pack_iter ::
  "audit list \<Rightarrow> usize \<Rightarrow> u32 \<Rightarrow> u32 \<Rightarrow> pack_state \<Rightarrow> pack_state" where
  "pack_iter audits max_blocks max_block_weight reserved s =
     (case heap_pop (ps_heap s) of
        None \<Rightarrow> s
      | Some (item, heap) \<Rightarrow>
          let s = s\<lparr>ps_heap := heap\<rparr>;
              uid = hi_uid item;
              cur = score_of uid audits (ps_used s)
          in if ps_used s ! uid then s
             else if is_stale cur item
             then s\<lparr>ps_heap := heap_push (HeapItem cur (au_order (audits ! uid)) uid) heap\<rparr>
             else finalize_block audits max_blocks reserved
                    (place_package audits max_blocks max_block_weight uid s))"

definition pack_init :: "audit list \<Rightarrow> u32 \<Rightarrow> pack_state" where
  "pack_init audits reserved =
     (let n = length audits; used = replicate n False in
      \<lparr>ps_heap = fold heap_push (map (entry audits used) [0..<n mod 2 ^ 32]) [],
       ps_used = used,
       ps_blocks = [],
       ps_rates = Map.empty,
       ps_cur = [],
       ps_weight = ucast reserved,
       ps_overflow = [],
       ps_failures = 0\<rparr>)"

definition pack_loop ::
  "audit list \<Rightarrow> usize \<Rightarrow> u32 \<Rightarrow> u32 \<Rightarrow> pack_state \<Rightarrow> pack_state option" where
  "pack_loop audits max_blocks max_block_weight reserved =
     while_option (\<lambda>s. ps_heap s \<noteq> []) (pack_iter audits max_blocks max_block_weight reserved)"

definition pack_finish :: "pack_state \<Rightarrow> projection" where
  "pack_finish s =
     \<lparr>pj_blocks = (if ps_cur s \<noteq> [] then ps_blocks s @ [ps_cur s] else ps_blocks s),
      pj_rates = ps_rates s\<rparr>"

definition project_with ::
  "gbt_tx list \<Rightarrow> usize \<Rightarrow> u32 \<Rightarrow> u32 \<Rightarrow> (panic + projection) option" where
  "project_with txs max_blocks max_block_weight reserved =
     (if txs = [] then Some (Inr \<lparr>pj_blocks = [], pj_rates = Map.empty\<rparr>)
      else case build_audits txs of
        None \<Rightarrow> None
      | Some (Inl e) \<Rightarrow> Some (Inl e)
      | Some (Inr audits) \<Rightarrow>
          map_option (\<lambda>s. Inr (pack_finish s))
            (pack_loop audits max_blocks max_block_weight reserved (pack_init audits reserved)))"

definition project :: "gbt_tx list \<Rightarrow> (panic + projection) option" where
  "project txs = project_with txs MAX_BLOCKS MAX_BLOCK_WEIGHT BLOCK_RESERVED_WEIGHT"

end
