(* ===== verification/Gbt_Invariants.thy ===== *)
theory Gbt_Invariants
  imports Gbt
begin

text \<open>
  The packing loop of \<open>gbt.rs\<close> terminates for every dependency graph, and what every state of it
  satisfies.  \<open>graph_ok\<close> is what \<open>build_audits\<close> guarantees for any input, cyclic ones included;
  \<open>pack_inv\<close> is the invariant that needs no more than that (used transactions are exactly the placed
  ones, and every transaction that is neither placed nor deferred has an entry with its current score
  on the heap).  \<open>dag_ok\<close> and \<open>order_inv\<close> add what holds for acyclic graphs: nothing is placed twice,
  ancestors come first, and block weights respect the limit.
\<close>

subsection \<open>The graph as the loop sees it\<close>

definition child_rel :: "audit list \<Rightarrow> (nat \<times> nat) set" where
  "child_rel audits = {(p, c). c \<in> set (children_of audits p)}"

definition anc :: "audit list \<Rightarrow> nat \<Rightarrow> nat list" where
  "anc audits u = au_ancestors (audits ! u)"

definition graph_ok :: "audit list \<Rightarrow> bool" where
  "graph_ok audits \<longleftrightarrow> length audits < 2 ^ 32 \<and>
     (\<forall>u < length audits. distinct (anc audits u) \<and>
        (\<forall>a \<in> set (anc audits u). a < length audits \<and> (a, u) \<in> (child_rel audits)\<^sup>+) \<and>
        (\<forall>c \<in> set (children_of audits u). c < length audits))"

definition dag_ok :: "audit list \<Rightarrow> bool" where
  "dag_ok audits \<longleftrightarrow> graph_ok audits \<and>
     (\<forall>u < length audits. u \<notin> set (anc audits u) \<and>
        (\<forall>a \<in> set (anc audits u). set (anc audits a) \<subseteq> set (anc audits u)))"

lemma graph_okD:
  assumes "graph_ok audits" "u < length audits"
  shows "distinct (anc audits u)" and "a \<in> set (anc audits u) \<Longrightarrow> a < length audits"
    and "a \<in> set (anc audits u) \<Longrightarrow> (a, u) \<in> (child_rel audits)\<^sup>+"
    and "c \<in> set (children_of audits u) \<Longrightarrow> c < length audits"
  using assms unfolding graph_ok_def by blast+

lemma child_rel_bound:
  assumes "graph_ok audits" "(p, c) \<in> child_rel audits"
  shows "p < length audits \<and> c < length audits"
proof -
  have p: "p < length audits" using assms(2) by (simp add: child_rel_def children_of_def split: if_splits)
  have "c \<in> set (children_of audits p)" using assms(2) by (simp add: child_rel_def)
  with p graph_okD(4) [OF assms(1) p] show ?thesis by simp
qed

lemma child_trancl_bound:
  "graph_ok audits \<Longrightarrow> (p, c) \<in> (child_rel audits)\<^sup>+ \<Longrightarrow> c < length audits"
  by (erule trancl.cases) (auto dest: child_rel_bound)

lemma audits_ok_child_rel:
  assumes "wf_txs txs" "audits_ok txs audits"
  shows "child_rel audits = (parent_rel txs)\<inverse>"
  using assms wf_txs_parent [OF assms(1)]
  by (auto simp: child_rel_def children_of_def audits_ok_def)

lemma audits_ok_graph:
  assumes wf: "wf_txs txs" and ok: "audits_ok txs audits"
  shows "graph_ok audits"
proof -
  have len: "length audits = length txs" using ok by (simp add: audits_ok_def)
  have "distinct (anc audits u)" "\<forall>a \<in> set (anc audits u). a < length txs \<and> (a, u) \<in> (child_rel audits)\<^sup>+"
    "\<forall>c \<in> set (children_of audits u). c < length txs" if "u < length txs" for u
  proof -
    have a: "anc_result txs u (anc audits u)" using ok that by (simp add: audits_ok_def anc_def)
    then show "distinct (anc audits u)" by (simp add: anc_result_def)
    show "\<forall>a \<in> set (anc audits u). a < length txs \<and> (a, u) \<in> (child_rel audits)\<^sup>+"
      using a parent_trancl_bounds [OF wf] unfolding audits_ok_child_rel [OF wf ok] trancl_converse anc_result_def
      by blast
    have "\<forall>c \<in> set (children_of audits u). (c, u) \<in> parent_rel txs"
      using ok that len by (auto simp: children_of_def audits_ok_def)
    then show "\<forall>c \<in> set (children_of audits u). c < length txs" using parent_rel_dom by blast
  qed
  then show ?thesis using wf len unfolding graph_ok_def wf_txs_def by presburger
qed

lemma audits_ok_dag:
  assumes wf: "wf_txs txs" and ok: "audits_ok txs audits" and ac: "acyclic (parent_rel txs)"
  shows "dag_ok audits"
proof -
  have len: "length audits = length txs" using ok by (simp add: audits_ok_def)
  have eq: "set (anc audits u) = (parent_rel txs)\<^sup>+ `` {u}" if "u < length txs" for u
    using ok ac that by (simp add: audits_ok_def anc_result_def anc_def)
  have "u \<notin> set (anc audits u)" if "u < length txs" for u
    using ac by (simp add: eq [OF that] acyclic_def)
  moreover have "set (anc audits a) \<subseteq> set (anc audits u)" if "u < length txs" "a \<in> set (anc audits u)" for u a
    using that parent_trancl_bounds [OF wf, of u a] by (auto simp: eq intro: trancl_trans)
  ultimately show ?thesis using audits_ok_graph [OF wf ok] len by (simp add: dag_ok_def)
qed

subsection \<open>Refreshing covers exactly the descendants\<close>

lemma push_unseen_sets:
  "set (fst (push_unseen cs (seen, stack))) = set cs \<union> set seen \<and>
   set (snd (push_unseen cs (seen, stack))) = set stack \<union> (set cs - set seen)"
  by (induction cs arbitrary: seen stack) auto

lemma refresh_loop_complete:
  assumes "set (snd ss) \<subseteq> set (fst ss)"
    and "\<forall>x \<in> set (fst ss) - set (snd ss).
      set (children_of audits x) \<subseteq> set (fst ss) \<and> (\<not> used ! x \<longrightarrow> entry audits used x \<in> set heap)"
  shows "\<exists>S. set (fst ss) \<subseteq> S \<and> (\<forall>x \<in> S. set (children_of audits x) \<subseteq> S \<and>
    (\<not> used ! x \<longrightarrow> entry audits used x \<in> set (refresh_loop audits used ss heap)))"
  using assms
proof (induction audits used ss heap rule: refresh_loop.induct)
  case (1 audits used seen heap)
  then show ?case by (intro exI [of _ "set seen"]) auto
next
  case (2 audits used seen d stack heap)
  let ?ss = "push_unseen (children_of audits d) (seen, stack)"
  let ?heap = "if used ! d then heap else heap_push (entry audits used d) heap"
  note ps = push_unseen_sets [of "children_of audits d" seen stack]
  have "set (snd ?ss) \<subseteq> set (fst ?ss)" using ps "2.prems"(1) by auto
  moreover have "\<forall>x \<in> set (fst ?ss) - set (snd ?ss).
      set (children_of audits x) \<subseteq> set (fst ?ss) \<and> (\<not> used ! x \<longrightarrow> entry audits used x \<in> set ?heap)"
    using ps "2.prems" by auto
  ultimately obtain S where "set (fst ?ss) \<subseteq> S" "\<forall>x \<in> S. set (children_of audits x) \<subseteq> S \<and>
      (\<not> used ! x \<longrightarrow> entry audits used x \<in> set (refresh_loop audits used ?ss ?heap))"
    using "2.IH" by blast
  then show ?case using ps by (intro exI [of _ S]) auto
qed

lemma refresh_loop_heap_mono: "set heap \<subseteq> set (refresh_loop audits used ss heap)"
  by (induction audits used ss heap rule: refresh_loop.induct) (auto split: if_splits)

lemma refresh_loop_heap_ok: "heap_ok heap \<Longrightarrow> heap_ok (refresh_loop audits used ss heap)"
  by (induction audits used ss heap rule: refresh_loop.induct) (simp_all add: heap_ok_push)

lemma refresh_loop_sound:
  assumes "set (snd ss) \<subseteq> (child_rel audits)\<^sup>+ `` P"
  shows "set (refresh_loop audits used ss heap) \<subseteq>
    set heap \<union> {entry audits used d | d. \<not> used ! d \<and> d \<in> (child_rel audits)\<^sup>+ `` P}"
  using assms
proof (induction audits used ss heap rule: refresh_loop.induct)
  case (2 audits used seen d stack heap)
  have "set (children_of audits d) \<subseteq> (child_rel audits)\<^sup>+ `` P"
    using "2.prems" by (auto simp: child_rel_def intro: trancl_into_trancl)
  then have "set (snd (push_unseen (children_of audits d) (seen, stack))) \<subseteq> (child_rel audits)\<^sup>+ `` P"
    using "2.prems" push_unseen_sets [of "children_of audits d" seen stack] by auto
  with "2.IH" "2.prems" show ?case by (auto split: if_splits)
qed simp

lemma refresh_descendants_complete:
  assumes "(m, d) \<in> (child_rel audits)\<^sup>+" "m \<in> set pkg" "\<not> used ! d"
  shows "entry audits used d \<in> set (refresh_descendants pkg audits used heap)"
proof -
  let ?ss = "push_unseen (concat (map (children_of audits) pkg)) ([], [])"
  note ps = push_unseen_sets [of "concat (map (children_of audits) pkg)" "[]" "[]"]
  obtain S where S: "set (fst ?ss) \<subseteq> S" "\<forall>x \<in> S. set (children_of audits x) \<subseteq> S \<and>
      (\<not> used ! x \<longrightarrow> entry audits used x \<in> set (refresh_loop audits used ?ss heap))"
    using refresh_loop_complete [of ?ss audits used heap] ps by auto
  have "d \<in> S" using assms(1)
  proof (induction rule: trancl_induct)
    case (base y)
    then show ?case using S(1) ps assms(2) by (auto simp: child_rel_def)
  next
    case (step y z)
    then show ?case using S(2) by (auto simp: child_rel_def)
  qed
  then show ?thesis using S(2) assms(3) by (simp add: refresh_descendants_def)
qed

lemma refresh_descendants_mono: "set heap \<subseteq> set (refresh_descendants pkg audits used heap)"
  by (simp add: refresh_descendants_def refresh_loop_heap_mono)

lemma refresh_descendants_heap_ok: "heap_ok heap \<Longrightarrow> heap_ok (refresh_descendants pkg audits used heap)"
  by (simp add: refresh_descendants_def refresh_loop_heap_ok)

lemma refresh_descendants_sound:
  "set (refresh_descendants pkg audits used heap) \<subseteq>
     set heap \<union> {entry audits used d | d. \<not> used ! d \<and> d \<in> (child_rel audits)\<^sup>+ `` set pkg}"
proof -
  have "set (snd (push_unseen (concat (map (children_of audits) pkg)) ([], []))) \<subseteq> (child_rel audits)\<^sup>+ `` set pkg"
    using push_unseen_sets [of "concat (map (children_of audits) pkg)" "[]" "[]"]
    by (auto simp: child_rel_def)
  from refresh_loop_sound [OF this] show ?thesis by (simp add: refresh_descendants_def)
qed

subsection \<open>The effect of one placement\<close>

lemma fold_include_frame [frame_simps]:
  "ps_heap (fold (include_one audits r) pkg s) = ps_heap s"
  "ps_blocks (fold (include_one audits r) pkg s) = ps_blocks s"
  "ps_overflow (fold (include_one audits r) pkg s) = ps_overflow s"
  "ps_failures (fold (include_one audits r) pkg s) = ps_failures s"
  "ps_cur (fold (include_one audits r) pkg s) = ps_cur s @ pkg"
  "length (ps_used (fold (include_one audits r) pkg s)) = length (ps_used s)"
  by (induction pkg arbitrary: s) (simp_all add: include_one_def)

lemma fold_include_weight:
  "ps_weight (fold (include_one audits r) pkg s) = ps_weight s + pkg_weight audits pkg"
  by (induction pkg arbitrary: s) (simp_all add: include_one_def pkg_weight_def)

lemma fold_include_used:
  "x < length (ps_used s) \<Longrightarrow>
     ps_used (fold (include_one audits r) pkg s) ! x = (ps_used s ! x \<or> x \<in> set pkg)"
proof (induction pkg arbitrary: s)
  case (Cons m pkg)
  then show ?case by (cases "x = m") (simp_all add: include_one_def)
qed simp

lemma fold_include_rates:
  "ps_rates (fold (include_one audits r) pkg s) x = (if x \<in> set pkg then Some r else ps_rates s x)"
  by (induction pkg arbitrary: s) (simp_all add: include_one_def)

lemma set_package:
  "set (package audits used u) = insert u {a \<in> set (anc audits u). \<not> used ! a}"
  by (auto simp: package_def anc_def)

lemma package_nonempty [simp]: "package audits used u \<noteq> []"
  by (simp add: package_def)

lemma score_of_cong:
  assumes "\<forall>a \<in> set (anc audits u). used' ! a = used ! a"
  shows "score_of u audits used' = score_of u audits used"
proof -
  have "fold (score_acc audits used') as acc = fold (score_acc audits used) as acc"
    if "\<forall>a \<in> set as. used' ! a = used ! a" for as acc
    using that by (induction as arbitrary: acc) (simp_all add: score_acc_def)
  from this [of "anc audits u"] show ?thesis
    using assms by (simp add: score_of_def anc_def Let_def)
qed

lemma entry_sel [simp]:
  "hi_uid (entry audits used u) = u" "hi_score (entry audits used u) = score_of u audits used"
  "hi_order (entry audits used u) = au_order (audits ! u)"
  by (simp_all add: entry_def)

subsection \<open>The invariant for any graph\<close>

definition placed :: "pack_state \<Rightarrow> nat list" where
  "placed s = concat (ps_blocks s) @ ps_cur s"

definition pack_inv :: "audit list \<Rightarrow> usize \<Rightarrow> pack_state \<Rightarrow> bool" where
  "pack_inv audits max_blocks s \<longleftrightarrow>
     length (ps_used s) = length audits \<and>
     heap_ok (ps_heap s) \<and>
     (\<forall>it \<in> set (ps_heap s). hi_uid it < length audits \<and> hi_order it = au_order (audits ! hi_uid it)) \<and>
     (\<forall>u \<in> set (ps_overflow s). u < length audits) \<and>
     (\<forall>u < length audits. \<not> ps_used s ! u \<longrightarrow>
        u \<in> set (ps_overflow s) \<or> entry audits (ps_used s) u \<in> set (ps_heap s)) \<and>
     (\<forall>u. u \<in> set (placed s) \<longleftrightarrow> u < length audits \<and> ps_used s ! u) \<and>
     (\<forall>u. ps_rates s u \<noteq> None \<longleftrightarrow> u \<in> set (placed s)) \<and>
     length (ps_blocks s) \<le> max_blocks - 1 \<and>
     [] \<notin> set (ps_blocks s) \<and>
     (ps_overflow s \<noteq> [] \<longrightarrow> bounded max_blocks s \<and> ps_cur s \<noteq> [])"

lemma pack_invI [wf_intros]:
  assumes "length (ps_used s) = length audits" "heap_ok (ps_heap s)"
    and "\<And>it. it \<in> set (ps_heap s) \<Longrightarrow> hi_uid it < length audits \<and> hi_order it = au_order (audits ! hi_uid it)"
    and "\<And>u. u \<in> set (ps_overflow s) \<Longrightarrow> u < length audits"
    and "\<And>u. u < length audits \<Longrightarrow> \<not> ps_used s ! u \<Longrightarrow>
        u \<in> set (ps_overflow s) \<or> entry audits (ps_used s) u \<in> set (ps_heap s)"
    and "\<And>u. u \<in> set (placed s) \<longleftrightarrow> u < length audits \<and> ps_used s ! u"
    and "\<And>u. ps_rates s u \<noteq> None \<longleftrightarrow> u \<in> set (placed s)"
    and "length (ps_blocks s) \<le> max_blocks - 1" "[] \<notin> set (ps_blocks s)"
    and "ps_overflow s \<noteq> [] \<Longrightarrow> bounded max_blocks s \<and> ps_cur s \<noteq> []"
  shows "pack_inv audits max_blocks s"
  using assms unfolding pack_inv_def by blast

lemma pack_invD:
  assumes "pack_inv audits max_blocks s"
  shows "length (ps_used s) = length audits" "heap_ok (ps_heap s)"
    and "it \<in> set (ps_heap s) \<Longrightarrow> hi_uid it < length audits"
    and "it \<in> set (ps_heap s) \<Longrightarrow> hi_order it = au_order (audits ! hi_uid it)"
    and "u \<in> set (ps_overflow s) \<Longrightarrow> u < length audits"
    and "u < length audits \<Longrightarrow> \<not> ps_used s ! u \<Longrightarrow>
        u \<in> set (ps_overflow s) \<or> entry audits (ps_used s) u \<in> set (ps_heap s)"
    and "u \<in> set (placed s) \<longleftrightarrow> u < length audits \<and> ps_used s ! u"
    and "ps_rates s u \<noteq> None \<longleftrightarrow> u \<in> set (placed s)"
    and "length (ps_blocks s) \<le> max_blocks - 1" "[] \<notin> set (ps_blocks s)"
    and "ps_overflow s \<noteq> [] \<Longrightarrow> bounded max_blocks s \<and> ps_cur s \<noteq> []"
  using assms unfolding pack_inv_def by blast+

lemma placed_sel [simp]:
  "placed (s\<lparr>ps_heap := h\<rparr>) = placed s" "placed (s\<lparr>ps_failures := k\<rparr>) = placed s"
  "placed (s\<lparr>ps_overflow := v\<rparr>) = placed s"
  by (simp_all add: placed_def)

lemma bounded_sel [simp]:
  "bounded mb (s\<lparr>ps_heap := h\<rparr>) = bounded mb s" "bounded mb (s\<lparr>ps_failures := k\<rparr>) = bounded mb s"
  "bounded mb (s\<lparr>ps_overflow := v\<rparr>) = bounded mb s"
  by (simp_all add: bounded_def)

lemma pack_init_inv:
  assumes "graph_ok audits"
  shows "pack_inv audits max_blocks (pack_init audits reserved)"
proof -
  have "length audits < 2 ^ 32" using assms unfolding graph_ok_def by blast
  then have n: "length audits mod 4294967296 = length audits" by simp
  show ?thesis
    by (rule pack_invI)
      (auto simp: pack_init_def Let_def n placed_def bh.ok_push_all bh.ok_empty simp del: fold_map)
qed

lemma defer_package_inv:
  assumes inv: "pack_inv audits mb (s\<lparr>ps_heap := it # h\<rparr>)" and "bounded mb s" "ps_cur s \<noteq> []"
  shows "pack_inv audits mb (defer_package (hi_uid it) (s\<lparr>ps_heap := h\<rparr>))"
proof (rule pack_invI)
  fix u assume u: "u < length audits" "\<not> ps_used (defer_package (hi_uid it) (s\<lparr>ps_heap := h\<rparr>)) ! u"
  then show "u \<in> set (ps_overflow (defer_package (hi_uid it) (s\<lparr>ps_heap := h\<rparr>))) \<or>
    entry audits (ps_used (defer_package (hi_uid it) (s\<lparr>ps_heap := h\<rparr>))) u \<in>
      set (ps_heap (defer_package (hi_uid it) (s\<lparr>ps_heap := h\<rparr>)))"
    using pack_invD(6) [OF inv u(1)] by (auto simp: defer_package_def)
qed (use pack_invD [OF inv] assms(2,3) in \<open>auto simp: defer_package_def heap_ok_Cons\<close>)

lemma include_package_inv:
  assumes g: "graph_ok audits" and inv: "pack_inv audits mb (s\<lparr>ps_heap := it # h\<rparr>)"
    and u: "\<not> ps_used s ! hi_uid it"
  shows "pack_inv audits mb (include_package audits (package audits (ps_used s) (hi_uid it)) (s\<lparr>ps_heap := h\<rparr>))"
proof -
  define u where "u = hi_uid it"
  define pkg where "pkg = package audits (ps_used s) u"
  define used where "used = ps_used (fold (include_one audits (rate (pkg_fee audits pkg) (pkg_weight audits pkg)))
    pkg (s\<lparr>ps_heap := h\<rparr>))"
  define s' where "s' = include_package audits pkg (s\<lparr>ps_heap := h\<rparr>)"
  note D = pack_invD [OF inv, simplified]
  have un: "u < length audits" using D(3) [of it] by (simp add: u_def)
  have pkg: "set pkg = insert u {a \<in> set (anc audits u). \<not> ps_used s ! a}"
    by (simp add: pkg_def set_package)
  have pkg_n: "m < length audits" if "m \<in> set pkg" for m
    using that un graph_okD(2) [OF g un] by (auto simp: pkg)
  have used: "used ! x = (ps_used s ! x \<or> x \<in> set pkg)" if "x < length audits" for x
    using that D(1) by (simp add: used_def fold_include_used)
  have s': "ps_used s' = used" "ps_heap s' = refresh_descendants pkg audits used h" "ps_cur s' = ps_cur s @ pkg"
      "ps_blocks s' = ps_blocks s" "ps_overflow s' = ps_overflow s" "length used = length audits"
      "\<And>x. ps_rates s' x = (if x \<in> set pkg then Some (rate (pkg_fee audits pkg) (pkg_weight audits pkg)) else ps_rates s x)"
    using D(1) by (simp_all add: s'_def include_package_def Let_def used_def frame_simps fold_include_rates)
  have placed: "set (placed s') = set (placed s) \<union> set pkg" by (simp add: placed_def s' Un_assoc)
  have fresh: "entry audits used x \<in> set (ps_heap s')"
    if x: "x < length audits" "\<not> used ! x" "x \<notin> set (ps_overflow s)" for x
  proof (cases "\<exists>a \<in> set (anc audits x). a \<in> set pkg")
    case True
    then show ?thesis
      using graph_okD(3) [OF g x(1)] x(2) by (auto simp: s' intro: refresh_descendants_complete)
  next
    case False
    have "\<not> ps_used s ! x" "x \<noteq> u" using x used pkg by auto
    then have "entry audits (ps_used s) x \<in> set h"
      using D(6) [OF x(1)] x(3) by (auto simp: u_def)
    moreover have "score_of x audits used = score_of x audits (ps_used s)"
      using False graph_okD(2) [OF g x(1)] used by (intro score_of_cong) blast
    ultimately show ?thesis
      using refresh_descendants_mono [of h pkg audits used] by (auto simp: s' entry_def)
  qed
  have "pack_inv audits mb s'"
  proof (rule pack_invI)
    fix i assume "i \<in> set (ps_heap s')"
    then consider "i \<in> set h" | d where "i = entry audits used d" "d \<in> (child_rel audits)\<^sup>+ `` set pkg"
      using refresh_descendants_sound [of pkg audits used h] unfolding s'(2) by blast
    then show "hi_uid i < length audits \<and> hi_order i = au_order (audits ! hi_uid i)"
      by cases (use D(3,4) child_trancl_bound [OF g] in auto)
  next
    fix x
    show "(x \<in> set (placed s')) = (x < length audits \<and> ps_used s' ! x)"
      using D(7) [of x] used [of x] pkg_n [of x] by (auto simp: placed s'(1))
    show "(ps_rates s' x \<noteq> None) = (x \<in> set (placed s'))"
      using D(8) [of x] by (simp add: placed s'(7))
    show "x < length audits \<Longrightarrow> \<not> ps_used s' ! x \<Longrightarrow>
        x \<in> set (ps_overflow s') \<or> entry audits (ps_used s') x \<in> set (ps_heap s')"
      using fresh [of x] by (auto simp: s'(1,5))
  next
    show "heap_ok (ps_heap s')"
      using D(2) by (simp add: s' refresh_descendants_heap_ok heap_ok_Cons)
  qed (use D s' in \<open>auto simp: bounded_def\<close>)
  then show ?thesis by (simp add: s'_def pkg_def u_def)
qed

lemma finalize_block_inv:
  assumes inv: "pack_inv audits mb s"
  shows "pack_inv audits mb (finalize_block audits mb reserved s)"
proof (cases "bounded mb s \<and> (FAILURE_LIMIT < ps_failures s \<or> ps_heap s = []) \<and> ps_cur s \<noteq> []")
  case False
  then show ?thesis using inv by (auto simp: finalize_block_def)
next
  case True
  define s' where "s' = finalize_block audits mb reserved s"
  have s': "ps_used s' = ps_used s" "ps_rates s' = ps_rates s" "ps_blocks s' = ps_blocks s @ [ps_cur s]"
      "ps_cur s' = []" "ps_overflow s' = []"
      "ps_heap s' = fold heap_push (map (entry audits (ps_used s)) (ps_overflow s)) (ps_heap s)"
    using True by (simp_all add: s'_def finalize_block_def)
  note D = pack_invD [OF inv]
  have placed: "placed s' = placed s" by (simp add: placed_def s')
  have "pack_inv audits mb s'"
  proof (rule pack_invI)
    fix u assume "u < length audits" "\<not> ps_used s' ! u"
    then show "u \<in> set (ps_overflow s') \<or> entry audits (ps_used s') u \<in> set (ps_heap s')"
      using D(6) [of u] by (auto simp: s' simp del: fold_map)
  next
    fix i assume "i \<in> set (ps_heap s')"
    then show "hi_uid i < length audits \<and> hi_order i = au_order (audits ! hi_uid i)"
      using D(3,4,5) by (auto simp: s' simp del: fold_map)
  next
    show "heap_ok (ps_heap s')" using D(2) by (simp add: s' bh.ok_push_all del: fold_map)
    show "length (ps_blocks s') \<le> mb - 1" using True by (simp add: s' bounded_def)
    show "[] \<notin> set (ps_blocks s')" using D(10) True by (auto simp: s')
  qed (use D placed s' in \<open>auto simp del: fold_map\<close>)
  then show ?thesis by (simp add: s'_def)
qed

lemma place_package_inv:
  assumes "graph_ok audits" "pack_inv audits mb (s\<lparr>ps_heap := it # h\<rparr>)" "\<not> ps_used s ! hi_uid it"
  shows "pack_inv audits mb (place_package audits mb mbw (hi_uid it) (s\<lparr>ps_heap := h\<rparr>))"
  using include_package_inv [OF assms] defer_package_inv [OF assms(2)]
  by (simp add: place_package_def Let_def)

lemma drop_used_inv:
  assumes inv: "pack_inv audits mb (s\<lparr>ps_heap := it # h\<rparr>)" and "ps_used s ! hi_uid it"
  shows "pack_inv audits mb (s\<lparr>ps_heap := h\<rparr>)"
proof (rule pack_invI)
  fix u assume u: "u < length audits" "\<not> ps_used (s\<lparr>ps_heap := h\<rparr>) ! u"
  then show "u \<in> set (ps_overflow (s\<lparr>ps_heap := h\<rparr>)) \<or>
      entry audits (ps_used (s\<lparr>ps_heap := h\<rparr>)) u \<in> set (ps_heap (s\<lparr>ps_heap := h\<rparr>))"
    using pack_invD(6) [OF inv u(1)] assms(2) by auto
qed (use pack_invD [OF inv] in \<open>auto simp: heap_ok_Cons\<close>)

lemma refresh_entry_inv:
  assumes inv: "pack_inv audits mb (s\<lparr>ps_heap := it # h\<rparr>)"
  shows "pack_inv audits mb (s\<lparr>ps_heap := heap_push
    (HeapItem (score_of (hi_uid it) audits (ps_used s)) (au_order (audits ! hi_uid it)) (hi_uid it)) h\<rparr>)"
    (is "pack_inv audits mb ?s")
proof (rule pack_invI)
  fix u assume u: "u < length audits" "\<not> ps_used ?s ! u"
  then show "u \<in> set (ps_overflow ?s) \<or> entry audits (ps_used ?s) u \<in> set (ps_heap ?s)"
    using pack_invD(6) [OF inv u(1)] by (auto simp: entry_def)
qed (use pack_invD [OF inv] in \<open>auto simp: heap_ok_push heap_ok_Cons\<close>)

lemma pack_iter_inv:
  assumes g: "graph_ok audits" and inv: "pack_inv audits mb s"
  shows "pack_inv audits mb (pack_iter audits mb mbw reserved s)"
proof (cases "ps_heap s")
  case Nil
  with inv show ?thesis by (simp add: pack_iter_def)
next
  case (Cons it h)
  then have inv': "pack_inv audits mb (s\<lparr>ps_heap := it # h\<rparr>)" using inv by (metis pack_state.surjective pack_state.update_convs(1))
  show ?thesis
    using drop_used_inv [OF inv'] refresh_entry_inv [OF inv']
      finalize_block_inv [OF place_package_inv [OF g inv']]
    by (simp add: pack_iter_def Cons Let_def)
qed

subsection \<open>Termination of the packing loop\<close>

text \<open>
  Every turn of the loop places a transaction, or closes a block, or shrinks the heap, or replaces a
  stale heap entry by a fresh one, in this lexicographic order of importance.
\<close>

definition stale_items :: "audit list \<Rightarrow> pack_state \<Rightarrow> heap_item list" where
  "stale_items audits s =
     filter (\<lambda>it. is_stale (score_of (hi_uid it) audits (ps_used s)) it) (ps_heap s)"

definition pack_order :: "audit list \<Rightarrow> usize \<Rightarrow> (pack_state \<times> pack_state) set" where
  "pack_order audits max_blocks = measures
     [\<lambda>s. card {u. u < length audits \<and> \<not> ps_used s ! u},
      \<lambda>s. max_blocks - 1 - length (ps_blocks s),
      \<lambda>s. length (ps_heap s) + length (stale_items audits s)]"

lemma length_filter_push:
  "length (filter P (heap_push x h)) = (if P x then 1 else 0) + length (filter P h)"
proof -
  have "length (filter P (heap_push x h)) = size (filter_mset P (mset (heap_push x h)))"
    by (simp flip: size_mset)
  then show ?thesis by (simp add: mset_heap_push flip: size_mset)
qed

lemma not_stale_self [simp]: "\<not> is_stale c (HeapItem c ord u)"
  using f64_1e_9_nonneg by (simp add: is_stale_def)

lemma finalize_order:
  "(finalize_block audits mb reserved s, s) \<in> pack_order audits mb \<or> finalize_block audits mb reserved s = s"
  by (auto simp: finalize_block_def pack_order_def bounded_def)

lemma pack_order_trans:
  assumes "(a, b) \<in> pack_order audits mb" "(b, c) \<in> pack_order audits mb"
  shows "(a, c) \<in> pack_order audits mb"
  using assms by (auto simp: pack_order_def)

lemma shrink_heap_order:
  assumes "ps_used t = ps_used s" "ps_blocks t = ps_blocks s" "ps_heap s = it # ps_heap t"
  shows "(t, s) \<in> pack_order audits mb"
  using assms by (simp add: pack_order_def stale_items_def)

lemma include_order:
  assumes "length (ps_used s) = length audits" "u < length audits" "\<not> ps_used s ! u" "u \<in> set pkg"
  shows "(include_package audits pkg (s\<lparr>ps_heap := h\<rparr>), s) \<in> pack_order audits mb"
proof -
  let ?s = "include_package audits pkg (s\<lparr>ps_heap := h\<rparr>)"
  have used: "ps_used ?s ! x = (ps_used s ! x \<or> x \<in> set pkg)" if "x < length audits" for x
    using that assms(1) by (simp add: include_package_def Let_def fold_include_used)
  have "{x. x < length audits \<and> \<not> ps_used ?s ! x} \<subset> {x. x < length audits \<and> \<not> ps_used s ! x}"
    using assms used by auto
  then have "card {x. x < length audits \<and> \<not> ps_used ?s ! x} < card {x. x < length audits \<and> \<not> ps_used s ! x}"
    by (intro psubset_card_mono) simp_all
  then show ?thesis by (simp add: pack_order_def)
qed

lemma pack_iter_decreases:
  assumes inv: "pack_inv audits mb s" and ne: "ps_heap s \<noteq> []"
  shows "(pack_iter audits mb mbw reserved s, s) \<in> pack_order audits mb"
proof -
  obtain it h where h: "ps_heap s = it # h" using ne by (cases "ps_heap s") auto
  let ?u = "hi_uid it"
  let ?cur = "score_of ?u audits (ps_used s)"
  have u: "?u < length audits" using pack_invD(3) [OF inv] h by simp
  show ?thesis
  proof (cases "ps_used s ! ?u")
    case True
    then show ?thesis using h by (simp add: pack_iter_def shrink_heap_order)
  next
    case unused: False
    show ?thesis
    proof (cases "is_stale ?cur it")
      case True
      then show ?thesis
        using h unused by (simp add: pack_iter_def Let_def pack_order_def stale_items_def length_filter_push)
    next
      case False
      let ?s = "place_package audits mb mbw ?u (s\<lparr>ps_heap := h\<rparr>)"
      have "(defer_package ?u (s\<lparr>ps_heap := h\<rparr>), s) \<in> pack_order audits mb"
        by (rule shrink_heap_order) (simp_all add: defer_package_def h)
      moreover have "(include_package audits (package audits (ps_used s) ?u) (s\<lparr>ps_heap := h\<rparr>), s)
          \<in> pack_order audits mb"
        by (rule include_order [OF pack_invD(1) [OF inv] u unused]) (simp add: set_package)
      ultimately have "(?s, s) \<in> pack_order audits mb"
        by (simp add: place_package_def Let_def)
      then show ?thesis
        using h unused False finalize_order [of audits mb reserved ?s] pack_order_trans
        by (auto simp: pack_iter_def Let_def)
    qed
  qed
qed

text \<open>
  The rule for the loop: it returns, and any property \<open>J\<close> that the start has and every turn keeps
  (given the invariant) holds at the end, when the heap is empty.
\<close>

lemma pack_loop_rule:
  assumes g: "graph_ok audits" and inv: "pack_inv audits mb s" and init: "J s"
    and step: "\<And>s. pack_inv audits mb s \<Longrightarrow> J s \<Longrightarrow> ps_heap s \<noteq> [] \<Longrightarrow> J (pack_iter audits mb mbw reserved s)"
  shows "\<exists>t. pack_loop audits mb mbw reserved s = Some t \<and> pack_inv audits mb t \<and> J t \<and> ps_heap t = []"
proof -
  have "\<exists>t. pack_loop audits mb mbw reserved s = Some t \<and> (pack_inv audits mb t \<and> J t) \<and> \<not> ps_heap t \<noteq> []"
    unfolding pack_loop_def
  proof (rule while_option_total [where R = "pack_order audits mb" and I = "\<lambda>s. pack_inv audits mb s \<and> J s"])
    show "wf (pack_order audits mb)" by (simp add: pack_order_def)
  qed (use inv init step in \<open>auto intro: pack_iter_inv [OF g] pack_iter_decreases\<close>)
  then show ?thesis by auto
qed

text \<open>A turn of the loop, as a case analysis for properties that do not depend on the heap.\<close>

lemma pack_iter_cases:
  assumes ne: "ps_heap s \<noteq> []" and inv: "pack_inv audits mb s"
    and heap: "\<And>h. J (s\<lparr>ps_heap := h\<rparr>)"
    and postpone: "\<And>u h. u < length audits \<Longrightarrow> \<not> ps_used s ! u \<Longrightarrow> bounded mb s \<Longrightarrow> ps_cur s \<noteq> [] \<Longrightarrow>
      ucast mbw < u64_sat_add (ps_weight s) (pkg_weight audits (package audits (ps_used s) u)) \<Longrightarrow>
      J (defer_package u (s\<lparr>ps_heap := h\<rparr>))"
    and incl: "\<And>u h. u < length audits \<Longrightarrow> \<not> ps_used s ! u \<Longrightarrow>
      \<not> (bounded mb s \<and> ps_cur s \<noteq> [] \<and>
         ucast mbw < u64_sat_add (ps_weight s) (pkg_weight audits (package audits (ps_used s) u))) \<Longrightarrow>
      J (include_package audits (package audits (ps_used s) u) (s\<lparr>ps_heap := h\<rparr>))"
    and final: "\<And>s. J s \<Longrightarrow> J (finalize_block audits mb reserved s)"
  shows "J (pack_iter audits mb mbw reserved s)"
proof -
  obtain it h where h: "ps_heap s = it # h" using ne by (cases "ps_heap s") auto
  have u: "hi_uid it < length audits" using pack_invD(3) [OF inv] h by simp
  show ?thesis
    using h u heap postpone incl
    by (auto simp: pack_iter_def Let_def place_package_def intro!: final)
qed

end
