(* ===== verification/Gbt_Order.thy ===== *)
theory Gbt_Order
  imports Gbt_Invariants
begin

text \<open>
  What the packing loop of \<open>gbt.rs\<close> keeps on acyclic dependency graphs: no transaction is placed
  twice, every transaction comes after all of its ancestors, the running block weight is exact (it
  cannot wrap), and every bounded block either fits the limit or is a single package that does not.
\<close>

primrec topo_from :: "audit list \<Rightarrow> nat set \<Rightarrow> nat list \<Rightarrow> bool" where
  "topo_from audits S [] = True"
| "topo_from audits S (x # xs) = (set (anc audits x) \<subseteq> S \<and> topo_from audits (insert x S) xs)"

definition wsum :: "audit list \<Rightarrow> nat list \<Rightarrow> nat" where
  "wsum audits us = sum_list (map (\<lambda>u. unat (au_weight (audits ! u))) us)"

definition one_package :: "audit list \<Rightarrow> nat list \<Rightarrow> bool" where
  "one_package audits b \<longleftrightarrow> (\<exists>u \<in> set b. set b \<subseteq> insert u (set (anc audits u)))"

definition block_ok :: "audit list \<Rightarrow> u32 \<Rightarrow> u32 \<Rightarrow> nat list \<Rightarrow> bool" where
  "block_ok audits max_block_weight reserved b \<longleftrightarrow>
     unat reserved + wsum audits b \<le> unat max_block_weight \<or> one_package audits b"

definition order_inv :: "audit list \<Rightarrow> usize \<Rightarrow> u32 \<Rightarrow> u32 \<Rightarrow> pack_state \<Rightarrow> bool" where
  "order_inv audits max_blocks max_block_weight reserved s \<longleftrightarrow>
     distinct (placed s) \<and>
     topo_from audits {} (placed s) \<and>
     unat (ps_weight s) = unat reserved + wsum audits (ps_cur s) \<and>
     (\<forall>b \<in> set (ps_blocks s). block_ok audits max_block_weight reserved b) \<and>
     (bounded max_blocks s \<and> ps_cur s \<noteq> [] \<longrightarrow> block_ok audits max_block_weight reserved (ps_cur s))"

subsection \<open>Topological order\<close>

lemma topo_from_append:
  "topo_from audits S (xs @ ys) \<longleftrightarrow> topo_from audits S xs \<and> topo_from audits (S \<union> set xs) ys"
  by (induction xs arbitrary: S) auto

lemma topo_from_mono: "topo_from audits S xs \<Longrightarrow> S \<subseteq> T \<Longrightarrow> topo_from audits T xs"
proof (induction xs arbitrary: S T)
  case (Cons x xs)
  then show ?case using Cons.IH [of "insert x S" "insert x T"] by auto
qed simp

lemma topo_from_closed: "topo_from audits S xs \<Longrightarrow> u \<in> set xs \<Longrightarrow> set (anc audits u) \<subseteq> S \<union> set xs"
  by (induction xs arbitrary: S) fastforce+

lemma topo_from_nth:
  "topo_from audits {} xs \<Longrightarrow> i < length xs \<Longrightarrow> set (anc audits (xs ! i)) \<subseteq> set (take i xs)"
proof -
  assume "topo_from audits {} xs" "i < length xs"
  then have "topo_from audits {} (take i xs @ xs ! i # drop (Suc i) xs)"
    by (simp flip: id_take_nth_drop)
  then show ?thesis by (simp add: topo_from_append)
qed

text \<open>A list sorted by the number of ancestors is in topological order, if it is closed.\<close>

lemma topo_from_sorted:
  assumes "sorted_wrt (\<lambda>a b. length (anc audits a) \<le> length (anc audits b)) xs" "distinct xs"
    and "\<And>x a. x \<in> set xs \<Longrightarrow> a \<in> set (anc audits x) \<Longrightarrow> a \<notin> S \<Longrightarrow>
      a \<in> set xs \<and> length (anc audits a) < length (anc audits x)"
  shows "topo_from audits S xs"
  using assms
proof (induction xs arbitrary: S)
  case (Cons x xs)
  have "a \<in> S" if "a \<in> set (anc audits x)" for a
  proof (rule ccontr)
    assume "a \<notin> S"
    with Cons.prems(3) [of x a] that have "a \<in> set (x # xs)" "length (anc audits a) < length (anc audits x)"
      by auto
    with Cons.prems(1) show False by auto
  qed
  moreover have "topo_from audits (insert x S) xs"
  proof (rule Cons.IH)
    fix y a
    assume "y \<in> set xs" "a \<in> set (anc audits y)" "a \<notin> insert x S"
    then show "a \<in> set xs \<and> length (anc audits a) < length (anc audits y)"
      using Cons.prems(3) [of y a] by auto
  qed (use Cons.prems in auto)
  ultimately show ?case by auto
qed simp

lemma dag_okD:
  assumes "dag_ok audits" "u < length audits"
  shows "u \<notin> set (anc audits u)" and "a \<in> set (anc audits u) \<Longrightarrow> set (anc audits a) \<subseteq> set (anc audits u)"
  using assms unfolding dag_ok_def by blast+

lemma dag_ok_graph: "dag_ok audits \<Longrightarrow> graph_ok audits"
  unfolding dag_ok_def by blast

lemma anc_shorter:
  assumes "dag_ok audits" "u < length audits" "a \<in> set (anc audits u)"
  shows "length (anc audits a) < length (anc audits u)"
proof -
  note g = dag_ok_graph [OF assms(1)]
  have a: "a < length audits" using graph_okD(2) [OF g assms(2,3)] .
  have "set (anc audits a) \<subset> set (anc audits u)"
    using dag_okD(2) [OF assms] dag_okD(1) [OF assms(1) a] assms(3) by auto
  then have "card (set (anc audits a)) < card (set (anc audits u))"
    by (rule psubset_card_mono [rotated]) simp
  then show ?thesis
    using graph_okD(1) [OF g assms(2)] graph_okD(1) [OF g a] by (simp add: distinct_card)
qed

subsection \<open>Packages\<close>

lemma sorted_wrt_sort_key: "sorted_wrt (\<lambda>a b. f a \<le> f b) (sort_key f xs)"
  using sorted_sort_key [of f xs] by (simp add: sorted_wrt_map sorted_map)

lemma package_distinct:
  assumes "dag_ok audits" "u < length audits"
  shows "distinct (package audits used u)"
  using dag_okD(1) [OF assms] graph_okD(1) [OF dag_ok_graph [OF assms(1)] assms(2)]
  by (simp add: package_def anc_def)

lemma package_topo:
  assumes dag: "dag_ok audits" and u: "u < length audits"
    and used: "\<And>x. x < length audits \<Longrightarrow> x \<in> S \<longleftrightarrow> used ! x"
  shows "topo_from audits S (package audits used u)"
proof -
  note g = dag_ok_graph [OF dag]
  define key where "key = (\<lambda>a. (length (au_ancestors (audits ! a)), au_order (audits ! a), a))"
  define xs where "xs = sort_key key (filter (\<lambda>a. \<not> used ! a) (anc audits u))"
  have pkg: "package audits used u = xs @ [u]"
    by (simp add: package_def xs_def key_def anc_def)
  have set_xs: "set xs = {a \<in> set (anc audits u). \<not> used ! a}" by (auto simp: xs_def)
  have "sorted_wrt (\<lambda>a b. key a \<le> key b) xs" by (simp add: xs_def sorted_wrt_sort_key)
  then have "sorted_wrt (\<lambda>a b. length (anc audits a) \<le> length (anc audits b)) xs"
    by (rule sorted_wrt_mono_rel [rotated]) (auto simp: key_def anc_def less_eq_prod_def)
  moreover have "distinct xs"
    using graph_okD(1) [OF g u] by (simp add: xs_def)
  ultimately have "topo_from audits S xs"
  proof (rule topo_from_sorted)
    fix x a
    assume x: "x \<in> set xs" and a: "a \<in> set (anc audits x)" "a \<notin> S"
    have xn: "x < length audits" "x \<in> set (anc audits u)" using x set_xs graph_okD(2) [OF g u] by auto
    have an: "a < length audits" using graph_okD(2) [OF g xn(1) a(1)] .
    show "a \<in> set xs \<and> length (anc audits a) < length (anc audits x)"
      using dag_okD(2) [OF dag u xn(2)] a used [OF an] set_xs anc_shorter [OF dag xn(1) a(1)] by auto
  qed
  moreover have "set (anc audits u) \<subseteq> S \<union> set xs"
    using used graph_okD(2) [OF g u] set_xs by auto
  ultimately show ?thesis by (simp add: pkg topo_from_append)
qed

subsection \<open>Weights\<close>

lemma wsum_append [simp]: "wsum audits (xs @ ys) = wsum audits xs + wsum audits ys"
  by (simp add: wsum_def)

lemma wsum_bound:
  assumes "distinct us" "\<And>u. u \<in> set us \<Longrightarrow> u < length audits" "length audits < 2 ^ 32"
  shows "wsum audits us \<le> (2 ^ 32 - 1) * (2 ^ 32 - 1)"
proof -
  have "wsum audits us \<le> length us * (2 ^ 32 - 1)"
    unfolding wsum_def using unat_u32_lt by (intro sum_list_bound_nat) (simp add: less_Suc_eq_le flip: Suc_le_eq)
  also have "\<dots> \<le> (2 ^ 32 - 1) * (2 ^ 32 - 1)"
    using distinct_length_le_bound [OF assms(1,2)] assms(3) by (intro mult_le_mono1) simp
  finally show ?thesis .
qed

lemma unat_pkg_weight:
  assumes "wsum audits us < 2 ^ 64"
  shows "unat (pkg_weight audits us) = wsum audits us"
  using assms
proof (induction us)
  case (Cons u us)
  then show ?case by (simp add: pkg_weight_def wsum_def weight64_def unat_word_ariths)
qed (simp add: pkg_weight_def wsum_def)

subsection \<open>The invariant for acyclic graphs\<close>

lemma order_inv_init:
  "order_inv audits mb mbw reserved (pack_init audits reserved)"
  by (simp add: order_inv_def pack_init_def Let_def placed_def wsum_def)

lemma order_inv_heap: "order_inv audits mb mbw reserved s \<Longrightarrow> order_inv audits mb mbw reserved (s\<lparr>ps_heap := h\<rparr>)"
  by (simp add: order_inv_def)

lemma order_inv_defer:
  "order_inv audits mb mbw reserved s \<Longrightarrow> order_inv audits mb mbw reserved (defer_package u (s\<lparr>ps_heap := h\<rparr>))"
  by (simp add: order_inv_def defer_package_def placed_def bounded_def)

lemma order_inv_finalize:
  "order_inv audits mb mbw reserved s \<Longrightarrow> order_inv audits mb mbw reserved (finalize_block audits mb reserved s)"
  by (auto simp: order_inv_def finalize_block_def placed_def wsum_def)

lemma order_inv_include:
  assumes dag: "dag_ok audits" and inv: "pack_inv audits mb s" and ord: "order_inv audits mb mbw reserved s"
    and u: "u < length audits" "\<not> ps_used s ! u"
    and fit: "\<not> (bounded mb s \<and> ps_cur s \<noteq> [] \<and>
      ucast mbw < u64_sat_add (ps_weight s) (pkg_weight audits (package audits (ps_used s) u)))"
  shows "order_inv audits mb mbw reserved
    (include_package audits (package audits (ps_used s) u) (s\<lparr>ps_heap := h\<rparr>))"
    (is "order_inv _ _ _ _ ?s")
proof -
  define pkg where "pkg = package audits (ps_used s) u"
  note g = dag_ok_graph [OF dag]
  have pkg_set: "set pkg = insert u {a \<in> set (anc audits u). \<not> ps_used s ! a}"
    by (simp add: pkg_def set_package)
  have pkg_n: "m < length audits" if "m \<in> set pkg" for m
    using that u graph_okD(2) [OF g u(1)] by (auto simp: pkg_set)
  have sel: "placed ?s = placed s @ pkg" "ps_cur ?s = ps_cur s @ pkg" "ps_blocks ?s = ps_blocks s"
      "ps_weight ?s = ps_weight s + pkg_weight audits pkg" "bounded mb ?s = bounded mb s"
    by (simp_all add: include_package_def Let_def placed_def bounded_def frame_simps fold_include_weight pkg_def)
  have O: "distinct (placed s)" "topo_from audits {} (placed s)"
      "unat (ps_weight s) = unat reserved + wsum audits (ps_cur s)"
    using ord by (simp_all add: order_inv_def)
  have dist: "distinct (placed s @ pkg)"
    using O(1) package_distinct [OF dag u(1)] pack_invD(7) [OF inv] u by (auto simp: pkg_def set_package)
  have topo: "topo_from audits {} (placed s @ pkg)"
    using O(2) package_topo [OF dag u(1), of "set (placed s)" "ps_used s"] pack_invD(7) [OF inv]
    by (simp add: topo_from_append pkg_def)
  have "wsum audits (ps_cur s @ pkg) \<le> (2 ^ 32 - 1) * (2 ^ 32 - 1)"
  proof (rule wsum_bound)
    show "distinct (ps_cur s @ pkg)" using dist by (auto simp: placed_def)
    show "length audits < 2 ^ 32" using g unfolding graph_ok_def by blast
    fix x assume "x \<in> set (ps_cur s @ pkg)"
    then show "x < length audits" using pack_invD(7) [OF inv, of x] pkg_n by (auto simp: placed_def)
  qed
  then have small: "unat reserved + wsum audits (ps_cur s @ pkg) < 2 ^ 64"
    using unat_u32_lt [of reserved] by simp
  then have pw: "unat (pkg_weight audits pkg) = wsum audits pkg"
    by (intro unat_pkg_weight) simp
  have weight: "unat (ps_weight ?s) = unat reserved + wsum audits (ps_cur ?s)"
    using small by (simp add: sel O(3) pw unat_word_ariths)
  have "block_ok audits mbw reserved (ps_cur s @ pkg)" if "bounded mb s"
  proof (cases "ps_cur s = []")
    case True
    then show ?thesis using pkg_set by (auto simp: block_ok_def one_package_def)
  next
    case False
    with that fit have "u64_sat_add (ps_weight s) (pkg_weight audits pkg) \<le> ucast mbw"
      by (simp add: pkg_def)
    then have "unat (u64_sat_add (ps_weight s) (pkg_weight audits pkg)) \<le> unat mbw"
      by (simp add: word_le_nat_alt)
    then show ?thesis
      using unat_u32_lt [of mbw] by (auto simp: unat_u64_sat_add O(3) pw block_ok_def min_le_iff_disj)
  qed
  with dist topo weight ord show ?thesis by (simp add: order_inv_def sel)
qed

lemma order_inv_iter:
  assumes dag: "dag_ok audits" and inv: "pack_inv audits mb s" and ord: "order_inv audits mb mbw reserved s"
    and ne: "ps_heap s \<noteq> []"
  shows "order_inv audits mb mbw reserved (pack_iter audits mb mbw reserved s)"
  by (rule pack_iter_cases [OF ne inv])
    (auto intro: order_inv_heap [OF ord] order_inv_defer [OF ord] order_inv_include [OF dag inv ord]
      order_inv_finalize)

subsection \<open>When nothing is lost\<close>

text \<open>
  At the end the heap is empty, so a transaction that was not placed sits in the overflow queue.
  Three situations in which the queue must be empty: no block is bounded, the whole input fits one
  block, and no transaction has a parent in the set.
\<close>

lemma all_placed_if_no_overflow:
  assumes "pack_inv audits mb s" "ps_heap s = []" "ps_overflow s = []" "u < length audits"
  shows "u \<in> set (placed s)"
  using pack_invD(6,7) [OF assms(1)] assms(2-4) by auto

lemma wsum_le_total:
  assumes "distinct us" "\<And>u. u \<in> set us \<Longrightarrow> u < n"
  shows "wsum audits us \<le> wsum audits [0..<n]"
proof -
  have "wsum audits us = (\<Sum>u \<in> set us. unat (au_weight (audits ! u)))"
    using assms(1) by (simp add: wsum_def sum_list_distinct_conv_sum_set)
  also have "\<dots> \<le> (\<Sum>u \<in> {0..<n}. unat (au_weight (audits ! u)))"
    using assms(2) by (intro sum_mono2) auto
  also have "\<dots> = wsum audits [0..<n]"
    by (simp add: wsum_def sum_list_distinct_conv_sum_set)
  finally show ?thesis .
qed

text \<open>With room for everything, every package fits: the guard of the deferral is never true.\<close>

lemma no_defer_when_all_fits:
  assumes dag: "dag_ok audits" and inv: "pack_inv audits mb s" and ord: "order_inv audits mb mbw reserved s"
    and u: "u < length audits" "\<not> ps_used s ! u"
    and room: "unat reserved + wsum audits [0..<length audits] \<le> unat mbw"
  shows "\<not> ucast mbw < u64_sat_add (ps_weight s) (pkg_weight audits (package audits (ps_used s) u))"
proof -
  define pkg where "pkg = package audits (ps_used s) u"
  have O: "distinct (placed s)" "unat (ps_weight s) = unat reserved + wsum audits (ps_cur s)"
    using ord by (simp_all add: order_inv_def)
  have "distinct (placed s @ pkg)"
    using O(1) package_distinct [OF dag u(1)] pack_invD(7) [OF inv] u by (auto simp: pkg_def set_package)
  then have d: "distinct (ps_cur s @ pkg)" by (auto simp: placed_def)
  have "x < length audits" if "x \<in> set (ps_cur s @ pkg)" for x
    using that pack_invD(7) [OF inv, of x] graph_okD(2) [OF dag_ok_graph [OF dag] u(1), of x] u
    by (auto simp: placed_def pkg_def set_package)
  from wsum_le_total [OF d this] have le: "wsum audits (ps_cur s) + wsum audits pkg \<le> wsum audits [0..<length audits]"
    by simp
  have "wsum audits pkg < 2 ^ 64" using le room unat_u32_lt [of mbw] by simp
  then have "unat (pkg_weight audits pkg) = wsum audits pkg" by (rule unat_pkg_weight)
  then show ?thesis
    using le room by (simp add: word_less_nat_alt unat_u64_sat_add O(2) pkg_def [symmetric] not_less min_le_iff_disj)
qed

definition no_deps :: "audit list \<Rightarrow> bool" where
  "no_deps audits \<longleftrightarrow> (\<forall>u < length audits. anc audits u = [] \<and> children_of audits u = [])"

definition flat_inv :: "audit list \<Rightarrow> pack_state \<Rightarrow> bool" where
  "flat_inv audits s \<longleftrightarrow>
     distinct (map hi_uid (ps_heap s) @ ps_overflow s) \<and>
     (\<forall>it \<in> set (ps_heap s). \<not> ps_used s ! hi_uid it \<and> hi_score it = score_of (hi_uid it) audits (ps_used s)) \<and>
     (\<forall>u \<in> set (ps_overflow s). \<not> ps_used s ! u)"

lemma no_deps_score: "no_deps audits \<Longrightarrow> u < length audits \<Longrightarrow> score_of u audits used' = score_of u audits used"
  by (rule score_of_cong) (simp add: no_deps_def)

lemma no_deps_package: "no_deps audits \<Longrightarrow> u < length audits \<Longrightarrow> package audits used u = [u]"
  by (simp add: no_deps_def package_def anc_def)

lemma no_deps_refresh: "no_deps audits \<Longrightarrow> u < length audits \<Longrightarrow> refresh_descendants [u] audits used h = h"
  by (simp add: no_deps_def refresh_descendants_def)

lemma distinct_uids_push_all:
  "distinct (map hi_uid (fold heap_push xs h)) \<longleftrightarrow> distinct (map hi_uid (xs @ h))"
proof -
  have "mset (fold heap_push xs h) = mset (xs @ h)" by (simp add: bh.elems_push_all)
  then have "mset (map hi_uid (fold heap_push xs h)) = mset (map hi_uid (xs @ h))"
    unfolding mset_map by simp
  then show ?thesis by (metis mset_eq_imp_distinct_iff)
qed

lemma flat_inv_init:
  assumes "graph_ok audits"
  shows "flat_inv audits (pack_init audits reserved) \<and>
    (ps_heap (pack_init audits reserved) = [] \<longrightarrow> ps_overflow (pack_init audits reserved) = [])"
proof -
  have "length audits < 2 ^ 32" using assms unfolding graph_ok_def by blast
  then have n: "length audits mod 4294967296 = length audits" by simp
  show ?thesis
    by (simp add: flat_inv_def pack_init_def Let_def n distinct_uids_push_all comp_def del: fold_map)
qed

lemma flat_inv_place:
  assumes nd: "no_deps audits" and inv: "pack_inv audits mb (s\<lparr>ps_heap := it # h\<rparr>)"
    and flat: "flat_inv audits (s\<lparr>ps_heap := it # h\<rparr>)"
  shows "flat_inv audits (place_package audits mb mbw (hi_uid it) (s\<lparr>ps_heap := h\<rparr>))"
proof -
  have u: "hi_uid it < length audits" using pack_invD(3) [OF inv] by simp
  have D: "distinct (map hi_uid (it # h) @ ps_overflow s)"
    and H: "\<And>i. i \<in> set h \<Longrightarrow> \<not> ps_used s ! hi_uid i"
    and S: "\<And>i. i \<in> set h \<Longrightarrow> hi_score i = score_of (hi_uid i) audits (ps_used s)"
    and V: "\<And>v. v \<in> set (ps_overflow s) \<Longrightarrow> \<not> ps_used s ! v"
    and I: "\<not> ps_used s ! hi_uid it"
    using flat unfolding flat_inv_def by simp_all
  have heap_n: "hi_uid i < length audits" if "i \<in> set h" for i using pack_invD(3) [OF inv] that by simp
  have ov_n: "v < length audits" if "v \<in> set (ps_overflow s)" for v using pack_invD(5) [OF inv] that by simp
  have "flat_inv audits (include_package audits [hi_uid it] (s\<lparr>ps_heap := h\<rparr>))"
  proof -
    let ?s = "include_package audits [hi_uid it] (s\<lparr>ps_heap := h\<rparr>)"
    have sel: "ps_heap ?s = h" "ps_overflow ?s = ps_overflow s" "ps_used ?s = (ps_used s)[hi_uid it := True]"
      by (simp_all add: include_package_def Let_def no_deps_refresh [OF nd u] include_one_def)
    have "\<not> (ps_used s)[hi_uid it := True] ! hi_uid i \<and>
        hi_score i = score_of (hi_uid i) audits ((ps_used s)[hi_uid it := True])" if "i \<in> set h" for i
    proof -
      have "hi_uid i \<in> hi_uid ` set h" "hi_uid it \<notin> hi_uid ` set h" using D that by auto
      then have "hi_uid i \<noteq> hi_uid it" by auto
      moreover have "score_of (hi_uid i) audits ((ps_used s)[hi_uid it := True]) = score_of (hi_uid i) audits (ps_used s)"
        by (rule no_deps_score [OF nd heap_n [OF that]])
      ultimately show ?thesis using H [OF that] S [OF that] by simp
    qed
    moreover have "\<not> (ps_used s)[hi_uid it := True] ! v" if "v \<in> set (ps_overflow s)" for v
    proof -
      have "v \<noteq> hi_uid it" using D that by auto
      then show ?thesis using V [OF that] by simp
    qed
    moreover have "distinct (map hi_uid h @ ps_overflow s)" using D by simp
    ultimately show ?thesis unfolding flat_inv_def sel by blast
  qed
  moreover have "flat_inv audits (defer_package (hi_uid it) (s\<lparr>ps_heap := h\<rparr>))"
  proof -
    have "distinct (map hi_uid h @ ps_overflow s @ [hi_uid it])" using D by auto
    moreover have "\<not> ps_used s ! v" if "v \<in> set (ps_overflow s @ [hi_uid it])" for v
      using that V [of v] I by auto
    ultimately show ?thesis using H S by (simp add: flat_inv_def defer_package_def)
  qed
  ultimately show ?thesis by (simp add: place_package_def Let_def no_deps_package [OF nd u])
qed

lemma flat_inv_finalize:
  assumes inv: "pack_inv audits mb s" and flat: "flat_inv audits s"
  shows "flat_inv audits (finalize_block audits mb reserved s) \<and>
    (ps_heap (finalize_block audits mb reserved s) = [] \<longrightarrow> ps_overflow (finalize_block audits mb reserved s) = [])"
proof (cases "bounded mb s \<and> (FAILURE_LIMIT < ps_failures s \<or> ps_heap s = []) \<and> ps_cur s \<noteq> []")
  case True
  then show ?thesis
    using flat by (auto simp: finalize_block_def flat_inv_def distinct_uids_push_all comp_def simp del: fold_map)
next
  case False
  then show ?thesis using flat pack_invD(11) [OF inv] by (auto simp: finalize_block_def)
qed

lemma flat_inv_iter:
  assumes nd: "no_deps audits" and g: "graph_ok audits" and inv: "pack_inv audits mb s"
    and flat: "flat_inv audits s" and ne: "ps_heap s \<noteq> []"
  shows "flat_inv audits (pack_iter audits mb mbw reserved s) \<and>
    (ps_heap (pack_iter audits mb mbw reserved s) = [] \<longrightarrow> ps_overflow (pack_iter audits mb mbw reserved s) = [])"
proof -
  obtain it h where h: "ps_heap s = it # h" using ne by (cases "ps_heap s") auto
  have s: "s\<lparr>ps_heap := it # h\<rparr> = s" by (simp flip: h)
  have un: "\<not> ps_used s ! hi_uid it" "\<not> is_stale (score_of (hi_uid it) audits (ps_used s)) it"
    using flat h f64_1e_9_nonneg by (auto simp: flat_inv_def is_stale_def)
  let ?s = "place_package audits mb mbw (hi_uid it) (s\<lparr>ps_heap := h\<rparr>)"
  have "pack_inv audits mb ?s" using place_package_inv [OF g, where s = s and it = it and h = h and mb = mb] inv un(1) by (simp add: s)
  moreover have "flat_inv audits ?s" using flat_inv_place [OF nd, where s = s and it = it and h = h and mb = mb] inv flat by (simp add: s)
  ultimately show ?thesis using flat_inv_finalize [of audits mb ?s reserved] un h by (simp add: pack_iter_def Let_def)
qed

end
