(* ===== verification/Gbt_Correct.thy ===== *)
theory Gbt_Correct
  imports Gbt_Order
begin

text \<open>
  What \<open>project_with\<close> of \<open>gbt.rs\<close> computes, as theorems about its input and its result: it returns for
  every well-formed input, it panics on a parent outside the set, and on acyclic inputs the projected
  blocks are duplicate free, topologically ordered and within the weight limit.  \<open>pack_reach\<close> are the
  states the packing loop goes through; the properties of the result are invariants of them.
\<close>

subsection \<open>The states of the packing loop\<close>

inductive pack_reach :: "audit list \<Rightarrow> usize \<Rightarrow> u32 \<Rightarrow> u32 \<Rightarrow> pack_state \<Rightarrow> bool"
  for audits mb mbw reserved where
  pack_reach_init: "pack_reach audits mb mbw reserved (pack_init audits reserved)"
| pack_reach_step: "pack_reach audits mb mbw reserved s \<Longrightarrow> ps_heap s \<noteq> [] \<Longrightarrow>
    pack_reach audits mb mbw reserved (pack_iter audits mb mbw reserved s)"

lemma pack_reach_iter:
  assumes "pack_reach audits mb mbw reserved s"
  shows "pack_reach audits mb mbw reserved (pack_iter audits mb mbw reserved s)"
proof (cases "ps_heap s = []")
  case True
  then have "pack_iter audits mb mbw reserved s = s" by (simp add: pack_iter_def)
  with assms show ?thesis by simp
qed (rule pack_reach_step [OF assms])

lemma pack_reach_inv:
  assumes "graph_ok audits" "pack_reach audits mb mbw reserved s"
  shows "pack_inv audits mb s"
  using assms(2)
  by (induction rule: pack_reach.induct) (simp_all add: assms(1) pack_init_inv pack_iter_inv)

lemma pack_reach_order_inv:
  assumes dag: "dag_ok audits" and "pack_reach audits mb mbw reserved s"
  shows "order_inv audits mb mbw reserved s"
  using assms(2)
proof (induction rule: pack_reach.induct)
  case (pack_reach_step s)
  then show ?case
    using order_inv_iter [OF dag pack_reach_inv [OF dag_ok_graph [OF dag]]] by blast
qed (rule order_inv_init)

lemma pack_loop_reach:
  assumes g: "graph_ok audits"
  shows "\<exists>t. pack_loop audits mb mbw reserved (pack_init audits reserved) = Some t \<and>
    pack_reach audits mb mbw reserved t \<and> ps_heap t = []"
  using pack_loop_rule [OF g pack_init_inv [OF g], where mb = mb and mbw = mbw and reserved = reserved
      and J = "pack_reach audits mb mbw reserved"] pack_reach_init pack_reach_step by blast

subsection \<open>From the loop to the result\<close>

lemma concat_pack_finish: "concat (pj_blocks (pack_finish s)) = placed s"
  by (simp add: pack_finish_def placed_def)

lemma rates_pack_finish [simp]: "pj_rates (pack_finish s) = ps_rates s"
  by (simp add: pack_finish_def)

lemma project_empty: "project_with [] mb mbw reserved = Some (Inr \<lparr>pj_blocks = [], pj_rates = Map.empty\<rparr>)"
  by (simp add: project_with_def)

lemma project_run:
  assumes wf: "wf_txs txs" and ne: "txs \<noteq> []"
  shows "\<exists>audits t. audits_ok txs audits \<and> pack_reach audits mb mbw reserved t \<and> ps_heap t = [] \<and>
    project_with txs mb mbw reserved = Some (Inr (pack_finish t))"
proof -
  obtain audits where a: "build_audits txs = Some (Inr audits)" "audits_ok txs audits"
    using build_audits_ok [OF wf] by blast
  obtain t where t: "pack_loop audits mb mbw reserved (pack_init audits reserved) = Some t"
      "pack_reach audits mb mbw reserved t" "ps_heap t = []"
    using pack_loop_reach [OF audits_ok_graph [OF wf a(2)]] by blast
  moreover have "project_with txs mb mbw reserved = Some (Inr (pack_finish t))"
    using ne a(1) t(1) by (simp add: project_with_def)
  ultimately show ?thesis using a(2) by blast
qed

lemma project_run_from:
  assumes wf: "wf_txs txs" and ne: "txs \<noteq> []" and build: "build_audits txs = Some (Inr audits)"
  obtains t where "audits_ok txs audits" "pack_reach audits mb mbw reserved t"
    "project_with txs mb mbw reserved = Some (Inr (pack_finish t))"
proof -
  have ok: "audits_ok txs audits" using build_audits_ok [OF wf] build by auto
  from pack_loop_reach [OF audits_ok_graph [OF wf ok], of mb mbw reserved] show thesis
    using that ok ne build by (auto simp: project_with_def)
qed

text \<open>The rule the properties use: either the input is empty, or the result is a final state.\<close>

lemma project_result:
  assumes "project_with txs mb mbw reserved = Some (Inr p)" "wf_txs txs"
  obtains "txs = []" "p = \<lparr>pj_blocks = [], pj_rates = Map.empty\<rparr>"
  | audits t where "audits_ok txs audits" "graph_ok audits" "pack_reach audits mb mbw reserved t"
      "pack_inv audits mb t" "ps_heap t = []" "p = pack_finish t"
proof (cases "txs = []")
  case True
  then show thesis using assms(1) that(1) by (simp add: project_empty)
next
  case False
  from project_run [OF assms(2) False, of mb mbw reserved] assms(1) show thesis
    using that(2) audits_ok_graph [OF assms(2)] pack_reach_inv by (metis option.inject sum.inject(2))
qed

lemma audits_okD:
  assumes "audits_ok txs audits"
  shows "length audits = length txs"
    and "u < length txs \<Longrightarrow> au_weight (audits ! u) = gt_weight (txs ! u)"
    and "u < length txs \<Longrightarrow> au_fee (audits ! u) = gt_fee (txs ! u)"
    and "u < length txs \<Longrightarrow> acyclic (parent_rel txs) \<Longrightarrow> set (anc audits u) = (parent_rel txs)\<^sup>+ `` {u}"
    and "u < length txs \<Longrightarrow> set (anc audits u) \<subseteq> (parent_rel txs)\<^sup>+ `` {u}"
    and "u < length txs \<Longrightarrow> set (au_children (audits ! u)) = {c. (c, u) \<in> parent_rel txs}"
  using assms unfolding audits_ok_def anc_result_def anc_def by blast+

definition weight_sum :: "gbt_tx list \<Rightarrow> nat list \<Rightarrow> nat" where
  "weight_sum txs us = sum_list (map (\<lambda>u. unat (gt_weight (txs ! u))) us)"

lemma wsum_weight_sum:
  assumes "audits_ok txs audits" "\<forall>u \<in> set us. u < length txs"
  shows "wsum audits us = weight_sum txs us"
  unfolding wsum_def weight_sum_def
  by (intro arg_cong [where f = sum_list] map_cong refl) (simp add: assms audits_okD(2) [OF assms(1)])

lemma placed_bound:
  assumes "audits_ok txs audits" "pack_inv audits mb t" "u \<in> set (placed t)"
  shows "u < length txs"
  using assms(3) pack_invD(7) [OF assms(2)] audits_okD(1) [OF assms(1)] by simp

subsection \<open>No transaction is held back at the end\<close>

lemma fits_no_overflow:
  assumes dag: "dag_ok audits" and "pack_reach audits mb mbw reserved s"
    and room: "unat reserved + wsum audits [0..<length audits] \<le> unat mbw"
  shows "ps_overflow s = []"
  using assms(2)
proof (induction rule: pack_reach.induct)
  case pack_reach_init
  then show ?case by (simp add: pack_init_def Let_def)
next
  case (pack_reach_step s)
  note inv = pack_reach_inv [OF dag_ok_graph [OF dag] pack_reach_step.hyps(1)]
  note ord = pack_reach_order_inv [OF dag pack_reach_step.hyps(1)]
  show ?case
  proof (rule pack_iter_cases [OF pack_reach_step.hyps(2) inv])
    fix u h
    assume "u < length audits" "\<not> ps_used s ! u"
      "ucast mbw < u64_sat_add (ps_weight s) (pkg_weight audits (package audits (ps_used s) u))"
    then show "ps_overflow (defer_package u (s\<lparr>ps_heap := h\<rparr>)) = []"
      using no_defer_when_all_fits [OF dag inv ord _ _ room] by blast
  qed (use pack_reach_step.IH in \<open>simp_all add: include_package_def Let_def frame_simps finalize_block_def\<close>)
qed

lemma flat_reach:
  assumes nd: "no_deps audits" and g: "graph_ok audits" and "pack_reach audits mb mbw reserved s"
  shows "flat_inv audits s \<and> (ps_heap s = [] \<longrightarrow> ps_overflow s = [])"
  using assms(3)
proof (induction rule: pack_reach.induct)
  case (pack_reach_step s)
  then show ?case using flat_inv_iter [OF nd g pack_reach_inv [OF g]] by blast
qed (rule flat_inv_init [OF g])

lemma flat_no_overflow:
  assumes "no_deps audits" "graph_ok audits" "pack_reach audits mb mbw reserved s" "ps_heap s = []"
  shows "ps_overflow s = []"
  using flat_reach [OF assms(1-3)] assms(4) by simp

lemma no_parents_no_deps:
  assumes wf: "wf_txs txs" and ok: "audits_ok txs audits" and np: "\<forall>tx \<in> set txs. gt_parents tx = []"
  shows "no_deps audits"
proof -
  have "parent_rel txs = {}" using np by (auto simp: parent_rel_def)
  then show ?thesis
    using audits_okD(5,6) [OF ok] audits_okD(1) [OF ok] by (simp add: no_deps_def children_of_def)
qed

subsection \<open>Scores and package rates\<close>

lemma fold_score_acc:
  "fold (score_acc audits used) as (f, w) =
     (f + pkg_fee audits (filter (\<lambda>a. \<not> used ! a) as), w + pkg_weight audits (filter (\<lambda>a. \<not> used ! a) as))"
  by (induction as arbitrary: f w) (simp_all add: score_acc_def pkg_fee_def pkg_weight_def add_ac)

lemma pkg_sums_mset:
  assumes "mset us = mset vs"
  shows "pkg_fee audits us = pkg_fee audits vs" "pkg_weight audits us = pkg_weight audits vs"
  unfolding pkg_fee_def pkg_weight_def
  using assms by (metis mset_map sum_mset_sum_list)+

lemma mset_package:
  "mset (package audits used u) = add_mset u (mset (filter (\<lambda>a. \<not> used ! a) (anc audits u)))"
  by (simp add: package_def anc_def)

lemma audits_ok_sums:
  assumes "audits_ok txs audits" "\<forall>u \<in> set us. u < length txs"
  shows "pkg_fee audits us = (\<Sum>u \<leftarrow> us. gt_fee (txs ! u))"
    and "pkg_weight audits us = (\<Sum>u \<leftarrow> us. ucast (gt_weight (txs ! u)))"
  using assms(2) unfolding pkg_fee_def pkg_weight_def weight64_def
  by (auto intro!: arg_cong [where f = sum_list] map_cong simp: audits_okD(2,3) [OF assms(1)])

lemma finalize_keeps [simp]:
  "ps_used (finalize_block audits mb reserved s) = ps_used s" "ps_rates (finalize_block audits mb reserved s) = ps_rates s"
  by (simp_all add: finalize_block_def)

text \<open>
  \<open>placing s u pkg\<close>: the turn of the loop in the state \<open>s\<close> takes \<open>u\<close> from the heap and places it, with the package
  \<open>pkg\<close>.
\<close>

definition placing :: "audit list \<Rightarrow> usize \<Rightarrow> u32 \<Rightarrow> u32 \<Rightarrow> pack_state \<Rightarrow> nat \<Rightarrow> nat list \<Rightarrow> bool" where
  "placing audits mb mbw reserved s u pkg \<longleftrightarrow> (\<exists>it h. pack_reach audits mb mbw reserved s \<and> ps_heap s = it # h \<and> hi_uid it = u \<and>
     \<not> ps_used s ! u \<and> ps_used (pack_iter audits mb mbw reserved s) ! u \<and> pkg = package audits (ps_used s) u)"

lemma placing_package:
  assumes "graph_ok audits" "placing audits mb mbw reserved s u pkg"
  shows "u < length audits" "set pkg = insert u {a \<in> set (anc audits u). a \<notin> set (placed s)}" "set pkg \<inter> set (placed s) = {}"
proof -
  obtain it h where s: "pack_reach audits mb mbw reserved s" "ps_heap s = it # h" "hi_uid it = u" "\<not> ps_used s ! u"
      "pkg = package audits (ps_used s) u" using assms(2) unfolding placing_def by blast
  note inv = pack_reach_inv [OF assms(1) s(1)]
  show u: "u < length audits" using pack_invD(3) [OF inv, of it] s(2,3) by simp
  have used: "a \<in> set (placed s) \<longleftrightarrow> ps_used s ! a" if "a < length audits" for a using pack_invD(7) [OF inv, of a] that by simp
  then show "set pkg = insert u {a \<in> set (anc audits u). a \<notin> set (placed s)}"
    using graph_okD(2) [OF assms(1) u] by (auto simp: s(5) set_package)
  then show "set pkg \<inter> set (placed s) = {}" using s(4) used [OF u] by auto
qed

text \<open>Every rate was given by the turn that placed the transaction, and is the rate of the package placed in that turn.\<close>

lemma reach_rated:
  assumes g: "graph_ok audits" and "pack_reach audits mb mbw reserved s" "ps_rates s m = Some r"
  shows "\<exists>s' u pkg. placing audits mb mbw reserved s' u pkg \<and> m \<in> set pkg \<and> r = rate (pkg_fee audits pkg) (pkg_weight audits pkg)"
  using assms(2,3)
proof (induction arbitrary: m r rule: pack_reach.induct)
  case pack_reach_init
  then show ?case by (simp add: pack_init_def Let_def)
next
  case (pack_reach_step s)
  obtain it h where h: "ps_heap s = it # h" using pack_reach_step.hyps(2) by (cases "ps_heap s") auto
  note inv = pack_reach_inv [OF g pack_reach_step.hyps(1)]
  let ?u = "hi_uid it" and ?t = "pack_iter audits mb mbw reserved s"
  let ?pkg = "package audits (ps_used s) ?u"
  have "?u < length (ps_used s)" using pack_invD(1,3) [OF inv] h by simp
  then have "ps_rates ?t m = ps_rates s m \<or>
      \<not> ps_used s ! ?u \<and> ps_used ?t ! ?u \<and> m \<in> set ?pkg \<and> ps_rates ?t m = Some (rate (pkg_fee audits ?pkg) (pkg_weight audits ?pkg))"
    by (auto simp: pack_iter_def h Let_def place_package_def defer_package_def include_package_def fold_include_rates
        fold_include_used set_package)
  then show ?case
  proof (elim disjE conjE)
    assume "ps_rates ?t m = ps_rates s m"
    then show ?thesis using pack_reach_step.IH pack_reach_step.prems by simp
  next
    assume "\<not> ps_used s ! ?u" "ps_used ?t ! ?u" "m \<in> set ?pkg" "ps_rates ?t m = Some (rate (pkg_fee audits ?pkg) (pkg_weight audits ?pkg))"
    then show ?thesis
      using pack_reach_step.hyps(1) pack_reach_step.prems h by (intro exI [of _ s] exI [of _ ?u] exI [of _ ?pkg]) (simp add: placing_def)
  qed
qed

subsection \<open>An overflow queue that is never requeued\<close>

text \<open>The loop goes on from every state it reaches as from the start.\<close>

lemma reach_loop:
  assumes "pack_reach audits mb mbw reserved s"
  shows "pack_loop audits mb mbw reserved (pack_init audits reserved) = pack_loop audits mb mbw reserved s"
  using assms
proof (induction rule: pack_reach.induct)
  case (pack_reach_step s)
  then show ?case by (simp add: pack_loop_def while_option_unfold [of _ _ s])
qed simp

lemma stale_duplicate_ends:
  assumes "pack_reach audits mb mbw reserved s" "ps_heap s = [it]" "ps_used s ! hi_uid it"
  shows "pack_loop audits mb mbw reserved (pack_init audits reserved) = Some (s\<lparr>ps_heap := []\<rparr>)"
proof -
  have "pack_iter audits mb mbw reserved s = s\<lparr>ps_heap := []\<rparr>" using assms(2,3) by (simp add: pack_iter_def Let_def)
  then show ?thesis
    using assms(2) unfolding reach_loop [OF assms(1)] by (simp add: pack_loop_def while_option_unfold [of _ _ s] while_option_unfold [of _ _ "s\<lparr>ps_heap := []\<rparr>"])
qed

subsection \<open>The order in which a hash set is read does not matter\<close>

definition same_audit :: "audit \<Rightarrow> audit \<Rightarrow> bool" where
  "same_audit a b \<longleftrightarrow> au_order a = au_order b \<and> au_fee a = au_fee b \<and> au_weight a = au_weight b \<and>
     au_children a = au_children b \<and> mset (au_ancestors a) = mset (au_ancestors b)"

definition same_audits :: "audit list \<Rightarrow> audit list \<Rightarrow> bool" where
  "same_audits as bs \<longleftrightarrow> list_all2 same_audit as bs"

lemma same_auditsD:
  assumes "same_audits as bs" "u < length as"
  shows "au_order (as ! u) = au_order (bs ! u)" "au_fee (as ! u) = au_fee (bs ! u)"
    "au_weight (as ! u) = au_weight (bs ! u)" "au_children (as ! u) = au_children (bs ! u)"
    "mset (anc as u) = mset (anc bs u)"
  using list_all2_nthD [OF assms(1) [unfolded same_audits_def] assms(2)]
  by (simp_all add: same_audit_def anc_def)

lemma same_audits_length: "same_audits as bs \<Longrightarrow> length as = length bs"
  unfolding same_audits_def by (rule list_all2_lengthD)

lemma same_pkg_sums:
  assumes "same_audits as bs" "\<forall>u \<in> set us. u < length as"
  shows "pkg_fee as us = pkg_fee bs us" "pkg_weight as us = pkg_weight bs us"
  using assms(2) unfolding pkg_fee_def pkg_weight_def weight64_def
  by (auto intro!: arg_cong [where f = sum_list] map_cong simp: same_auditsD [OF assms(1)])

lemma same_children: "same_audits as bs \<Longrightarrow> children_of as = children_of bs"
  by (auto simp: children_of_def same_auditsD(4) same_audits_length)

lemma same_audits_graph_ok:
  assumes "same_audits as bs" "graph_ok as" "u < length as"
  shows "set (anc as u) \<subseteq> {..<length as}" "distinct (anc as u)" "distinct (anc bs u)"
  using graph_okD(1,2) [OF assms(2,3)] mset_eq_imp_distinct_iff [OF same_auditsD(5) [OF assms(1,3)]] by auto

lemma same_package:
  assumes s: "same_audits as bs" and g: "graph_ok as" and u: "u < length as"
  shows "package as used u = package bs used u"
proof -
  let ?key = "\<lambda>as a. (length (au_ancestors (as ! a)), au_order (as ! a), a)"
  let ?f = "\<lambda>as. filter (\<lambda>a. \<not> used ! a) (anc as u)"
  have keys: "?key as a = ?key bs a" if "a \<in> set (anc as u)" for a
    using graph_okD(2) [OF g u that] same_auditsD(1) [OF s] arg_cong [OF same_auditsD(5) [OF s], of a size]
    by (simp add: anc_def)
  have m: "mset (?f as) = mset (?f bs)"
    using same_auditsD(5) [OF s u] by simp
  have map: "map (?key as) (sort_key (?key bs) (?f bs)) = map (?key bs) (sort_key (?key bs) (?f bs))"
  proof (rule map_cong [OF refl])
    fix a assume "a \<in> set (sort_key (?key bs) (?f bs))"
    then have "a \<in> set (?f as)" using mset_eq_setD [OF m] by simp
    then show "?key as a = ?key bs a" using keys [of a] by simp
  qed
  have "sort_key (?key as) (?f as) = sort_key (?key bs) (?f bs)"
  proof (rule sort_key_inj_key_eq)
    show "mset (?f as) = mset (sort_key (?key bs) (?f bs))" using m by simp
    show "inj_on (?key as) (set (?f as))" by (auto intro: inj_onI)
    show "sorted (map (?key as) (sort_key (?key bs) (?f bs)))" unfolding map by (rule sorted_sort_key)
  qed
  then show ?thesis by (simp add: package_def anc_def)
qed

lemma same_score:
  assumes s: "same_audits as bs" and g: "graph_ok as" and u: "u < length as"
  shows "score_of u as used = score_of u bs used"
proof -
  let ?f = "\<lambda>as. filter (\<lambda>a. \<not> used ! a) (anc as u)"
  have m: "mset (?f as) = mset (?f bs)" using same_auditsD(5) [OF s u] by simp
  have n: "\<forall>a \<in> set (?f as). a < length as" using graph_okD(2) [OF g u] by simp
  have "pkg_fee as (?f as) = pkg_fee bs (?f bs)" "pkg_weight as (?f as) = pkg_weight bs (?f bs)"
    using same_pkg_sums [OF s n] pkg_sums_mset [OF m] by simp_all
  then show ?thesis
    using same_auditsD(2,3) [OF s u] by (simp add: score_of_def Let_def fold_score_acc anc_def weight64_def)
qed

lemma same_entry:
  assumes "same_audits as bs" "graph_ok as" "u < length as"
  shows "entry as used u = entry bs used u"
  using same_score [OF assms] same_auditsD(1) [OF assms(1,3)] by (simp add: entry_def)

lemma same_refresh_loop:
  assumes s: "same_audits as bs" and g: "graph_ok as" and "\<forall>d \<in> set (snd ss). d < length as"
  shows "refresh_loop as used ss heap = refresh_loop bs used ss heap"
  using assms
proof (induction as used ss heap rule: refresh_loop.induct)
  case (2 audits used seen d stack heap)
  have d: "d < length audits" using "2.prems"(3) by simp
  have "\<forall>x \<in> set (snd (push_unseen (children_of audits d) (seen, stack))). x < length audits"
    using push_unseen_sets [of "children_of audits d" seen stack] "2.prems"(3) graph_okD(4) [OF "2.prems"(2) d] by auto
  with "2.IH" "2.prems"(1,2) have "refresh_loop audits used (push_unseen (children_of audits d) (seen, stack)) heap' =
      refresh_loop bs used (push_unseen (children_of audits d) (seen, stack)) heap'"
    if "heap' = (if used ! d then heap else heap_push (entry audits used d) heap)" for heap'
    using that by blast
  then show ?case
    using same_children [OF "2.prems"(1)] same_entry [OF "2.prems"(1,2) d] by simp
qed simp

lemma same_refresh:
  assumes s: "same_audits as bs" and g: "graph_ok as" and "\<forall>m \<in> set pkg. m < length as"
  shows "refresh_descendants pkg as used heap = refresh_descendants pkg bs used heap"
proof -
  let ?ss = "push_unseen (concat (map (children_of as) pkg)) ([], [])"
  have "set (snd ?ss) \<subseteq> (\<Union>m \<in> set pkg. set (children_of as m))"
    using push_unseen_sets [of "concat (map (children_of as) pkg)" "[]" "[]"] by auto
  then have "\<forall>d \<in> set (snd ?ss). d < length as" using assms(3) graph_okD(4) [OF g] by blast
  from same_refresh_loop [OF s g this] show ?thesis
    by (simp add: refresh_descendants_def same_children [OF s])
qed

lemma same_include:
  assumes s: "same_audits as bs" and g: "graph_ok as" and n: "\<forall>m \<in> set pkg. m < length as"
  shows "include_package as pkg st = include_package bs pkg st"
proof -
  have "fold (include_one as r) pkg st = fold (include_one bs r) pkg st" for r
    using n by (intro fold_cong refl) (simp add: fun_eq_iff include_one_def weight64_def same_auditsD(3) [OF s])
  then show ?thesis
    using same_pkg_sums [OF s n] same_refresh [OF s g n] by (simp add: include_package_def)
qed

lemma same_place:
  assumes s: "same_audits as bs" and g: "graph_ok as" and u: "u < length as"
  shows "place_package as mb mbw u st = place_package bs mb mbw u st"
proof -
  have n: "\<forall>m \<in> set (package as (ps_used st) u). m < length as"
    using u graph_okD(2) [OF g u] by (auto simp: set_package)
  show ?thesis
    using same_package [OF s g u] same_include [OF s g n] same_pkg_sums [OF s n]
    by (simp add: place_package_def Let_def)
qed

lemma same_finalize:
  assumes s: "same_audits as bs" and g: "graph_ok as" and n: "\<forall>u \<in> set (ps_overflow st). u < length as"
  shows "finalize_block as mb reserved st = finalize_block bs mb reserved st"
proof -
  have "map (entry as (ps_used st)) (ps_overflow st) = map (entry bs (ps_used st)) (ps_overflow st)"
    using n same_entry [OF s g] by simp
  then show ?thesis by (simp only: finalize_block_def)
qed

lemma same_iter:
  assumes s: "same_audits as bs" and g: "graph_ok as" and inv: "pack_inv as mb st"
  shows "pack_iter as mb mbw reserved st = pack_iter bs mb mbw reserved st"
proof (cases "ps_heap st")
  case (Cons it h)
  have st: "st\<lparr>ps_heap := it # h\<rparr> = st" by (simp flip: Cons)
  have u: "hi_uid it < length as" using pack_invD(3) [OF inv] Cons by simp
  have fin: "finalize_block as mb reserved (place_package bs mb mbw (hi_uid it) (st\<lparr>ps_heap := h\<rparr>)) =
      finalize_block bs mb reserved (place_package bs mb mbw (hi_uid it) (st\<lparr>ps_heap := h\<rparr>))"
    if "\<not> ps_used st ! hi_uid it"
  proof (rule same_finalize [OF s g], rule ballI)
    fix v assume "v \<in> set (ps_overflow (place_package bs mb mbw (hi_uid it) (st\<lparr>ps_heap := h\<rparr>)))"
    then show "v < length as"
      using pack_invD(5) [OF place_package_inv [OF g, where s = st and it = it and h = h and mb = mb and mbw = mbw], of v]
        inv that same_place [OF s g u] by (simp add: st)
  qed
  show ?thesis
    using fin same_score [OF s g u] same_place [OF s g u] same_auditsD(1) [OF s u]
    by (simp add: pack_iter_def Cons Let_def)
qed (simp add: pack_iter_def)

lemma same_pack_init:
  assumes "same_audits as bs" "graph_ok as"
  shows "pack_init as reserved = pack_init bs reserved"
proof -
  have "length as < 2 ^ 32" using assms(2) unfolding graph_ok_def by blast
  then have "map (entry as (replicate (length as) False)) [0..<length as mod 2 ^ 32] =
      map (entry bs (replicate (length as) False)) [0..<length as mod 2 ^ 32]"
    using same_entry [OF assms] by simp
  then show ?thesis
    unfolding pack_init_def same_audits_length [OF assms(1), symmetric] Let_def by (simp only:)
qed

lemma same_iterates:
  assumes s: "same_audits as bs" and g: "graph_ok as" and inv: "pack_inv as mb st"
  shows "(pack_iter as mb mbw reserved ^^ k) st = (pack_iter bs mb mbw reserved ^^ k) st \<and>
    pack_inv as mb ((pack_iter as mb mbw reserved ^^ k) st)"
proof (induction k)
  case (Suc k)
  let ?t = "(pack_iter as mb mbw reserved ^^ k) st"
  have "pack_iter as mb mbw reserved ?t = pack_iter bs mb mbw reserved ?t"
    using Suc.IH by (blast intro: same_iter [OF s g])
  moreover have "pack_inv as mb (pack_iter as mb mbw reserved ?t)"
    using Suc.IH by (blast intro: pack_iter_inv [OF g])
  ultimately show ?case using Suc.IH by simp
qed (simp add: inv)

lemma same_pack_loop:
  assumes s: "same_audits as bs" and g: "graph_ok as"
  shows "pack_loop as mb mbw reserved (pack_init as reserved) = pack_loop bs mb mbw reserved (pack_init bs reserved)"
proof -
  have "(pack_iter as mb mbw reserved ^^ k) (pack_init as reserved) =
      (pack_iter bs mb mbw reserved ^^ k) (pack_init bs reserved)" for k
    using same_iterates [OF s g pack_init_inv [OF g]] same_pack_init [OF s g] by simp
  then show ?thesis by (simp add: pack_loop_def while_option_def)
qed

subsection \<open>Without dependencies every transaction keeps its own rate\<close>

lemma flat_rates:
  assumes nd: "no_deps audits" and g: "graph_ok audits" and "pack_reach audits mb mbw reserved s"
  shows "ps_rates s x = None \<or> ps_rates s x = Some (rate (au_fee (audits ! x)) (weight64 audits x))"
  using assms(3)
proof (induction rule: pack_reach.induct)
  case pack_reach_init
  then show ?case by (simp add: pack_init_def Let_def)
next
  case (pack_reach_step s)
  note inv = pack_reach_inv [OF g pack_reach_step.hyps(1)]
  show ?case
  proof (rule pack_iter_cases [OF pack_reach_step.hyps(2) inv])
    fix u h
    assume "u < length audits"
    then show "ps_rates (include_package audits (package audits (ps_used s) u) (s\<lparr>ps_heap := h\<rparr>)) x = None \<or>
        ps_rates (include_package audits (package audits (ps_used s) u) (s\<lparr>ps_heap := h\<rparr>)) x =
          Some (rate (au_fee (audits ! x)) (weight64 audits x))"
      using pack_reach_step.IH
      by (simp add: no_deps_package [OF nd] include_package_def Let_def include_one_def pkg_fee_def pkg_weight_def)
  qed (use pack_reach_step.IH in \<open>auto simp: defer_package_def finalize_block_def\<close>)
qed

lemma project_flat:
  assumes wf: "wf_txs txs" and np: "\<forall>tx \<in> set txs. gt_parents tx = []"
  shows "\<exists>p. project_with txs mb mbw reserved = Some (Inr p) \<and>
    (\<forall>u < length txs. pj_rates p u = Some (rate (gt_fee (txs ! u)) (ucast (gt_weight (txs ! u)))))"
proof (cases "txs = []")
  case False
  obtain audits t where t: "audits_ok txs audits" "pack_reach audits mb mbw reserved t" "ps_heap t = []"
      "project_with txs mb mbw reserved = Some (Inr (pack_finish t))"
    using project_run [OF wf False] by blast
  note g = audits_ok_graph [OF wf t(1)]
  note nd = no_parents_no_deps [OF wf t(1) np]
  note inv = pack_reach_inv [OF g t(2)]
  have "ps_rates t u = Some (rate (gt_fee (txs ! u)) (ucast (gt_weight (txs ! u))))" if u: "u < length txs" for u
  proof -
    have "u \<in> set (placed t)"
      using all_placed_if_no_overflow [OF inv t(3) flat_no_overflow [OF nd g t(2,3)]] u audits_okD(1) [OF t(1)] by simp
    then have "ps_rates t u \<noteq> None" using pack_invD(8) [OF inv] by blast
    then show ?thesis
      using flat_rates [OF nd g t(2), of u] audits_okD(2,3) [OF t(1) u] by (auto simp: weight64_def)
  qed
  then show ?thesis using t(4) by simp
qed (simp add: project_empty)

end
