(* ===== verification/Gbt_Props.thy ===== *)
theory Gbt_Props
  imports Gbt_Correct
begin

text \<open>
  The correctness theorems of the block projection (\<open>gbt.rs\<close>), over its inputs and results, each with
  a concrete instance.  All of them state that \<open>project_with\<close> returns, and what it returns.
\<close>

definition two_txs :: "gbt_tx list" where
  "two_txs = [\<lparr>gt_uid = 0, gt_order = 7, gt_fee = 250, gt_weight = 1000, gt_parents = []\<rparr>,
              \<lparr>gt_uid = 1, gt_order = 5, gt_fee = 2000, gt_weight = 1000, gt_parents = [0]\<rparr>]"

lemma two_txs_wf: "wf_txs two_txs"
  by (auto simp: wf_txs_def two_txs_def nth_Cons' less_Suc_eq)

lemma two_txs_parents: "parent_rel two_txs = {(1, 0)}"
  by (auto simp: parent_rel_def two_txs_def nth_Cons' less_Suc_eq split: if_splits)

lemma two_txs_acyclic: "acyclic (parent_rel two_txs)"
  by (simp add: two_txs_parents acyclic_insert) (simp add: acyclic_def)

subsection \<open>Termination and panics\<close>

text \<open>C2. \<open>project_with\<close> returns a projection for every set of transactions whose uids are dense and
  whose parents are in the set, whatever the dependency graph (cycles included) and whatever the
  limits: the packing loop terminates and no index is out of range.\<close>

theorem project_total:
  assumes "wf_txs txs"
  shows "\<exists>p. project_with txs max_blocks max_block_weight reserved = Some (Inr p)"
proof (cases "txs = []")
  case False
  then show ?thesis using project_run [OF assms False, of max_blocks max_block_weight reserved] by metis
qed (simp add: project_empty)

lemma project_total_witness:
  "\<exists>p. project_with two_txs MAX_BLOCKS MAX_BLOCK_WEIGHT BLOCK_RESERVED_WEIGHT = Some (Inr p)"
  using project_total [OF two_txs_wf] by blast

text \<open>A parent uid outside the set makes the projection panic (an index out of range while the
  reverse edges are built), before any block is packed.\<close>

theorem project_panics:
  assumes "tx \<in> set txs" "q \<in> set (gt_parents tx)" "length txs \<le> q"
  shows "project_with txs max_blocks max_block_weight reserved = Some (Inl IndexOutOfBounds)"
proof -
  have "link_children txs (map new_audit txs) = Inl IndexOutOfBounds"
    using assms by (intro link_children_panic) auto
  then show ?thesis using assms(1) by (auto simp: project_with_def build_audits_def)
qed

lemma project_panics_witness:
  "project_with [\<lparr>gt_uid = 0, gt_order = 7, gt_fee = 250, gt_weight = 1000, gt_parents = [1]\<rparr>] 8 4000000 4000
     = Some (Inl IndexOutOfBounds)"
  by (rule project_panics [where q = 1 and
      tx = "\<lparr>gt_uid = 0, gt_order = 7, gt_fee = 250, gt_weight = 1000, gt_parents = [1]\<rparr>"]) simp_all

subsection \<open>Structure of the result\<close>

text \<open>C1. On an acyclic dependency graph no transaction is placed twice, and every transaction comes
  after all of its transitive ancestors, in the order of the blocks.\<close>

theorem project_topological:
  assumes wf: "wf_txs txs" and ac: "acyclic (parent_rel txs)"
  shows "\<exists>p. project_with txs max_blocks max_block_weight reserved = Some (Inr p) \<and>
    distinct (concat (pj_blocks p)) \<and>
    (\<forall>i < length (concat (pj_blocks p)).
       (parent_rel txs)\<^sup>+ `` {concat (pj_blocks p) ! i} \<subseteq> set (take i (concat (pj_blocks p))))"
proof (cases "txs = []")
  case False
  obtain audits t where t: "audits_ok txs audits" "pack_reach audits max_blocks max_block_weight reserved t"
      "project_with txs max_blocks max_block_weight reserved = Some (Inr (pack_finish t))"
    using project_run [OF wf False] by blast
  have "order_inv audits max_blocks max_block_weight reserved t"
    by (rule pack_reach_order_inv [OF audits_ok_dag [OF wf t(1) ac] t(2)])
  then have d: "distinct (placed t)" and topo: "topo_from audits {} (placed t)" by (simp_all add: order_inv_def)
  note inv = pack_reach_inv [OF audits_ok_graph [OF wf t(1)] t(2)]
  have "(parent_rel txs)\<^sup>+ `` {placed t ! i} \<subseteq> set (take i (placed t))" if "i < length (placed t)" for i
    using topo_from_nth [OF topo that] audits_okD(4) [OF t(1) placed_bound [OF t(1) inv nth_mem [OF that]] ac] by simp
  then show ?thesis using t(3) d by (simp add: concat_pack_finish)
qed (simp add: project_empty)

lemma project_topological_witness:
  "\<exists>p. project_with two_txs 8 4000000 4000 = Some (Inr p) \<and> distinct (concat (pj_blocks p)) \<and>
    (\<forall>i < length (concat (pj_blocks p)).
       (parent_rel two_txs)\<^sup>+ `` {concat (pj_blocks p) ! i} \<subseteq> set (take i (concat (pj_blocks p))))"
  by (rule project_topological [OF two_txs_wf two_txs_acyclic])

text \<open>C24. The effective rates are given for exactly the placed transactions, all of them uids of the
  input; no projected block is empty, and there are at most \<open>max(max_blocks, 1)\<close> of them.\<close>

theorem project_blocks_rates:
  assumes wf: "wf_txs txs"
  shows "\<exists>p. project_with txs max_blocks max_block_weight reserved = Some (Inr p) \<and>
    dom (pj_rates p) = set (concat (pj_blocks p)) \<and> set (concat (pj_blocks p)) \<subseteq> {..<length txs} \<and>
    [] \<notin> set (pj_blocks p) \<and> length (pj_blocks p) \<le> max max_blocks 1"
proof (cases "txs = []")
  case False
  obtain audits t where t: "audits_ok txs audits" "pack_reach audits max_blocks max_block_weight reserved t"
      "project_with txs max_blocks max_block_weight reserved = Some (Inr (pack_finish t))"
    using project_run [OF wf False] by blast
  note inv = pack_reach_inv [OF audits_ok_graph [OF wf t(1)] t(2)]
  have "dom (ps_rates t) = set (placed t)" using pack_invD(8) [OF inv] by blast
  moreover have "[] \<notin> set (pj_blocks (pack_finish t)) \<and> length (pj_blocks (pack_finish t)) \<le> max max_blocks 1"
    using pack_invD(9,10) [OF inv] by (auto simp: pack_finish_def)
  ultimately show ?thesis
    using t(3) placed_bound [OF t(1) inv] by (auto simp: concat_pack_finish simp del: set_concat)
qed (simp add: project_empty)

lemma project_blocks_rates_witness:
  "\<exists>p. project_with two_txs 8 4000000 4000 = Some (Inr p) \<and>
    dom (pj_rates p) = set (concat (pj_blocks p)) \<and> set (concat (pj_blocks p)) \<subseteq> {..<length two_txs} \<and>
    [] \<notin> set (pj_blocks p) \<and> length (pj_blocks p) \<le> max 8 1"
  by (rule project_blocks_rates [OF two_txs_wf])

text \<open>C3. On an acyclic dependency graph, every block before the last allowed one respects the weight limit, the reserved
  weight included, unless it is made of the package of a single transaction (some of its ancestors and
  itself) that alone does not fit.  (On a cycle a transaction can be its own ancestor and be counted twice.)\<close>

theorem project_block_weight:
  assumes wf: "wf_txs txs" and ac: "acyclic (parent_rel txs)"
  shows "\<exists>p. project_with txs max_blocks max_block_weight reserved = Some (Inr p) \<and>
    (\<forall>i < length (pj_blocks p). i + 1 < max_blocks \<longrightarrow>
       unat reserved + weight_sum txs (pj_blocks p ! i) \<le> unat max_block_weight \<or>
       (\<exists>u \<in> set (pj_blocks p ! i). set (pj_blocks p ! i) \<subseteq> insert u ((parent_rel txs)\<^sup>+ `` {u})))"
proof (cases "txs = []")
  case False
  obtain audits t where t: "audits_ok txs audits" "pack_reach audits max_blocks max_block_weight reserved t"
      "project_with txs max_blocks max_block_weight reserved = Some (Inr (pack_finish t))"
    using project_run [OF wf False] by blast
  have ord: "order_inv audits max_blocks max_block_weight reserved t"
    by (rule pack_reach_order_inv [OF audits_ok_dag [OF wf t(1) ac] t(2)])
  note inv = pack_reach_inv [OF audits_ok_graph [OF wf t(1)] t(2)]
  have ok: "block_ok audits max_block_weight reserved (pj_blocks (pack_finish t) ! i)"
    if i: "i < length (pj_blocks (pack_finish t))" "i + 1 < max_blocks" for i
  proof (cases "i < length (ps_blocks t)")
    case True
    then show ?thesis using ord by (auto simp: order_inv_def pack_finish_def nth_append)
  next
    case False
    with i(1) have "i = length (ps_blocks t)" "ps_cur t \<noteq> []"
      by (auto simp: pack_finish_def split: if_splits)
    then show ?thesis using ord i(2) by (auto simp: order_inv_def pack_finish_def bounded_def)
  qed
  have mem: "\<forall>u \<in> set b. u < length txs" if "b \<in> set (pj_blocks (pack_finish t))" for b
    using that placed_bound [OF t(1) inv] by (auto simp flip: concat_pack_finish)
  have "unat reserved + weight_sum txs b \<le> unat max_block_weight \<or>
      (\<exists>u \<in> set b. set b \<subseteq> insert u ((parent_rel txs)\<^sup>+ `` {u}))"
    if "block_ok audits max_block_weight reserved b" "\<forall>u \<in> set b. u < length txs" for b
    using that wsum_weight_sum [OF t(1) that(2)] audits_okD(4) [OF t(1) _ ac]
    unfolding block_ok_def one_package_def by metis
  then show ?thesis using t(3) ok mem nth_mem by blast
qed (simp add: project_empty)

lemma project_block_weight_witness:
  "\<exists>p. project_with two_txs 8 4000000 4000 = Some (Inr p) \<and>
    (\<forall>i < length (pj_blocks p). i + 1 < 8 \<longrightarrow>
       unat (4000 :: u32) + weight_sum two_txs (pj_blocks p ! i) \<le> unat (4000000 :: u32) \<or>
       (\<exists>u \<in> set (pj_blocks p ! i). set (pj_blocks p ! i) \<subseteq> insert u ((parent_rel two_txs)\<^sup>+ `` {u})))"
  by (rule project_block_weight [OF two_txs_wf two_txs_acyclic])

subsection \<open>When every transaction is placed\<close>

text \<open>C26. Every transaction is placed, in each of three situations: no block is bounded
  (\<open>max_blocks \<le> 1\<close>); the whole input fits one block, on an acyclic graph; no transaction has a
  parent in the set.\<close>

theorem project_places_all:
  assumes wf: "wf_txs txs"
    and cond: "max_blocks \<le> 1 \<or>
      acyclic (parent_rel txs) \<and> unat reserved + weight_sum txs [0..<length txs] \<le> unat max_block_weight \<or>
      (\<forall>tx \<in> set txs. gt_parents tx = [])"
  shows "\<exists>p. project_with txs max_blocks max_block_weight reserved = Some (Inr p) \<and>
    set (concat (pj_blocks p)) = {..<length txs}"
proof (cases "txs = []")
  case False
  obtain audits t where t: "audits_ok txs audits" "pack_reach audits max_blocks max_block_weight reserved t"
      "ps_heap t = []" "project_with txs max_blocks max_block_weight reserved = Some (Inr (pack_finish t))"
    using project_run [OF wf False] by blast
  note g = audits_ok_graph [OF wf t(1)]
  note inv = pack_reach_inv [OF g t(2)]
  have "ps_overflow t = []"
    using cond
  proof (elim disjE conjE)
    assume "max_blocks \<le> 1"
    then show ?thesis using pack_invD(11) [OF inv] by (auto simp: bounded_def)
  next
    assume "acyclic (parent_rel txs)" "unat reserved + weight_sum txs [0..<length txs] \<le> unat max_block_weight"
    then show ?thesis
      using fits_no_overflow [OF audits_ok_dag [OF wf t(1)] t(2)] wsum_weight_sum [OF t(1)] audits_okD(1) [OF t(1)]
      by simp
  next
    assume "\<forall>tx \<in> set txs. gt_parents tx = []"
    then show ?thesis using flat_no_overflow [OF no_parents_no_deps [OF wf t(1)] g t(2,3)] by simp
  qed
  then have "set (placed t) = {..<length txs}"
    using all_placed_if_no_overflow [OF inv t(3)] placed_bound [OF t(1) inv] audits_okD(1) [OF t(1)] by auto
  then show ?thesis using t(4) by (auto simp: concat_pack_finish simp del: set_concat)
qed (simp add: project_empty)

lemma project_places_all_witness:
  "\<exists>p. project_with two_txs 8 4000000 4000 = Some (Inr p) \<and> set (concat (pj_blocks p)) = {..<length two_txs}"
proof (rule project_places_all [OF two_txs_wf])
  have "unat (4000 :: u32) + weight_sum two_txs [0..<length two_txs] \<le> unat (4000000 :: u32)"
    by (simp add: two_txs_def weight_sum_def)
  then show "(8::nat) \<le> 1 \<or>
      acyclic (parent_rel two_txs) \<and> unat (4000 :: u32) + weight_sum two_txs [0..<length two_txs] \<le> unat (4000000 :: u32) \<or>
      (\<forall>tx \<in> set two_txs. gt_parents tx = [])"
    using two_txs_acyclic by blast
qed

subsection \<open>The greedy choice\<close>

text \<open>C25. The choice the packing makes: when a heap entry is acted upon (not used, not stale), every
  transaction that is neither placed nor held back in the overflow queue has a score that exceeds the
  chosen one by less than \<open>2\<^sup>-\<^sup>2\<^sup>9\<close> (the tolerance \<open>1e-9\<close> of the stale test).\<close>

theorem pack_greedy_choice:
  assumes "graph_ok audits" "pack_reach audits mb mbw reserved s" "ps_heap s = it # h"
    and "\<not> is_stale (score_of (hi_uid it) audits (ps_used s)) it"
    and "v < length audits" "\<not> ps_used s ! v" "v \<notin> set (ps_overflow s)"
  shows "score_of v audits (ps_used s) < score_of (hi_uid it) audits (ps_used s) + 2 powi - 29"
proof -
  note inv = pack_reach_inv [OF assms(1,2)]
  have "entry audits (ps_used s) v \<in> set (it # h)" using pack_invD(6) [OF inv assms(5,6)] assms(3,7) by simp
  then have "entry audits (ps_used s) v \<le> it" using pack_invD(2) [OF inv] assms(3) by (auto simp: heap_ok_Cons)
  then have "score_of v audits (ps_used s) \<le> hi_score it" by (auto simp: less_eq_heap_item_def heap_item_le_def)
  moreover have "\<bar>score_of (hi_uid it) audits (ps_used s) - hi_score it\<bar> < 2 powi - 29"
    using assms(4) by (intro f64_sub_close) (simp add: is_stale_def)
  ultimately show ?thesis by linarith
qed

definition lone_audits :: "audit list" where
  "lone_audits = map (\<lambda>fee. \<lparr>au_order = 1, au_fee = fee, au_weight = 400, au_ancestors = [], au_children = []\<rparr>)
     [100, 900]"

lemma lone_audits_ok: "graph_ok lone_audits"
  by (auto simp: graph_ok_def lone_audits_def anc_def children_of_def nth_Cons' less_Suc_eq split: if_splits)

lemma lone_audits_start: "hi_uid (hd (ps_heap (pack_init lone_audits 4000))) = 1 \<and>
    ps_used (pack_init lone_audits 4000) = [False, False] \<and> ps_overflow (pack_init lone_audits 4000) = [] \<and>
    ps_heap (pack_init lone_audits 4000) \<noteq> [] \<and>
    \<not> is_stale (score_of 1 lone_audits [False, False]) (hd (ps_heap (pack_init lone_audits 4000)))"
  by code_simp

lemma pack_greedy_choice_witness:
  "score_of 0 lone_audits [False, False] < score_of 1 lone_audits [False, False] + 2 powi - 29"
proof -
  let ?s = "pack_init lone_audits 4000"
  obtain it h where h: "ps_heap ?s = it # h" using lone_audits_start by (cases "ps_heap ?s") auto
  show ?thesis
    using pack_greedy_choice [OF lone_audits_ok pack_reach_init h, of 0] lone_audits_start h
    by (simp add: lone_audits_def)
qed

subsection \<open>Fee rates of packages\<close>

text \<open>The score of a transaction is the smaller of its own fee rate and the fee rate of the
  package the packing would place with it; so it never exceeds the effective rate the package gets.\<close>

theorem score_is_package_rate:
  "score_of u audits used =
     min (rate (au_fee (audits ! u)) (weight64 audits u))
       (rate (pkg_fee audits (package audits used u)) (pkg_weight audits (package audits used u)))"
proof -
  let ?as = "filter (\<lambda>a. \<not> used ! a) (anc audits u)"
  have "mset (package audits used u) = mset (u # ?as)" by (simp add: mset_package)
  from pkg_sums_mset [OF this, of audits] show ?thesis
    by (simp add: score_of_def Let_def fold_score_acc anc_def) (simp add: pkg_fee_def pkg_weight_def)
qed

text \<open>C23. The effective rate of a placed transaction \<open>m\<close> is the fee rate of the package it was placed with: four times
  the total fee over the total weight of \<open>pkg\<close>.  That package is the one of the turn of the packing loop that placed
  \<open>m\<close>: this turn took \<open>u\<close> from the heap, and \<open>pkg\<close> is \<open>u\<close> together with those of its ancestors that were not placed
  before (all of its transitive ancestors count, when the dependency graph is acyclic).\<close>

theorem project_effective_rates:
  assumes wf: "wf_txs txs" and build: "build_audits txs = Some (Inr audits)"
  shows "\<exists>p. project_with txs max_blocks max_block_weight reserved = Some (Inr p) \<and>
    (\<forall>m \<in> set (concat (pj_blocks p)). \<exists>s u pkg. placing audits max_blocks max_block_weight reserved s u pkg \<and> m \<in> set pkg \<and>
       pj_rates p m = Some (rate (\<Sum>x \<leftarrow> pkg. gt_fee (txs ! x)) (\<Sum>x \<leftarrow> pkg. ucast (gt_weight (txs ! x)))) \<and>
       set pkg = insert u {a \<in> set (anc audits u). a \<notin> set (placed s)} \<and>
       (acyclic (parent_rel txs) \<longrightarrow> set pkg = insert u ((parent_rel txs)\<^sup>+ `` {u} - set (placed s))))"
proof (cases "txs = []")
  case False
  obtain t where ok: "audits_ok txs audits" and t: "pack_reach audits max_blocks max_block_weight reserved t"
      "project_with txs max_blocks max_block_weight reserved = Some (Inr (pack_finish t))"
    by (rule project_run_from [OF wf False build])
  note g = audits_ok_graph [OF wf ok]
  note inv = pack_reach_inv [OF g t(1)]
  have "\<exists>s u pkg. placing audits max_blocks max_block_weight reserved s u pkg \<and> m \<in> set pkg \<and>
       ps_rates t m = Some (rate (\<Sum>x \<leftarrow> pkg. gt_fee (txs ! x)) (\<Sum>x \<leftarrow> pkg. ucast (gt_weight (txs ! x)))) \<and>
       set pkg = insert u {a \<in> set (anc audits u). a \<notin> set (placed s)} \<and>
       (acyclic (parent_rel txs) \<longrightarrow> set pkg = insert u ((parent_rel txs)\<^sup>+ `` {u} - set (placed s)))"
    if m: "m \<in> set (placed t)" for m
  proof -
    obtain r where r: "ps_rates t m = Some r" using pack_invD(8) [OF inv, of m] m by blast
    obtain s u pkg where p: "placing audits max_blocks max_block_weight reserved s u pkg" "m \<in> set pkg"
        "r = rate (pkg_fee audits pkg) (pkg_weight audits pkg)" using reach_rated [OF g t(1) r] by blast
    note pkg = placing_package [OF g p(1)]
    have len: "length audits = length txs" by (rule audits_okD(1) [OF ok])
    have "\<forall>x \<in> set pkg. x < length txs" using pkg(1) graph_okD(2) [OF g pkg(1)] unfolding pkg(2) len by auto
    note sums = audits_ok_sums [OF ok this]
    have "acyclic (parent_rel txs) \<longrightarrow> set pkg = insert u ((parent_rel txs)\<^sup>+ `` {u} - set (placed s))"
      using audits_okD(4) [OF ok, of u] pkg(1) unfolding pkg(2) len by auto
    with p(1,2) r p(3) sums pkg(2) show ?thesis by (intro exI [of _ s] exI [of _ u] exI [of _ pkg]) simp
  qed
  then show ?thesis using t(2) by (simp add: concat_pack_finish del: set_concat)
qed (simp add: project_empty)

definition two_audits :: "audit list" where
  "two_audits = [\<lparr>au_order = 7, au_fee = 250, au_weight = 1000, au_ancestors = [], au_children = [1]\<rparr>,
     \<lparr>au_order = 5, au_fee = 2000, au_weight = 1000, au_ancestors = [0], au_children = []\<rparr>]"

lemma two_txs_build: "build_audits two_txs = Some (Inr two_audits)"
  by code_simp

lemma project_effective_rates_witness:
  "\<exists>p. project_with two_txs 8 4000000 4000 = Some (Inr p) \<and>
    (\<forall>m \<in> set (concat (pj_blocks p)). \<exists>s u pkg. placing two_audits 8 4000000 4000 s u pkg \<and> m \<in> set pkg \<and>
       pj_rates p m = Some (rate (\<Sum>x \<leftarrow> pkg. gt_fee (two_txs ! x)) (\<Sum>x \<leftarrow> pkg. ucast (gt_weight (two_txs ! x)))) \<and>
       set pkg = insert u {a \<in> set (anc two_audits u). a \<notin> set (placed s)} \<and>
       (acyclic (parent_rel two_txs) \<longrightarrow> set pkg = insert u ((parent_rel two_txs)\<^sup>+ `` {u} - set (placed s))))"
  by (rule project_effective_rates [OF two_txs_wf two_txs_build])

text \<open>For a fee no larger than the total supply of 21 million bitcoin and a non-zero weight below
  \<open>2 ^ 53\<close>, the computed rate is \<open>4 * fee / weight\<close> up to a relative error of \<open>2\<^sup>-\<^sup>5\<^sup>3\<close>: the three
  roundings of the double arithmetic amount to one.\<close>

theorem rate_accurate:
  assumes "uint fee \<le> 2100000000000000" "weight \<noteq> 0" "uint weight < 2 ^ 53"
  shows "\<bar>rate fee weight - 4 * of_int (uint fee) / of_int (uint weight)\<bar>
    \<le> 4 * of_int (uint fee) / of_int (uint weight) * 2 powi (- 53)"
  using rate_relative_error [OF assms] .

lemma rate_accurate_witness:
  "\<bar>rate 1000 561 - 4 * of_int (uint (1000 :: u64)) / of_int (uint (561 :: u64))\<bar>
    \<le> 4 * of_int (uint (1000 :: u64)) / of_int (uint (561 :: u64)) * 2 powi (- 53)"
  by (rule rate_accurate) simp_all

subsection \<open>Determinism\<close>

text \<open>C27. The projection does not depend on the order in which the hash sets of ancestors are read
  out: the packing loop ends in the same state for any reordering of the ancestor lists.\<close>

theorem project_hash_order:
  assumes "wf_txs txs" "build_audits txs = Some (Inr audits)" "same_audits audits audits'"
  shows "pack_loop audits' max_blocks max_block_weight reserved (pack_init audits' reserved) =
    pack_loop audits max_blocks max_block_weight reserved (pack_init audits reserved)"
proof -
  have "audits_ok txs audits" using build_audits_ok [OF assms(1)] assms(2) by auto
  from same_pack_loop [OF assms(3) audits_ok_graph [OF assms(1) this]] show ?thesis by simp
qed

definition two_parents :: "gbt_tx list" where
  "two_parents = [\<lparr>gt_uid = 0, gt_order = 7, gt_fee = 250, gt_weight = 1000, gt_parents = []\<rparr>,
                  \<lparr>gt_uid = 1, gt_order = 5, gt_fee = 2000, gt_weight = 1000, gt_parents = []\<rparr>,
                  \<lparr>gt_uid = 2, gt_order = 5, gt_fee = 2000, gt_weight = 1000, gt_parents = [0, 1]\<rparr>]"

definition two_parents_audits :: "nat list \<Rightarrow> audit list" where
  "two_parents_audits anc2 =
     [\<lparr>au_order = 7, au_fee = 250, au_weight = 1000, au_ancestors = [], au_children = [2]\<rparr>,
      \<lparr>au_order = 5, au_fee = 2000, au_weight = 1000, au_ancestors = [], au_children = [2]\<rparr>,
      \<lparr>au_order = 5, au_fee = 2000, au_weight = 1000, au_ancestors = anc2, au_children = []\<rparr>]"

lemma two_parents_wf: "wf_txs two_parents"
  by (auto simp: wf_txs_def two_parents_def nth_Cons' less_Suc_eq)

lemma two_parents_build: "build_audits two_parents = Some (Inr (two_parents_audits [1, 0]))"
  by code_simp

lemma project_hash_order_witness:
  "pack_loop (two_parents_audits [0, 1]) 8 4000000 4000 (pack_init (two_parents_audits [0, 1]) 4000) =
   pack_loop (two_parents_audits [1, 0]) 8 4000000 4000 (pack_init (two_parents_audits [1, 0]) 4000)"
  by (rule project_hash_order [OF two_parents_wf two_parents_build])
    (simp add: same_audits_def same_audit_def two_parents_audits_def)

subsection \<open>Where the packing deviates from its comments\<close>

definition lost_txs :: "gbt_tx list" where
  "lost_txs = [\<lparr>gt_uid = 0, gt_order = 0, gt_fee = 250, gt_weight = 1000, gt_parents = []\<rparr>,
               \<lparr>gt_uid = 1, gt_order = 1, gt_fee = 25000, gt_weight = 1000, gt_parents = [0]\<rparr>,
               \<lparr>gt_uid = 2, gt_order = 2, gt_fee = 1999000, gt_weight = 3995000, gt_parents = []\<rparr>]"

definition blocks_of :: "(panic + projection) option \<Rightarrow> nat list list option" where
  "blocks_of r = (case r of Some (Inr p) \<Rightarrow> Some (pj_blocks p) | _ \<Rightarrow> None)"

text \<open>C38. A transaction can be lost although another block is allowed.  Whenever the packing loop reaches a state whose
  last heap entry is a stale duplicate, of a transaction that is used already, the \<open>continue\<close> for that entry
  skips the step that closes the block and requeues the overflow queue, and the loop ends: every transaction that is
  held back in the queue, and was not placed in the meantime with another package, ends up in no block and has no effective rate.  (The instance: three transactions
  whose total weight exceeds one block but not two.)\<close>

theorem project_loses_overflow:
  assumes wf: "wf_txs txs" and build: "build_audits txs = Some (Inr audits)"
    and s: "pack_reach audits max_blocks max_block_weight reserved s" "ps_heap s = [it]" "ps_used s ! hi_uid it"
    and u: "u \<in> set (ps_overflow s)" "\<not> ps_used s ! u"
  shows "\<exists>p. project_with txs max_blocks max_block_weight reserved = Some (Inr p) \<and>
    u \<notin> set (concat (pj_blocks p)) \<and> pj_rates p u = None \<and> length (pj_blocks p) < max_blocks"
proof -
  let ?t = "s\<lparr>ps_heap := []\<rparr>"
  have "audits_ok txs audits" using build_audits_ok [OF wf] build by auto
  note g = audits_ok_graph [OF wf this]
  note inv = pack_reach_inv [OF g s(1)]
  have "txs \<noteq> []"
    using pack_invD(5) [OF inv u(1)] audits_okD(1) [OF \<open>audits_ok txs audits\<close>] by auto
  then have "project_with txs max_blocks max_block_weight reserved = Some (Inr (pack_finish ?t))"
    using build stale_duplicate_ends [OF s] by (simp add: project_with_def)
  moreover have "u \<notin> set (placed s)" using pack_invD(7) [OF inv, of u] u(2) by simp
  moreover from this have "ps_rates s u = None" using pack_invD(8) [OF inv, of u] by blast
  moreover have "length (ps_blocks s) + 1 < max_blocks" using pack_invD(11) [OF inv] u(1) unfolding bounded_def by fastforce
  ultimately show ?thesis by (simp add: concat_pack_finish del: set_concat) (simp add: pack_finish_def)
qed

definition lost_audits :: "audit list" where
  "lost_audits = [\<lparr>au_order = 0, au_fee = 250, au_weight = 1000, au_ancestors = [], au_children = [1]\<rparr>,
     \<lparr>au_order = 1, au_fee = 25000, au_weight = 1000, au_ancestors = [0], au_children = []\<rparr>,
     \<lparr>au_order = 2, au_fee = 1999000, au_weight = 3995000, au_ancestors = [], au_children = []\<rparr>]"

lemma lost_wf: "wf_txs lost_txs"
  by (auto simp: wf_txs_def lost_txs_def nth_Cons' less_Suc_eq)

lemma lost_build: "build_audits lost_txs = Some (Inr lost_audits)"
  by code_simp

text \<open>After two turns the pair is placed, the large transaction is held back, and the entry of the parent is left.\<close>

definition lost_state :: pack_state where
  "lost_state = pack_iter lost_audits 8 4000000 4000 (pack_iter lost_audits 8 4000000 4000 (pack_init lost_audits 4000))"

definition stuck :: "nat \<Rightarrow> pack_state \<Rightarrow> bool" where
  "stuck u s = (case ps_heap s of [it] \<Rightarrow> ps_used s ! hi_uid it \<and> u \<in> set (ps_overflow s) \<and> \<not> ps_used s ! u | _ \<Rightarrow> False)"

lemma lost_stuck: "stuck 2 lost_state"
  by code_simp

lemma project_loses_overflow_witness:
  "\<exists>p. project_with lost_txs 8 4000000 4000 = Some (Inr p) \<and>
    2 \<notin> set (concat (pj_blocks p)) \<and> pj_rates p 2 = None \<and> length (pj_blocks p) < 8"
proof -
  have reach: "pack_reach lost_audits 8 4000000 4000 lost_state"
    unfolding lost_state_def by (intro pack_reach_iter pack_reach_init)
  obtain it where "ps_heap lost_state = [it]" "ps_used lost_state ! hi_uid it" "2 \<in> set (ps_overflow lost_state)" "\<not> ps_used lost_state ! 2"
    using lost_stuck by (auto simp: stuck_def split: list.splits)
  from project_loses_overflow [OF lost_wf lost_build reach this] show ?thesis .
qed

text \<open>A transaction that names itself as a parent becomes its own ancestor and is placed twice:
  \<open>set.insert(p)\<close> happens before the recursion notices the cycle.\<close>

theorem project_self_parent:
  "blocks_of (project [\<lparr>gt_uid = 0, gt_order = 0, gt_fee = 250, gt_weight = 1000, gt_parents = [0]\<rparr>]) = Some [[0, 0]]"
  by code_simp

end
