(* ===== verification/Fees.thy ===== *)
theory Fees
  imports Gbt_Correct
begin

text \<open>
  Fee tiers (\<open>fees.rs\<close>): from a mempool snapshot to the inputs of the projection, and from the
  effective rates of the projection to the recommended tiers.  The clock reading of
  \<open>SystemTime::now().duration_since(UNIX_EPOCH)\<close> is an argument, \<open>None\<close> for its error.
\<close>

subsection \<open>Tiers\<close>

record fee_estimate =
  fe_next_block :: f64
  fe_within_3_blocks :: f64
  fe_within_6_blocks :: f64
  fe_horizon :: f64
  fe_relay_floor :: f64
  fe_computed_at :: u64

definition now_unix :: "u64 option \<Rightarrow> u64" where
  "now_unix since_epoch = (case since_epoch of Some secs \<Rightarrow> secs | None \<Rightarrow> 0)"

definition TIER_BLOCK_WEIGHT :: u64 where
  "TIER_BLOCK_WEIGHT = ucast (MAX_BLOCK_WEIGHT - BLOCK_RESERVED_WEIGHT)"

definition FASTEST_DEPTH :: u64 where "FASTEST_DEPTH = 1"
definition HALF_HOUR_DEPTH :: u64 where "HALF_HOUR_DEPTH = 3"
definition HOUR_DEPTH :: u64 where "HOUR_DEPTH = 6"
definition ECONOMY_DEPTH :: u64 where "ECONOMY_DEPTH = of_nat MAX_BLOCKS"

type_synonym rate_weights = "(f64 \<times> u32) list"

fun tier_scan :: "rate_weights \<Rightarrow> u64 \<Rightarrow> f64 \<Rightarrow> u64 \<Rightarrow> f64" where
  "tier_scan [] threshold floor_rate cum = floor_rate"
| "tier_scan ((r, weight) # rest) threshold floor_rate cum =
     (let cum = cum + ucast weight in
      if threshold \<le> cum then max r floor_rate else tier_scan rest threshold floor_rate cum)"

definition tier_at_depth :: "rate_weights \<Rightarrow> u64 \<Rightarrow> f64 \<Rightarrow> f64" where
  "tier_at_depth sorted_desc depth_blocks floor_rate =
     tier_scan sorted_desc (u64_sat_mul depth_blocks TIER_BLOCK_WEIGHT) floor_rate 0"

definition recommended_tiers :: "rate_weights \<Rightarrow> f64 \<Rightarrow> u64 \<Rightarrow> fee_estimate" where
  "recommended_tiers rate_weights min_fee_sat_vb computed_at =
     (let floor_rate = min_fee_sat_vb;
          sorted_desc = sort_key (\<lambda>p. - fst p) rate_weights
      in \<lparr>fe_next_block = tier_at_depth sorted_desc FASTEST_DEPTH floor_rate,
          fe_within_3_blocks = tier_at_depth sorted_desc HALF_HOUR_DEPTH floor_rate,
          fe_within_6_blocks = tier_at_depth sorted_desc HOUR_DEPTH floor_rate,
          fe_horizon = tier_at_depth sorted_desc ECONOMY_DEPTH floor_rate,
          fe_relay_floor = floor_rate,
          fe_computed_at = computed_at\<rparr>)"

subsection \<open>Snapshots\<close>

type_synonym snapshot = "(txid \<times> u64 \<times> u32 \<times> txid list) list"

definition uid_map :: "snapshot \<Rightarrow> txid \<rightharpoonup> nat" where
  "uid_map snap = fold (\<lambda>(i, e) m. m(fst e \<mapsto> i mod 2 ^ 32)) (List.enumerate 0 snap) Map.empty"

definition gbt_of_entry :: "(txid \<rightharpoonup> nat) \<Rightarrow> nat \<times> (txid \<times> u64 \<times> u32 \<times> txid list) \<Rightarrow> gbt_tx" where
  "gbt_of_entry uid_of = (\<lambda>(i, (tid, fee, weight, depends)).
     \<lparr>gt_uid = i mod 2 ^ 32, gt_order = txid_lead tid, gt_fee = fee, gt_weight = weight,
      gt_parents = List.map_filter uid_of depends\<rparr>)"

definition snapshot_to_gbt :: "snapshot \<Rightarrow> gbt_tx list" where
  "snapshot_to_gbt snap = map (gbt_of_entry (uid_map snap)) (List.enumerate 0 snap)"

definition join_rates :: "(nat \<rightharpoonup> f64) \<Rightarrow> snapshot \<Rightarrow> rate_weights" where
  "join_rates rates snap =
     List.map_filter (\<lambda>(uid, (_, _, weight, _)). map_option (\<lambda>r. (r, weight)) (rates (uid mod 2 ^ 32)))
       (List.enumerate 0 snap)"

definition compute_estimate ::
  "snapshot \<Rightarrow> f64 \<Rightarrow> u64 option \<Rightarrow> (panic + fee_estimate) option" where
  "compute_estimate snap min_fee_sat_vb since_epoch =
     map_option (res_map (\<lambda>proj. recommended_tiers (join_rates (pj_rates proj) snap) min_fee_sat_vb
         (now_unix since_epoch)))
       (project (snapshot_to_gbt snap))"

subsection \<open>The scan\<close>

lemma tier_scan_floor: "floor_rate \<le> tier_scan rws threshold floor_rate cum"
  by (induction rws threshold floor_rate cum rule: tier_scan.induct) (simp_all add: Let_def)

text \<open>A larger threshold is reached later, at a rate that is no higher; wrap-around does not matter.\<close>

lemma tier_scan_antimono:
  assumes "sorted_wrt (\<lambda>p q. fst q \<le> fst p) rws" "t \<le> t'"
  shows "tier_scan rws t' floor_rate cum \<le> tier_scan rws t floor_rate cum"
  using assms(1)
proof (induction rws arbitrary: cum)
  case (Cons p rws)
  obtain r w where p: "p = (r, w)" by (cases p)
  have le: "tier_scan rws t' floor_rate c \<le> max r floor_rate" for c
  proof -
    have "\<forall>q \<in> set rws. fst q \<le> r" using Cons.prems by (simp add: p)
    then show ?thesis
      by (induction rws t' floor_rate c rule: tier_scan.induct) (auto simp: Let_def le_max_iff_disj)
  qed
  show ?case using Cons le assms(2) by (auto simp: p Let_def)
qed simp

lemma sorted_desc_key: "sorted_wrt (\<lambda>p q. fst q \<le> fst p) (sort_key (\<lambda>p :: f64 \<times> u32. - fst p) rws)"
  using sorted_sort_key [of "\<lambda>p. - fst p" rws] by (simp add: sorted_map)

lemma tier_at_depth_antimono:
  assumes "unat d \<le> unat d'" "sorted_wrt (\<lambda>p q. fst q \<le> fst p) rws"
  shows "tier_at_depth rws d' floor_rate \<le> tier_at_depth rws d floor_rate"
  unfolding tier_at_depth_def
  by (intro tier_scan_antimono [OF assms(2)])
    (simp add: word_le_nat_alt unat_u64_sat_mul min.coboundedI1 assms(1) mult_le_mono1 min.mono)

text \<open>The histogram: weight of the entries whose rate exceeds, or is at least, \<open>r\<close>.\<close>

definition weight_of :: "rate_weights \<Rightarrow> nat" where
  "weight_of rws = (\<Sum>p \<leftarrow> rws. unat (snd p))"

definition weight_above :: "rate_weights \<Rightarrow> f64 \<Rightarrow> nat" where
  "weight_above rws r = weight_of (filter (\<lambda>p. r < fst p) rws)"

definition weight_at_least :: "rate_weights \<Rightarrow> f64 \<Rightarrow> nat" where
  "weight_at_least rws r = weight_of (filter (\<lambda>p. r \<le> fst p) rws)"

lemma weight_of_simps [simp]:
  "weight_of [] = 0" "weight_of (p # rws) = unat (snd p) + weight_of rws"
  by (simp_all add: weight_of_def)

lemma weight_of_filter_le: "weight_of (filter P rws) \<le> weight_of rws"
  by (induction rws) auto

lemma weight_of_mset: "mset xs = mset ys \<Longrightarrow> weight_of xs = weight_of ys"
proof -
  have "weight_of zs = sum_mset (image_mset (\<lambda>p. unat (snd p)) (mset zs))" for zs
    by (induction zs) simp_all
  then show "mset xs = mset ys \<Longrightarrow> weight_of xs = weight_of ys" by simp
qed

lemma weight_above_mset: "mset xs = mset ys \<Longrightarrow> weight_above xs r = weight_above ys r"
  by (simp add: weight_above_def weight_of_mset)

lemma weight_at_least_mset: "mset xs = mset ys \<Longrightarrow> weight_at_least xs r = weight_at_least ys r"
  by (simp add: weight_at_least_def weight_of_mset)

lemma tier_scan_short:
  assumes "unat cum + weight_of rws < unat threshold"
  shows "tier_scan rws threshold floor_rate cum = floor_rate"
  using assms
proof (induction rws arbitrary: cum)
  case (Cons p rws)
  obtain r w where p: "p = (r, w)" by (cases p)
  have "unat (cum + ucast w) = unat cum + unat w"
    using Cons.prems unat_u64_lt [of threshold] by (simp add: p unat_word_ariths)
  then show ?case using Cons by (simp add: p Let_def word_le_nat_alt)
qed simp

lemma tier_scan_reached:
  assumes "sorted_wrt (\<lambda>p q. fst q \<le> fst p) rws" "unat cum < unat threshold"
    and "unat threshold \<le> unat cum + weight_of rws" "unat cum + weight_of rws < 2 ^ 64"
  shows "\<exists>p \<in> set rws. tier_scan rws threshold floor_rate cum = max (fst p) floor_rate \<and>
    unat cum + weight_above rws (fst p) < unat threshold \<and> unat threshold \<le> unat cum + weight_at_least rws (fst p)"
  using assms
proof (induction rws arbitrary: cum)
  case (Cons q rws)
  obtain r w where q: "q = (r, w)" by (cases q)
  have cum: "unat (cum + ucast w) = unat cum + unat w"
    using Cons.prems(4) by (simp add: q unat_word_ariths)
  have desc: "\<forall>p \<in> set rws. fst p \<le> r" using Cons.prems(1) by (simp add: q)
  show ?case
  proof (cases "threshold \<le> cum + ucast w")
    case True
    have "filter (\<lambda>p. r < fst p) (q # rws) = []" using desc by (auto simp: q filter_empty_conv)
    then have "weight_above (q # rws) r = 0" by (simp add: weight_above_def)
    moreover have "unat w \<le> weight_at_least (q # rws) r" by (simp add: weight_at_least_def q)
    ultimately show ?thesis
      using True Cons.prems(2) by (intro bexI [of _ q]) (auto simp: q Let_def word_le_nat_alt cum)
  next
    case False
    then have "unat (cum + ucast w) < unat threshold" by (simp add: word_le_nat_alt)
    from Cons.IH [OF _ this] Cons.prems obtain p where p: "p \<in> set rws"
      "tier_scan rws threshold floor_rate (cum + ucast w) = max (fst p) floor_rate"
      "unat (cum + ucast w) + weight_above rws (fst p) < unat threshold"
      "unat threshold \<le> unat (cum + ucast w) + weight_at_least rws (fst p)"
      by (auto simp: q cum)
    have "fst p \<le> r" using desc p(1) by blast
    then have "weight_above (q # rws) (fst p) \<le> unat w + weight_above rws (fst p)"
      "weight_at_least (q # rws) (fst p) = unat w + weight_at_least rws (fst p)"
      by (auto simp: weight_above_def weight_at_least_def q)
    with p False show ?thesis by (intro bexI [of _ p]) (auto simp: q Let_def cum)
  qed
qed simp

text \<open>The histogram determines the tier.\<close>

lemma weight_above_at_least: "r < r' \<Longrightarrow> weight_at_least rws r' \<le> weight_above rws r"
  unfolding weight_above_def weight_at_least_def by (induction rws) auto

lemma histogram_unique:
  assumes "weight_above rws r < k" "k \<le> weight_at_least rws r"
    and "weight_above rws r' < k" "k \<le> weight_at_least rws r'"
  shows "r = r'"
  using assms weight_above_at_least [of r r' rws] weight_above_at_least [of r' r rws]
  by (cases r r' rule: linorder_cases) auto

lemma tier_at_depth_spec:
  fixes rws :: rate_weights
  defines "sorted_desc \<equiv> sort_key (\<lambda>p. - fst p) rws"
  assumes "weight_of rws < 2 ^ 64" "0 < unat (u64_sat_mul d TIER_BLOCK_WEIGHT)"
  shows "weight_of rws < unat (u64_sat_mul d TIER_BLOCK_WEIGHT) \<Longrightarrow> tier_at_depth sorted_desc d floor_rate = floor_rate"
    and "unat (u64_sat_mul d TIER_BLOCK_WEIGHT) \<le> weight_of rws \<Longrightarrow>
      \<exists>p \<in> set rws. tier_at_depth sorted_desc d floor_rate = max (fst p) floor_rate \<and>
        weight_above rws (fst p) < unat (u64_sat_mul d TIER_BLOCK_WEIGHT) \<and>
        unat (u64_sat_mul d TIER_BLOCK_WEIGHT) \<le> weight_at_least rws (fst p)"
proof -
  have m: "mset sorted_desc = mset rws" by (simp add: sorted_desc_def)
  note w = weight_of_mset [OF m] weight_above_mset [OF m] weight_at_least_mset [OF m]
  have s: "sorted_wrt (\<lambda>p q. fst q \<le> fst p) sorted_desc" "set sorted_desc = set rws"
    unfolding sorted_desc_def by (rule sorted_desc_key) simp
  show "weight_of rws < unat (u64_sat_mul d TIER_BLOCK_WEIGHT) \<Longrightarrow> tier_at_depth sorted_desc d floor_rate = floor_rate"
    by (simp add: tier_at_depth_def tier_scan_short w)
  assume "unat (u64_sat_mul d TIER_BLOCK_WEIGHT) \<le> weight_of rws"
  with tier_scan_reached [OF s(1), of 0 "u64_sat_mul d TIER_BLOCK_WEIGHT" floor_rate] assms(2,3)
  show "\<exists>p \<in> set rws. tier_at_depth sorted_desc d floor_rate = max (fst p) floor_rate \<and>
      weight_above rws (fst p) < unat (u64_sat_mul d TIER_BLOCK_WEIGHT) \<and>
      unat (u64_sat_mul d TIER_BLOCK_WEIGHT) \<le> weight_at_least rws (fst p)"
    by (simp add: tier_at_depth_def w s(2))
qed

lemma tier_at_depth_perm:
  assumes "mset xs = mset ys" "weight_of xs < 2 ^ 64" "0 < unat (u64_sat_mul d TIER_BLOCK_WEIGHT)"
  shows "tier_at_depth (sort_key (\<lambda>p. - fst p) xs) d floor_rate = tier_at_depth (sort_key (\<lambda>p. - fst p) ys) d floor_rate"
proof (cases "weight_of xs < unat (u64_sat_mul d TIER_BLOCK_WEIGHT)")
  case True
  then show ?thesis
    using tier_at_depth_spec(1) [of xs d] tier_at_depth_spec(1) [of ys d] weight_of_mset [OF assms(1)] assms(2,3) by simp
next
  case False
  note w = weight_of_mset [OF assms(1)] weight_above_mset [OF assms(1)] weight_at_least_mset [OF assms(1)]
  obtain p where p: "tier_at_depth (sort_key (\<lambda>p. - fst p) xs) d floor_rate = max (fst p) floor_rate"
      "weight_above xs (fst p) < unat (u64_sat_mul d TIER_BLOCK_WEIGHT)"
      "unat (u64_sat_mul d TIER_BLOCK_WEIGHT) \<le> weight_at_least xs (fst p)"
    using tier_at_depth_spec(2) [OF assms(2,3), of floor_rate] False by (auto simp: not_less)
  obtain q where q: "tier_at_depth (sort_key (\<lambda>p. - fst p) ys) d floor_rate = max (fst q) floor_rate"
      "weight_above xs (fst q) < unat (u64_sat_mul d TIER_BLOCK_WEIGHT)"
      "unat (u64_sat_mul d TIER_BLOCK_WEIGHT) \<le> weight_at_least xs (fst q)"
    using tier_at_depth_spec(2) [of ys d floor_rate] assms(2,3) False by (auto simp: not_less w)
  show ?thesis using histogram_unique [OF p(2,3) q(2,3)] p(1) q(1) by simp
qed

subsection \<open>The snapshot adapter\<close>

lemma uid_map_fold:
  "(fold (\<lambda>(i, e) m. m(fst e \<mapsto> i mod 2 ^ 32)) (List.enumerate k snap) m) t = Some j \<Longrightarrow>
     m t = Some j \<or> (\<exists>i < length snap. j = (k + i) mod 2 ^ 32 \<and> fst (snap ! i) = t)"
proof (induction snap arbitrary: k m)
  case (Cons e snap)
  from Cons.IH [of "Suc k" "m(fst e \<mapsto> k mod 2 ^ 32)"] Cons.prems
  have "(m(fst e \<mapsto> k mod 2 ^ 32)) t = Some j \<or> (\<exists>i < length snap. j = (Suc k + i) mod 2 ^ 32 \<and> fst (snap ! i) = t)"
    by simp
  then show ?case
  proof
    assume "(m(fst e \<mapsto> k mod 2 ^ 32)) t = Some j"
    then show ?thesis by (cases "t = fst e") (auto intro: exI [of _ 0])
  next
    assume "\<exists>i < length snap. j = (Suc k + i) mod 2 ^ 32 \<and> fst (snap ! i) = t"
    then obtain i where "i < length snap" "j = (Suc k + i) mod 2 ^ 32" "fst (snap ! i) = t" by blast
    then show ?thesis by (intro disjI2 exI [of _ "Suc i"]) simp
  qed
qed simp

lemma uid_map_fold_dom:
  "dom (fold (\<lambda>(i, e) m. m(fst e \<mapsto> i mod 2 ^ 32)) (List.enumerate k snap) m) = fst ` set snap \<union> dom m"
  by (induction snap arbitrary: k m) auto

lemma uid_map_Some:
  assumes "uid_map snap t = Some j" "length snap < 2 ^ 32"
  shows "j < length snap" "fst (snap ! j) = t"
proof -
  obtain i where i: "i < length snap" "j = i mod 2 ^ 32" "fst (snap ! i) = t"
    using uid_map_fold [OF assms(1) [unfolded uid_map_def]] by auto
  then have "j = i" using assms(2) by simp
  with i show "j < length snap" "fst (snap ! j) = t" by auto
qed

lemma uid_map_dom: "dom (uid_map snap) = fst ` set snap"
  unfolding uid_map_def uid_map_fold_dom by simp

lemma set_map_filter: "set (List.map_filter f xs) = {y. \<exists>x \<in> set xs. f x = Some y}"
  by (force simp: List.map_filter_def)

lemma length_snapshot_to_gbt [simp]: "length (snapshot_to_gbt snap) = length snap"
  by (simp add: snapshot_to_gbt_def)

lemma nth_snapshot_to_gbt:
  assumes "i < length snap" "snap ! i = (tid, fee, weight, depends)"
  shows "snapshot_to_gbt snap ! i =
    \<lparr>gt_uid = i mod 2 ^ 32, gt_order = txid_lead tid, gt_fee = fee, gt_weight = weight,
     gt_parents = List.map_filter (uid_map snap) depends\<rparr>"
  using assms by (simp add: snapshot_to_gbt_def nth_enumerate_eq gbt_of_entry_def)

lemma snapshot_wf_txs:
  assumes "length snap < 2 ^ 32"
  shows "wf_txs (snapshot_to_gbt snap)"
  unfolding wf_txs_def
proof (intro conjI allI impI)
  fix i assume "i < length (snapshot_to_gbt snap)"
  then have i: "i < length snap" by simp
  obtain tid fee weight depends where e: "snap ! i = (tid, fee, weight, depends)" by (metis prod_cases4)
  show "gt_uid (snapshot_to_gbt snap ! i) = i"
    using nth_snapshot_to_gbt [OF i e] i assms by simp
  show "\<forall>p \<in> set (gt_parents (snapshot_to_gbt snap ! i)). p < length (snapshot_to_gbt snap)"
    using nth_snapshot_to_gbt [OF i e] uid_map_Some [OF _ assms] by (auto simp: set_map_filter)
qed (use assms in simp)

text \<open>With distinct txids, the parents of an entry are exactly the entries it depends on.\<close>

lemma snapshot_parents:
  assumes "length snap < 2 ^ 32" "distinct (map fst snap)" "i < length snap"
  shows "set (gt_parents (snapshot_to_gbt snap ! i)) =
    {j. j < length snap \<and> fst (snap ! j) \<in> set (snd (snd (snd (snap ! i))))}"
proof -
  obtain tid fee weight depends where e: "snap ! i = (tid, fee, weight, depends)" by (metis prod_cases4)
  have "uid_map snap t = Some j \<longleftrightarrow> j < length snap \<and> fst (snap ! j) = t" for t j
  proof
    show "uid_map snap t = Some j \<Longrightarrow> j < length snap \<and> fst (snap ! j) = t"
      using uid_map_Some [OF _ assms(1)] by simp
  next
    assume j: "j < length snap \<and> fst (snap ! j) = t"
    then have "t \<in> dom (uid_map snap)" by (auto simp: uid_map_dom)
    then obtain k where k: "uid_map snap t = Some k" by blast
    with uid_map_Some [OF k assms(1)] j have "k = j"
      using nth_eq_iff_index_eq [OF assms(2), of k j] by simp
    with k show "uid_map snap t = Some j" by simp
  qed
  then show ?thesis
    using nth_snapshot_to_gbt [OF assms(3) e] by (auto simp: set_map_filter e)
qed

lemma compute_estimate_result:
  assumes "length snap < 2 ^ 32"
  shows "\<exists>p. project (snapshot_to_gbt snap) = Some (Inr p) \<and>
    compute_estimate snap floor_rate clock = Some (Inr (recommended_tiers (join_rates (pj_rates p) snap) floor_rate (now_unix clock)))"
proof -
  obtain p where "project (snapshot_to_gbt snap) = Some (Inr p)"
  proof (cases "snapshot_to_gbt snap = []")
    case True
    then show thesis using that by (simp add: project_def project_empty)
  next
    case False
    then show thesis
      using project_run [OF snapshot_wf_txs [OF assms] False] that unfolding project_def by metis
  qed
  then show ?thesis by (simp add: compute_estimate_def)
qed

lemma snapshot_no_parents:
  assumes "\<forall>(t, f, w, ds) \<in> set snap. \<forall>d \<in> set ds. d \<notin> fst ` set snap"
  shows "\<forall>tx \<in> set (snapshot_to_gbt snap). gt_parents tx = []"
proof
  fix tx assume "tx \<in> set (snapshot_to_gbt snap)"
  then obtain i where i: "i < length snap" "tx = snapshot_to_gbt snap ! i"
    by (auto simp: in_set_conv_nth)
  obtain tid fee weight depends where e: "snap ! i = (tid, fee, weight, depends)" by (metis prod_cases4)
  have "\<forall>d \<in> set depends. uid_map snap d = None"
    using assms i(1) e uid_map_dom [of snap] by (metis (mono_tags, lifting) case_prodD domIff nth_mem)
  then show "gt_parents tx = []"
    using nth_snapshot_to_gbt [OF i(1) e] i(2) by (simp add: List.map_filter_def filter_empty_conv)
qed

lemma join_rates_enumerate:
  assumes "\<And>i. i < length snap \<Longrightarrow> rates ((k + i) mod 2 ^ 32) = Some (g (snap ! i))"
  shows "List.map_filter (\<lambda>(uid, (_, _, weight, _)). map_option (\<lambda>r. (r, weight)) (rates (uid mod 2 ^ 32)))
      (List.enumerate k snap) = map (\<lambda>e. (g e, fst (snd (snd e)))) snap"
  using assms
proof (induction snap arbitrary: k)
  case (Cons e snap)
  obtain t f w ds where e: "e = (t, f, w, ds)" by (metis prod_cases4)
  have "rates ((Suc k + i) mod 2 ^ 32) = Some (g (snap ! i))" if "i < length snap" for i
    using Cons.prems [of "Suc i"] that by simp
  from Cons.IH [OF this] Cons.prems [of 0] show ?case by (simp add: List.map_filter_simps e)
qed (simp add: List.map_filter_simps)

lemma join_rates_all:
  assumes "length snap < 2 ^ 32" "\<And>i. i < length snap \<Longrightarrow> rates i = Some (g (snap ! i))"
  shows "join_rates rates snap = map (\<lambda>e. (g e, fst (snd (snd e)))) snap"
  unfolding join_rates_def using assms by (intro join_rates_enumerate) simp

end
