(* ===== verification/Fees_Props.thy ===== *)
theory Fees_Props
  imports Fees
begin

text \<open>
  The correctness theorems of the fee tiers (\<open>fees.rs\<close>), from a rate histogram and from a snapshot.
\<close>

text \<open>The depth thresholds, in weight units.\<close>

lemma tier_thresholds:
  "unat (u64_sat_mul FASTEST_DEPTH TIER_BLOCK_WEIGHT) = 3996000"
  "unat (u64_sat_mul HALF_HOUR_DEPTH TIER_BLOCK_WEIGHT) = 11988000"
  "unat (u64_sat_mul HOUR_DEPTH TIER_BLOCK_WEIGHT) = 23976000"
  "unat (u64_sat_mul ECONOMY_DEPTH TIER_BLOCK_WEIGHT) = 31968000"
  by code_simp+

text \<open>The recommended tiers are monotone in the depth and floored at the relay minimum, for every
  list of rates and weights (also where the cumulative weight would wrap around).\<close>

theorem tiers_monotone:
  "fe_within_3_blocks (recommended_tiers rws m now) \<le> fe_next_block (recommended_tiers rws m now) \<and>
   fe_within_6_blocks (recommended_tiers rws m now) \<le> fe_within_3_blocks (recommended_tiers rws m now) \<and>
   fe_horizon (recommended_tiers rws m now) \<le> fe_within_6_blocks (recommended_tiers rws m now) \<and>
   m \<le> fe_horizon (recommended_tiers rws m now) \<and>
   fe_relay_floor (recommended_tiers rws m now) = m \<and> fe_computed_at (recommended_tiers rws m now) = now"
  using tier_scan_floor
  by (auto simp: recommended_tiers_def Let_def tier_at_depth_def FASTEST_DEPTH_def HALF_HOUR_DEPTH_def
      HOUR_DEPTH_def ECONOMY_DEPTH_def MAX_BLOCKS_def tier_at_depth_antimono [OF _ sorted_desc_key, unfolded tier_at_depth_def])

text \<open>C28. The next-block tier is read off the weight histogram: it is the relay floor when the mempool
  weighs less than one block (3,996,000 weight units), and otherwise the rate \<open>r\<close> of one of the
  transactions, or the floor if that is higher, such that the transactions above \<open>r\<close> fit in less than
  a block and those at or above \<open>r\<close> fill it.  The horizon tier is the same for eight blocks.\<close>

theorem tiers_histogram:
  assumes "weight_of rws < 2 ^ 64"
  shows "(if weight_of rws < 3996000 then fe_next_block (recommended_tiers rws m now) = m
          else \<exists>(r, w) \<in> set rws. fe_next_block (recommended_tiers rws m now) = max r m \<and>
            weight_above rws r < 3996000 \<and> 3996000 \<le> weight_at_least rws r) \<and>
         (if weight_of rws < 31968000 then fe_horizon (recommended_tiers rws m now) = m
          else \<exists>(r, w) \<in> set rws. fe_horizon (recommended_tiers rws m now) = max r m \<and>
            weight_above rws r < 31968000 \<and> 31968000 \<le> weight_at_least rws r)"
  using tier_at_depth_spec [OF assms, of FASTEST_DEPTH] tier_at_depth_spec [OF assms, of ECONOMY_DEPTH]
  by (fastforce simp: recommended_tiers_def tier_thresholds Let_def not_less)

lemma tiers_histogram_witness:
  "\<exists>(r, w) \<in> {(12, 3000000 :: u32), (7, 2000000)}.
     fe_next_block (recommended_tiers [(7, 2000000), (12, 3000000)] 1 0) = max r 1 \<and>
     weight_above [(7, 2000000), (12, 3000000)] r < 3996000 \<and>
     3996000 \<le> weight_at_least [(7, 2000000), (12, 3000000)] r"
  using tiers_histogram [of "[(7, 2000000), (12, 3000000)]" 1 0] by auto

text \<open>C29. The tiers do not depend on the order in which the mempool map is iterated.\<close>

theorem tiers_order_independent:
  assumes "mset rws = mset rws'" "weight_of rws < 2 ^ 64"
  shows "recommended_tiers rws m now = recommended_tiers rws' m now"
  using tier_at_depth_perm [OF assms]
  by (simp add: recommended_tiers_def Let_def tier_thresholds)

lemma tiers_order_independent_witness:
  "recommended_tiers [(7, 2000000), (12, 3000000)] 1 0 = recommended_tiers [(12, 3000000), (7, 2000000)] 1 0"
  by (rule tiers_order_independent) simp_all

text \<open>The adapter always gives the projection a well-formed input, so the whole pipeline returns an
  estimate for every snapshot of fewer than \<open>2 ^ 32\<close> entries, with missing, duplicate or cyclic
  \<open>depends\<close> alike.\<close>

theorem compute_estimate_total:
  assumes "length snap < 2 ^ 32"
  shows "wf_txs (snapshot_to_gbt snap) \<and> (\<exists>est. compute_estimate snap m clock = Some (Inr est))"
  using snapshot_wf_txs [OF assms] compute_estimate_result [OF assms] by blast

lemma compute_estimate_total_witness:
  "wf_txs (snapshot_to_gbt [(Txid 1, 250, 1000, [Txid 1, Txid 9])]) \<and>
   (\<exists>est. compute_estimate [(Txid 1, 250, 1000, [Txid 1, Txid 9])] 1 None = Some (Inr est))"
  by (rule compute_estimate_total) simp

text \<open>C30. The adapter resolves \<open>depends\<close> to the entries of the snapshot: uids are positions, and with
  distinct txids the parents of an entry are exactly the entries it names.\<close>

theorem snapshot_to_gbt_parents:
  assumes "length snap < 2 ^ 32" "distinct (map fst snap)" "i < length snap"
  shows "gt_uid (snapshot_to_gbt snap ! i) = i \<and>
    set (gt_parents (snapshot_to_gbt snap ! i)) =
      {j. j < length snap \<and> fst (snap ! j) \<in> set (snd (snd (snd (snap ! i))))}"
proof -
  have "gt_uid (snapshot_to_gbt snap ! i) = i"
    using snapshot_wf_txs [OF assms(1)] assms(3) unfolding wf_txs_def length_snapshot_to_gbt by blast
  then show ?thesis using snapshot_parents [OF assms] by blast
qed

definition dep_snapshot :: snapshot where
  "dep_snapshot = [(Txid 5, 1, 4, []), (Txid 6, 1, 4, [Txid 5, Txid 7])]"

lemma snapshot_to_gbt_parents_witness:
  "gt_uid (snapshot_to_gbt dep_snapshot ! 1) = 1 \<and>
   set (gt_parents (snapshot_to_gbt dep_snapshot ! 1)) =
     {j. j < length dep_snapshot \<and> fst (dep_snapshot ! j) \<in> set (snd (snd (snd (dep_snapshot ! 1))))}"
  by (rule snapshot_to_gbt_parents) (simp_all add: dep_snapshot_def)

text \<open>C31. When no entry depends on another entry of the snapshot, the estimate is the histogram of the
  transactions' own fee rates: no entry is left out and none is re-rated.\<close>

theorem compute_estimate_flat:
  assumes "length snap < 2 ^ 32" "\<forall>(t, f, w, ds) \<in> set snap. \<forall>d \<in> set ds. d \<notin> fst ` set snap"
  shows "compute_estimate snap m clock =
    Some (Inr (recommended_tiers (map (\<lambda>(t, f, w, ds). (rate f (ucast w), w)) snap) m (now_unix clock)))"
proof -
  obtain p where p: "project (snapshot_to_gbt snap) = Some (Inr p)"
      "\<forall>u < length snap. pj_rates p u =
        Some (rate (gt_fee (snapshot_to_gbt snap ! u)) (ucast (gt_weight (snapshot_to_gbt snap ! u))))"
    using project_flat [OF snapshot_wf_txs [OF assms(1)] snapshot_no_parents [OF assms(2)]]
    unfolding project_def length_snapshot_to_gbt by blast
  have "pj_rates p i = Some ((\<lambda>(t, f, w, ds). rate f (ucast w)) (snap ! i))" if "i < length snap" for i
  proof -
    obtain t f w ds where "snap ! i = (t, f, w, ds)" by (metis prod_cases4)
    with nth_snapshot_to_gbt [OF that] p(2) that show ?thesis by simp
  qed
  from join_rates_all [OF assms(1), where rates = "pj_rates p" and g = "\<lambda>(t, f, w, ds). rate f (ucast w)", OF this]
  have "join_rates (pj_rates p) snap = map (\<lambda>(t, f, w, ds). (rate f (ucast w), w)) snap"
    by (simp add: case_prod_beta')
  then show ?thesis using p(1) by (simp add: compute_estimate_def)
qed

lemma compute_estimate_flat_witness:
  "compute_estimate [(Txid 5, 1000, 800, []), (Txid 6, 500, 400, [Txid 7])] 1 (Some 9) =
   Some (Inr (recommended_tiers [(rate 1000 800, 800), (rate 500 400, 400)] 1 9))"
  by (subst compute_estimate_flat) (simp_all add: now_unix_def)

end
