(* ===== verification/Rpc.thy ===== *)
theory Rpc
  imports F64
begin

text \<open>
  The JSON-RPC client (\<open>rpc.rs\<close>): its types, the classification of a response by \<open>call\<close>, the bounded
  body reader, credentials and reconnection.  Strings are lists of Unicode scalar values (\<open>ustring\<close>).
  The crates the file only calls are arguments: \<open>net\<close> is the HTTP exchange of \<open>reqwest\<close> (its answer
  or a transport error), \<open>envelope\<close> is \<open>serde_json::from_slice\<close> at the type \<open>RpcResponse\<close>, \<open>decode\<close> is
  \<open>serde_json::from_value\<close>, \<open>lossy\<close> is \<open>String::from_utf8_lossy\<close>, \<open>read_file\<close> is \<open>fs::read_to_string\<close>
  and \<open>build\<close> is the client builder.
\<close>

type_synonym ustring = "nat list"
type_synonym byte = "8 word"

definition ustr :: "string \<Rightarrow> ustring" where
  "ustr s = map of_char s"

lemma ustr_eq [simp]: "ustr a = ustr b \<longleftrightarrow> a = b"
  unfolding ustr_def by (rule inj_map_eq_map) (simp add: inj_def)

subsection \<open>Limits\<close>

definition MAX_BODY_CONTROL :: usize where "MAX_BODY_CONTROL = 16 * 1024 * 1024"
definition MAX_BODY_TXIDS :: usize where "MAX_BODY_TXIDS = 64 * 1024 * 1024"
definition MAX_BODY_VERBOSE :: usize where "MAX_BODY_VERBOSE = 512 * 1024 * 1024"
definition RPC_INVALID_ADDRESS_OR_KEY :: int where "RPC_INVALID_ADDRESS_OR_KEY = - 5"
definition MAX_ERR_BODY_LEN :: usize where "MAX_ERR_BODY_LEN = 512"

subsection \<open>Configuration and errors\<close>

datatype rpc_auth = Cookie ustring | UserPass ustring ustring

record rpc_config =
  rc_url :: ustring
  rc_auth :: "rpc_auth option"
  rc_timeout :: nat

datatype auth = BasicAuth ustring ustring | NoAuth

datatype rpc_error =
    HttpError ustring
  | AuthError
  | HttpStatus nat ustring
  | RpcErr int ustring
  | BodyTooLarge usize
  | DecodeError ustring

text \<open>The \<open>anyhow\<close> errors of the credential and client set-up.\<close>

datatype setup_error = FileError ustring | CookieEmpty ustring | CookieMalformed ustring | ClientError ustring

definition is_reconnectable :: "rpc_error \<Rightarrow> bool" where
  "is_reconnectable e =
     (case e of AuthError \<Rightarrow> True | HttpError _ \<Rightarrow> True | HttpStatus _ _ \<Rightarrow> True | _ \<Rightarrow> False)"

subsection \<open>What the node sends\<close>

text \<open>\<open>serde_json::Value\<close>; a number is an integer or a (finite) double.\<close>

datatype json = JNull | JBool bool | JNum int | JFloat f64 | JString ustring | JArray "json list"
  | JObject "(ustring \<times> json) list"

record blockchain_info =
  bi_chain :: string
  bi_blocks :: u64

record mempool_info =
  mi_loaded :: "bool option"
  mi_mempoolminfee :: u64

record mempool_entry_fees =
  ef_base :: u64
  ef_ancestor :: u64
  ef_descendant :: u64

record mempool_entry =
  me_vsize :: u64
  me_weight :: "u64 option"
  me_depends :: "txid list"
  me_fees :: mempool_entry_fees
  me_ancestorsize :: u64
  me_descendantsize :: u64
  me_time :: "u64 option"

record rpc_response_error =
  re_code :: int
  re_message :: ustring

record rpc_response =
  rr_result :: json
  rr_error :: "rpc_response_error option"

text \<open>An HTTP response: the status, the declared length and the body as it is streamed, chunk by chunk,
  a transport error ending it.\<close>

record http_response =
  hr_status :: nat
  hr_content_length :: "nat option"
  hr_chunks :: "(ustring + byte list) list"

record http_request =
  hq_url :: ustring
  hq_body :: json
  hq_basic_auth :: "(ustring \<times> ustring) option"

subsection \<open>Bounded bodies\<close>

fun read_chunks :: "usize \<Rightarrow> byte list \<Rightarrow> (ustring + byte list) list \<Rightarrow> rpc_error + byte list" where
  "read_chunks max_body buf [] = Inr buf"
| "read_chunks max_body buf (Inl e # _) = Inl (HttpError e)"
| "read_chunks max_body buf (Inr chunk # rest) =
     (if max_body < length buf + length chunk then Inl (BodyTooLarge max_body)
      else read_chunks max_body (buf @ chunk) rest)"

definition read_body_bounded :: "http_response \<Rightarrow> usize \<Rightarrow> rpc_error + byte list" where
  "read_body_bounded resp max_body =
     (case hr_content_length resp of
        Some len \<Rightarrow> if max_body < len then Inl (BodyTooLarge max_body)
          else read_chunks max_body [] (hr_chunks resp)
      | None \<Rightarrow> read_chunks max_body [] (hr_chunks resp))"

definition ellipsis :: nat where "ellipsis = 0x2026"

definition truncate_str :: "ustring \<Rightarrow> usize \<Rightarrow> ustring" where
  "truncate_str s n = (if length s \<le> n then s else take n s @ [ellipsis])"

subsection \<open>Calls\<close>

definition is_success :: "nat \<Rightarrow> bool" where
  "is_success status \<longleftrightarrow> 200 \<le> status \<and> status < 300"

definition request_body :: "string \<Rightarrow> json \<Rightarrow> json" where
  "request_body method params = JObject
     [(ustr ''jsonrpc'', JString (ustr ''1.0'')), (ustr ''id'', JNum 0),
      (ustr ''method'', JString (ustr method)), (ustr ''params'', params)]"

text \<open>\<open>call\<close> after the response headers: the credential of the request, then the classification.\<close>

definition classify ::
  "(byte list \<Rightarrow> ustring + rpc_response) \<Rightarrow> (json \<Rightarrow> ustring + 'a) \<Rightarrow> (byte list \<Rightarrow> ustring)
     \<Rightarrow> http_response \<Rightarrow> usize \<Rightarrow> rpc_error + 'a" where
  "classify envelope decode lossy resp max_body =
     (if hr_status resp = 401 \<or> hr_status resp = 403 then Inl AuthError
      else case read_body_bounded resp max_body of
        Inl e \<Rightarrow> Inl e
      | Inr bytes \<Rightarrow>
          (case envelope bytes of
             Inr parsed \<Rightarrow>
               (case rr_error parsed of
                  Some err \<Rightarrow> Inl (RpcErr (re_code err) (re_message err))
                | None \<Rightarrow>
                    (case decode (rr_result parsed) of
                       Inl e \<Rightarrow> Inl (DecodeError e)
                     | Inr v \<Rightarrow> Inr v))
           | Inl decode_err \<Rightarrow>
               if \<not> is_success (hr_status resp)
               then Inl (HttpStatus (hr_status resp) (truncate_str (lossy bytes) MAX_ERR_BODY_LEN))
               else Inl (DecodeError decode_err)))"

record 'c rpc =
  rpc_http :: 'c
  rpc_url :: ustring
  rpc_auth :: auth
  rpc_cfg :: rpc_config

definition call ::
  "('c \<Rightarrow> http_request \<Rightarrow> ustring + http_response) \<Rightarrow> (byte list \<Rightarrow> ustring + rpc_response)
     \<Rightarrow> (json \<Rightarrow> ustring + 'a) \<Rightarrow> (byte list \<Rightarrow> ustring) \<Rightarrow> 'c rpc \<Rightarrow> string \<Rightarrow> json \<Rightarrow> usize \<Rightarrow> rpc_error + 'a" where
  "call net envelope decode lossy rpc method params max_body =
     (let req = \<lparr>hq_url = rpc_url rpc, hq_body = request_body method params,
                 hq_basic_auth = (case rpc_auth rpc of BasicAuth user pass \<Rightarrow> Some (user, pass) | NoAuth \<Rightarrow> None)\<rparr>
      in case net (rpc_http rpc) req of
           Inl e \<Rightarrow> Inl (HttpError e)
         | Inr resp \<Rightarrow> classify envelope decode lossy resp max_body)"

text \<open>The typed methods are \<open>call\<close> at a method name, parameters and a body limit; \<open>do_call\<close> stands for
  \<open>call\<close> with its libraries applied.\<close>

definition network :: "(string \<Rightarrow> json \<Rightarrow> usize \<Rightarrow> rpc_error + blockchain_info) \<Rightarrow> rpc_error + string" where
  "network do_call = res_map bi_chain (do_call ''getblockchaininfo'' (JArray []) MAX_BODY_CONTROL)"

definition tip_height :: "(string \<Rightarrow> json \<Rightarrow> usize \<Rightarrow> rpc_error + blockchain_info) \<Rightarrow> rpc_error + u64" where
  "tip_height do_call = res_map bi_blocks (do_call ''getblockchaininfo'' (JArray []) MAX_BODY_CONTROL)"

definition mempool_info_call ::
  "(string \<Rightarrow> json \<Rightarrow> usize \<Rightarrow> rpc_error + mempool_info) \<Rightarrow> rpc_error + mempool_info" where
  "mempool_info_call do_call = do_call ''getmempoolinfo'' (JArray []) MAX_BODY_CONTROL"

definition raw_mempool_txids ::
  "(string \<Rightarrow> json \<Rightarrow> usize \<Rightarrow> rpc_error + txid list) \<Rightarrow> rpc_error + txid list" where
  "raw_mempool_txids do_call = do_call ''getrawmempool'' (JArray [JBool False]) MAX_BODY_TXIDS"

text \<open>The decoded \<open>HashMap\<close> is an association list with distinct keys.\<close>

definition raw_mempool_verbose ::
  "(string \<Rightarrow> json \<Rightarrow> usize \<Rightarrow> rpc_error + (txid \<times> mempool_entry) list) \<Rightarrow> rpc_error + (txid \<times> mempool_entry) list" where
  "raw_mempool_verbose do_call = do_call ''getrawmempool'' (JArray [JBool True]) MAX_BODY_VERBOSE"

definition mempool_entry_call ::
  "(txid \<Rightarrow> ustring) \<Rightarrow> (string \<Rightarrow> json \<Rightarrow> usize \<Rightarrow> rpc_error + mempool_entry) \<Rightarrow> txid
     \<Rightarrow> rpc_error + mempool_entry option" where
  "mempool_entry_call show_txid do_call t =
     (case do_call ''getmempoolentry'' (JArray [JString (show_txid t)]) MAX_BODY_CONTROL of
        Inr entry \<Rightarrow> Inr (Some entry)
      | Inl (RpcErr code message) \<Rightarrow>
          if code = RPC_INVALID_ADDRESS_OR_KEY then Inr None else Inl (RpcErr code message)
      | Inl e \<Rightarrow> Inl e)"

subsection \<open>Credentials and reconnection\<close>

text \<open>The first item of \<open>str::lines\<close>: up to the first line feed, without the carriage return before it.\<close>

definition strip_cr :: "ustring \<Rightarrow> ustring" where
  "strip_cr s = (if s \<noteq> [] \<and> last s = 13 then butlast s else s)"

definition first_line :: "ustring \<Rightarrow> ustring option" where
  "first_line s =
     (if s = [] then None
      else let line = takeWhile (\<lambda>c. c \<noteq> 10) s
           in Some (if 10 \<in> set s then strip_cr line else line))"

definition colon :: nat where "colon = 58"

definition resolve_auth :: "(ustring \<Rightarrow> ustring + ustring) \<Rightarrow> rpc_config \<Rightarrow> setup_error + auth" where
  "resolve_auth read_file cfg =
     (case rc_auth cfg of
        Some (Cookie path) \<Rightarrow>
          (case read_file path of
             Inl e \<Rightarrow> Inl (FileError e)
           | Inr contents \<Rightarrow>
               (case first_line contents of
                  None \<Rightarrow> Inl (CookieEmpty path)
                | Some line \<Rightarrow>
                    if colon \<in> set line
                    then Inr (BasicAuth (takeWhile (\<lambda>c. c \<noteq> colon) line) (tl (dropWhile (\<lambda>c. c \<noteq> colon) line)))
                    else Inl (CookieMalformed path)))
      | Some (UserPass user pass) \<Rightarrow> Inr (BasicAuth user pass)
      | None \<Rightarrow> Inr NoAuth)"

definition connect ::
  "(ustring \<Rightarrow> ustring + ustring) \<Rightarrow> (nat \<Rightarrow> ustring + 'c) \<Rightarrow> rpc_config \<Rightarrow> setup_error + 'c rpc" where
  "connect read_file build cfg =
     (case build (rc_timeout cfg) of
        Inl e \<Rightarrow> Inl (ClientError e)
      | Inr http \<Rightarrow>
          (case resolve_auth read_file cfg of
             Inl e \<Rightarrow> Inl e
           | Inr a \<Rightarrow> Inr \<lparr>rpc_http = http, rpc_url = rc_url cfg, rpc_auth = a, rpc_cfg = cfg\<rparr>))"

text \<open>The result and the client after the call: \<open>&mut self\<close> is assigned last.\<close>

definition reconnect ::
  "(ustring \<Rightarrow> ustring + ustring) \<Rightarrow> (nat \<Rightarrow> ustring + 'c) \<Rightarrow> 'c rpc \<Rightarrow> (setup_error + unit) \<times> 'c rpc" where
  "reconnect read_file build rpc =
     (case resolve_auth read_file (rpc_cfg rpc) of
        Inl e \<Rightarrow> (Inl e, rpc)
      | Inr a \<Rightarrow>
          (case build (rc_timeout (rpc_cfg rpc)) of
             Inl e \<Rightarrow> (Inl (ClientError e), rpc)
           | Inr http \<Rightarrow> (Inr (), rpc\<lparr>rpc_http := http, rpc_auth := a\<rparr>)))"

subsection \<open>Lemmas\<close>

lemma read_chunks_Inr:
  "length buf \<le> max_body \<Longrightarrow>
   read_chunks max_body buf cs = Inr b \<longleftrightarrow>
     (\<exists>bs. cs = map Inr bs \<and> b = buf @ concat bs \<and> length b \<le> max_body)"
proof (induction max_body buf cs arbitrary: b rule: read_chunks.induct)
  case (3 max_body buf chunk rest)
  show ?case
  proof (cases "max_body < length buf + length chunk")
    case False
    then have "read_chunks max_body buf (Inr chunk # rest) = Inr b \<longleftrightarrow>
        (\<exists>bs. rest = map Inr bs \<and> b = (buf @ chunk) @ concat bs \<and> length b \<le> max_body)"
      using "3.IH" by simp
    also have "\<dots> \<longleftrightarrow> (\<exists>bs. Inr chunk # rest = map Inr bs \<and> b = buf @ concat bs \<and> length b \<le> max_body)"
      by (auto simp: Cons_eq_map_conv)
    finally show ?thesis .
  qed (auto simp: Cons_eq_map_conv)
qed (auto simp: Cons_eq_map_conv)

lemma read_chunks_errors:
  "read_chunks max_body buf cs = Inl e \<Longrightarrow> e = BodyTooLarge max_body \<or> (\<exists>m. e = HttpError m \<and> Inl m \<in> set cs)"
  by (induction max_body buf cs rule: read_chunks.induct) (auto split: if_splits)

lemma read_body_bounded_Inr:
  "read_body_bounded resp max_body = Inr b \<longleftrightarrow>
     (\<exists>bs. hr_chunks resp = map Inr bs \<and> b = concat bs \<and> length b \<le> max_body) \<and>
     (\<forall>len. hr_content_length resp = Some len \<longrightarrow> len \<le> max_body)"
  by (auto simp: read_body_bounded_def read_chunks_Inr not_less split: option.split)

lemma resolve_auth_cookie_line:
  assumes "rc_auth cfg = Some (Cookie path)" "read_file path = Inr (line @ eol @ rest)"
    and "eol = [10] \<or> eol = [13, 10] \<or> eol = [] \<and> rest = []" "10 \<notin> set line" "line \<noteq> []"
    and "eol = [10] \<longrightarrow> last line \<noteq> 13" "line = user @ colon # pass" "colon \<notin> set user"
  shows "resolve_auth read_file cfg = Inr (BasicAuth user pass)"
proof -
  have tw: "takeWhile (\<lambda>c. c \<noteq> 10) (l @ 10 # xs) = l" if "10 \<notin> set l" for l and xs :: ustring
    using that by (induction l) auto
  have "takeWhile (\<lambda>c. c \<noteq> 10) line = line" using assms(4) by (auto simp: takeWhile_eq_all_conv)
  note line = this
  have "first_line (line @ eol @ rest) = Some line"
    using assms(3)
  proof (elim disjE conjE)
    assume "eol = [10]"
    then show ?thesis using assms(5,6) tw [OF assms(4), of rest] by (simp add: first_line_def strip_cr_def)
  next
    assume "eol = [13, 10]"
    then show ?thesis using assms(4) tw [of "line @ [13]" rest] by (simp add: first_line_def strip_cr_def)
  next
    assume "eol = []" "rest = []"
    then show ?thesis using assms(4,5) line by (simp add: first_line_def)
  qed
  moreover have "takeWhile (\<lambda>c. c \<noteq> colon) line = user" "dropWhile (\<lambda>c. c \<noteq> colon) line = colon # pass"
    using assms(8) unfolding assms(7) by (induction user) auto
  moreover have "colon \<in> set line" using assms(7) by simp
  ultimately show ?thesis using assms(1,2) by (simp add: resolve_auth_def)
qed

subsection \<open>Properties\<close>

text \<open>The two outcomes of the body reader.\<close>

lemma read_body_cases:
  "(\<exists>bs. read_body_bounded resp cap = Inr (concat bs) \<and> hr_chunks resp = map Inr bs \<and> length (concat bs) \<le> cap) \<or>
   (\<exists>e. read_body_bounded resp cap = Inl e \<and> (e = BodyTooLarge cap \<or> (\<exists>m. e = HttpError m \<and> Inl m \<in> set (hr_chunks resp))))"
proof (cases "read_body_bounded resp cap")
  case (Inl e)
  then have "e = BodyTooLarge cap \<or> (\<exists>m. e = HttpError m \<and> Inl m \<in> set (hr_chunks resp))"
    by (auto simp: read_body_bounded_def dest: read_chunks_errors split: option.splits if_splits)
  with Inl show ?thesis by blast
next
  case (Inr b)
  with read_body_bounded_Inr [of resp cap b] show ?thesis by auto
qed

text \<open>C35. A value returned by \<open>call\<close> was decoded from a body no longer than the cap of the call, whatever
  length the peer declared or streamed.  And of any response the body reader yields either the whole body, no longer
  than the cap, or an error, which is the cap or the transport error at which the stream broke off.\<close>

theorem call_body_bounded:
  assumes "call net envelope decode lossy rpc method params max_body = Inr v"
  shows "(\<exists>req resp bs. net (rpc_http rpc) req = Inr resp \<and> hr_chunks resp = map Inr bs \<and>
      length (concat bs) \<le> max_body \<and> (\<forall>len. hr_content_length resp = Some len \<longrightarrow> len \<le> max_body) \<and>
      (\<exists>parsed. envelope (concat bs) = Inr parsed \<and> rr_error parsed = None \<and> decode (rr_result parsed) = Inr v)) \<and>
    (\<forall>resp cap.
      (\<exists>bs. read_body_bounded resp cap = Inr (concat bs) \<and> hr_chunks resp = map Inr bs \<and> length (concat bs) \<le> cap) \<or>
      (\<exists>e. read_body_bounded resp cap = Inl e \<and>
        (e = BodyTooLarge cap \<or> (\<exists>m. e = HttpError m \<and> Inl m \<in> set (hr_chunks resp)))))"
proof (intro conjI allI read_body_cases)
  show "\<exists>req resp bs. net (rpc_http rpc) req = Inr resp \<and> hr_chunks resp = map Inr bs \<and>
      length (concat bs) \<le> max_body \<and> (\<forall>len. hr_content_length resp = Some len \<longrightarrow> len \<le> max_body) \<and>
      (\<exists>parsed. envelope (concat bs) = Inr parsed \<and> rr_error parsed = None \<and> decode (rr_result parsed) = Inr v)"
    using assms
    by (auto simp: call_def Let_def classify_def read_body_bounded_Inr split: sum.splits if_splits option.splits)
qed

definition pong :: "unit \<Rightarrow> http_request \<Rightarrow> ustring + http_response" where
  "pong c req = Inr \<lparr>hr_status = 500, hr_content_length = None, hr_chunks = [Inr [1], Inr [2]]\<rparr>"

definition pong_envelope :: "byte list \<Rightarrow> ustring + rpc_response" where
  "pong_envelope bs = (if bs = [1, 2] then Inr \<lparr>rr_result = JNum 7, rr_error = None\<rparr> else Inl [])"

definition decode_int :: "json \<Rightarrow> ustring + int" where
  "decode_int j = (case j of JNum n \<Rightarrow> Inr n | _ \<Rightarrow> Inl [])"

definition some_rpc :: "unit rpc" where
  "some_rpc = \<lparr>rpc_http = (), rpc_url = ustr ''http://a'', rpc_auth = NoAuth,
    rpc_cfg = \<lparr>rc_url = ustr ''http://a'', rc_auth = Some (Cookie (ustr ''f'')), rc_timeout = 30\<rparr>\<rparr>"

lemma call_body_bounded_witness:
  "(\<exists>req resp bs. pong () req = Inr resp \<and> hr_chunks resp = map Inr bs \<and>
      length (concat bs) \<le> 2 \<and> (\<forall>len. hr_content_length resp = Some len \<longrightarrow> len \<le> 2) \<and>
      (\<exists>parsed. pong_envelope (concat bs) = Inr parsed \<and> rr_error parsed = None \<and> decode_int (rr_result parsed) = Inr 7)) \<and>
    read_body_bounded \<lparr>hr_status = 200, hr_content_length = None, hr_chunks = [Inr [1], Inr [2]]\<rparr> 1 = Inl (BodyTooLarge 1)"
proof -
  have "call pong pong_envelope decode_int (\<lambda>_. []) some_rpc ''x'' (JArray []) 2 = Inr 7"
    by (simp add: call_def classify_def pong_def pong_envelope_def decode_int_def some_rpc_def read_body_bounded_def Let_def)
  note both = call_body_bounded [OF this]
  from both [THEN conjunct2, rule_format, of "\<lparr>hr_status = 200, hr_content_length = None, hr_chunks = [Inr [1], Inr [2]]\<rparr>" 1]
  have "read_body_bounded \<lparr>hr_status = 200, hr_content_length = None, hr_chunks = [Inr [1], Inr [2]]\<rparr> 1 = Inl (BodyTooLarge 1)"
    by (auto simp: read_body_bounded_def)
  with both [THEN conjunct1] show ?thesis by (simp add: some_rpc_def)
qed

text \<open>C36. When a transaction vanished between listing and fetch, the node answers with error code -5, as
  an HTTP 500 in practice: for any status other than 401 and 403, \<open>mempool_entry\<close> turns a complete
  body with that code, within the cap and with or without a declared length within the cap, into \<open>Ok(None)\<close>, and
  it never returns -5 as an error.\<close>

theorem mempool_entry_vanished:
  assumes "hr_status resp \<notin> {401, 403}" "\<And>len. hr_content_length resp = Some len \<Longrightarrow> len \<le> MAX_BODY_CONTROL"
    and "hr_chunks resp = map Inr bs"
    and "length (concat bs) \<le> MAX_BODY_CONTROL" "envelope (concat bs) = Inr parsed"
    and "rr_error parsed = Some \<lparr>re_code = - 5, re_message = msg\<rparr>" "\<And>c req. net c req = Inr resp"
  shows "mempool_entry_call show_txid (call net envelope decode lossy rpc) t = Inr None \<and>
    (\<forall>msg'. mempool_entry_call show_txid any_call t \<noteq> Inl (RpcErr (- 5) msg'))"
proof -
  have "read_body_bounded resp MAX_BODY_CONTROL = Inr (concat bs)"
    using assms(2-4) by (simp add: read_body_bounded_Inr)
  then have "call net envelope decode lossy rpc m ps MAX_BODY_CONTROL = Inl (RpcErr (- 5) msg)" for m ps
    using assms(1,5,6,7) by (simp add: call_def classify_def Let_def)
  moreover have "mempool_entry_call show_txid any_call t \<noteq> Inl (RpcErr (- 5) msg')" for msg'
    by (simp add: mempool_entry_call_def RPC_INVALID_ADDRESS_OR_KEY_def split: sum.splits rpc_error.splits)
  ultimately show ?thesis
    by (simp add: mempool_entry_call_def RPC_INVALID_ADDRESS_OR_KEY_def)
qed

definition gone_response :: http_response where
  "gone_response = \<lparr>hr_status = 500, hr_content_length = Some 1, hr_chunks = [Inr [1]]\<rparr>"

lemma mempool_entry_vanished_witness:
  "mempool_entry_call (\<lambda>_. []) (call (\<lambda>_ _. Inr gone_response)
     (\<lambda>_. Inr \<lparr>rr_result = JNull, rr_error = Some \<lparr>re_code = - 5, re_message = []\<rparr>\<rparr>) (\<lambda>_. Inl []) (\<lambda>_. []) some_rpc)
     (Txid 1) = Inr None \<and>
   (\<forall>msg'. mempool_entry_call (\<lambda>_. []) (\<lambda>_ _ _. Inl (RpcErr (- 5) [])) (Txid 1) \<noteq> Inl (RpcErr (- 5) msg'))"
  by (rule mempool_entry_vanished [where resp = gone_response and bs = "[[1]]"
        and parsed = "\<lparr>rr_result = JNull, rr_error = Some \<lparr>re_code = - 5, re_message = []\<rparr>\<rparr>" and msg = "[]"])
    (simp_all add: gone_response_def MAX_BODY_CONTROL_def)

text \<open>A cookie file whose first line is \<open>user:password\<close> (the user without a colon) resolves to that
  user and password, whatever the line ending and whatever follows.\<close>

theorem cookie_roundtrip:
  assumes "rc_auth cfg = Some (Cookie path)"
    and "read_file path = Inr (user @ colon # pass @ eol @ rest)"
    and "eol = [10] \<or> eol = [13, 10] \<or> eol = [] \<and> rest = []"
    and "10 \<notin> set user" "colon \<notin> set user" "10 \<notin> set pass" "13 \<notin> set pass"
  shows "resolve_auth read_file cfg = Inr (BasicAuth user pass)"
proof (rule resolve_auth_cookie_line [OF assms(1), where line = "user @ colon # pass" and eol = eol and rest = rest])
  show "10 \<notin> set (user @ colon # pass)" using assms(4,6) by (simp add: colon_def)
  show "eol = [10] \<longrightarrow> last (user @ colon # pass) \<noteq> 13"
    using assms(7) by (cases pass rule: rev_cases) (auto simp: colon_def)
qed (use assms in simp_all)

lemma cookie_roundtrip_witness:
  "resolve_auth (\<lambda>_. Inr [97, 58, 98, 58, 99, 13, 10]) (rpc_cfg some_rpc) = Inr (BasicAuth [97] [98, 58, 99])"
  by (rule cookie_roundtrip [where path = "ustr ''f''" and eol = "[13, 10]" and rest = "[]"])
    (simp_all add: some_rpc_def colon_def)

text \<open>\<open>reconnect\<close> is all or nothing: on an error the client is unchanged; on success it is the client
  that \<open>connect\<close> would build now from the same configuration, with a freshly read cookie.\<close>

theorem reconnect_atomic:
  assumes "rpc_url rpc = rc_url (rpc_cfg rpc)"
  shows "case reconnect read_file build rpc of
      (Inl e, rpc') \<Rightarrow> rpc' = rpc \<and> (\<exists>e'. connect read_file build (rpc_cfg rpc) = Inl e')
    | (Inr _, rpc') \<Rightarrow> connect read_file build (rpc_cfg rpc) = Inr rpc'"
  using assms by (auto simp: reconnect_def connect_def split: sum.splits)

lemma reconnect_atomic_witness:
  "case reconnect (\<lambda>_. Inr (ustr ''u:p'')) (\<lambda>_. Inr ()) some_rpc of
      (Inl e, rpc') \<Rightarrow> rpc' = some_rpc \<and> (\<exists>e'. connect (\<lambda>_. Inr (ustr ''u:p'')) (\<lambda>_. Inr ()) (rpc_cfg some_rpc) = Inl e')
    | (Inr _, rpc') \<Rightarrow> connect (\<lambda>_. Inr (ustr ''u:p'')) (\<lambda>_. Inr ()) (rpc_cfg some_rpc) = Inr rpc'"
  by (rule reconnect_atomic) (simp add: some_rpc_def)

end
