(* ===== verification/Mempool.thy ===== *)
theory Mempool
  imports Rpc Fees "HOL-Library.AList"
begin

text \<open>
  The mempool cache (\<open>mempool.rs\<close>): the cached transaction and its conversion from a node entry, the
  shared state, and the difference between the node's txids and the cache.  A \<open>HashMap\<close> is an
  association list with distinct keys, whose order stands for the unspecified iteration order, and a
  \<open>HashSet\<close> is a distinct list; what the code relies on is the locale \<open>hash_map\<close>.
\<close>

subsection \<open>Hash maps\<close>

locale hash_map =
  fixes empty :: 'm
    and get :: "'m \<Rightarrow> 'k \<Rightarrow> 'v option"
    and put :: "'k \<Rightarrow> 'v \<Rightarrow> 'm \<Rightarrow> 'm"
    and del :: "'k \<Rightarrow> 'm \<Rightarrow> 'm"
    and keys :: "'m \<Rightarrow> 'k list"
    and ok :: "'m \<Rightarrow> bool"
  assumes ok_empty: "ok empty"
    and ok_put: "ok m \<Longrightarrow> ok (put k v m)"
    and ok_del: "ok m \<Longrightarrow> ok (del k m)"
    and get_empty: "get empty k = None"
    and get_put: "get (put k v m) k' = (if k' = k then Some v else get m k')"
    and get_del: "ok m \<Longrightarrow> get (del k m) k' = (if k' = k then None else get m k')"
    and set_keys: "set (keys m) = {k. get m k \<noteq> None}"
    and distinct_keys: "ok m \<Longrightarrow> distinct (keys m)"
begin

lemma ok_put_all: "ok m \<Longrightarrow> ok (fold (\<lambda>(k, v). put k v) kvs m)"
  by (induction kvs arbitrary: m) (auto simp: ok_put)

lemma ok_del_all: "ok m \<Longrightarrow> ok (fold del ks m)"
  by (induction ks arbitrary: m) (auto simp: ok_del)

lemma get_put_all:
  "get (fold (\<lambda>(k, v). put k v) kvs m) k = (case map_of (rev kvs) k of Some v \<Rightarrow> Some v | None \<Rightarrow> get m k)"
  by (induction kvs arbitrary: m) (auto simp: get_put map_add_def split: option.splits)

lemma get_del_all: "ok m \<Longrightarrow> get (fold del ks m) k = (if k \<in> set ks then None else get m k)"
  by (induction ks arbitrary: m) (auto simp: get_del ok_del)

lemma keys_put_all: "set (keys (fold (\<lambda>(k, v). put k v) kvs m)) = set (keys m) \<union> fst ` set kvs"
  by (induction kvs arbitrary: m) (auto simp: set_keys get_put)

lemma keys_del_all: "ok m \<Longrightarrow> set (keys (fold del ks m)) = set (keys m) - set ks"
  by (auto simp: set_keys get_del_all)

lemma length_keys: "ok m \<Longrightarrow> length (keys m) = card {k. get m k \<noteq> None}"
  using distinct_card [OF distinct_keys] by (metis set_keys)

end

definition al_get :: "('k \<times> 'v) list \<Rightarrow> 'k \<Rightarrow> 'v option" where "al_get = map_of"
definition al_keys :: "('k \<times> 'v) list \<Rightarrow> 'k list" where "al_keys m = map fst m"
definition al_ok :: "('k \<times> 'v) list \<Rightarrow> bool" where "al_ok m \<longleftrightarrow> distinct (map fst m)"

interpretation al: hash_map "[]" al_get AList.update AList.delete al_keys al_ok
proof unfold_locales
  fix m :: "('a \<times> 'b) list" and k k' :: 'a and v :: 'b
  show "al_ok m \<Longrightarrow> al_ok (AList.update k v m)" by (simp add: al_ok_def distinct_update)
  show "al_ok m \<Longrightarrow> al_ok (AList.delete k m)" by (simp add: al_ok_def distinct_delete)
  show "al_get (AList.update k v m) k' = (if k' = k then Some v else al_get m k')"
    by (simp add: al_get_def update_conv')
  show "al_ok m \<Longrightarrow> al_get (AList.delete k m) k' = (if k' = k then None else al_get m k')"
    by (simp add: al_get_def delete_conv')
  show "set (al_keys m) = {k. al_get m k \<noteq> None}"
    by (simp add: al_keys_def al_get_def map_of_eq_None_iff)
qed (simp_all add: al_ok_def al_get_def al_keys_def)

subsection \<open>Cached transactions\<close>

record mempool_tx =
  tx_vsize :: u32
  tx_weight :: u32
  tx_fee :: u64
  tx_depends :: "txid list"
  tx_ancestor_fee :: u64
  tx_ancestor_vsize :: u32
  tx_descendant_fee :: u64
  tx_descendant_vsize :: u32
  tx_first_seen :: u64

definition mempool_tx_from :: "mempool_entry \<Rightarrow> mempool_tx" where
  "mempool_tx_from e =
     (let vsize = u32_clamp (me_vsize e)
      in \<lparr>tx_vsize = vsize,
          tx_weight = (case me_weight e of Some w \<Rightarrow> u32_clamp w | None \<Rightarrow> u32_sat_mul vsize 4),
          tx_fee = ef_base (me_fees e),
          tx_depends = me_depends e,
          tx_ancestor_fee = ef_ancestor (me_fees e),
          tx_ancestor_vsize = u32_clamp (me_ancestorsize e),
          tx_descendant_fee = ef_descendant (me_fees e),
          tx_descendant_vsize = u32_clamp (me_descendantsize e),
          tx_first_seen = (case me_time e of Some t \<Rightarrow> t | None \<Rightarrow> 0)\<rparr>)"

definition min_fee_sat_vb :: "mempool_info \<Rightarrow> f64" where
  "min_fee_sat_vb info = f64_div (u64_as_f64 (mi_mempoolminfee info)) 1000"

subsection \<open>The shared state\<close>

text \<open>\<open>SystemTime\<close> is the number of nanoseconds since the Unix epoch, negative before it; the lock is the point where a state is published
  (theory Sync).\<close>

record mempool_state =
  ms_txs :: "(txid \<times> mempool_tx) list"
  ms_min_fee :: f64
  ms_tip_height :: u64
  ms_network :: string
  ms_caught_up :: bool
  ms_last_sync_ok :: "int option"
  ms_fee_estimate :: "fee_estimate option"

definition mempool_state_new :: "string \<Rightarrow> mempool_state" where
  "mempool_state_new net =
     \<lparr>ms_txs = [], ms_min_fee = 0, ms_tip_height = 0, ms_network = net,
      ms_caught_up = False, ms_last_sync_ok = None, ms_fee_estimate = None\<rparr>"

subsection \<open>Differences\<close>

record diff =
  df_new :: "txid list"
  df_gone :: "txid list"

definition compute_diff :: "txid list \<Rightarrow> txid list \<Rightarrow> diff" where
  "compute_diff cache_keys node_txids =
     \<lparr>df_new = filter (\<lambda>t. t \<notin> set cache_keys) node_txids,
      df_gone = filter (\<lambda>t. t \<notin> set node_txids) cache_keys\<rparr>"

lemma df_new_set [simp]: "set (df_new (compute_diff c n)) = set n - set c"
  by (auto simp: compute_diff_def)

lemma df_gone_set [simp]: "set (df_gone (compute_diff c n)) = set c - set n"
  by (auto simp: compute_diff_def)

lemma df_distinct: "distinct c \<Longrightarrow> distinct n \<Longrightarrow> distinct (df_new (compute_diff c n)) \<and> distinct (df_gone (compute_diff c n))"
  by (simp add: compute_diff_def)

subsection \<open>Properties\<close>

text \<open>The conversion of a node entry clamps sizes to 32 bits instead of wrapping them, and derives a
  missing weight as four times the size, saturating; an entry with a weight never ends up lighter
  than reported unless the report exceeds 32 bits.\<close>

theorem mempool_tx_from_clamps:
  "unat (tx_vsize (mempool_tx_from e)) = min (unat (me_vsize e)) (2 ^ 32 - 1) \<and>
   unat (tx_weight (mempool_tx_from e)) =
     (case me_weight e of Some w \<Rightarrow> min (unat w) (2 ^ 32 - 1) | None \<Rightarrow> min (4 * unat (me_vsize e)) (2 ^ 32 - 1)) \<and>
   unat (tx_ancestor_vsize (mempool_tx_from e)) = min (unat (me_ancestorsize e)) (2 ^ 32 - 1) \<and>
   unat (tx_descendant_vsize (mempool_tx_from e)) = min (unat (me_descendantsize e)) (2 ^ 32 - 1)"
  by (simp add: mempool_tx_from_def Let_def unat_u32_clamp unat_u32_sat_mul min_def split: option.split)

text \<open>Removing the departed txids and inserting an entry for every new one brings the cache keys to
  exactly the node's txids, and its size to the projected size.\<close>

theorem diff_reconciles:
  assumes "al_ok cache" "distinct node"
    and "map fst fetched = df_new (compute_diff (al_keys cache) node)"
  shows "set (al_keys (fold (\<lambda>(k, v). AList.update k v) fetched
      (fold AList.delete (df_gone (compute_diff (al_keys cache) node)) cache))) = set node \<and>
    length (al_keys (fold (\<lambda>(k, v). AList.update k v) fetched
      (fold AList.delete (df_gone (compute_diff (al_keys cache) node)) cache))) = length node"
proof -
  let ?m = "fold (\<lambda>(k, v). AList.update k v) fetched
      (fold AList.delete (df_gone (compute_diff (al_keys cache) node)) cache)"
  have f: "fst ` set fetched = set node - set (al_keys cache)"
    using arg_cong [OF assms(3), of set] by simp
  have k: "set (al_keys ?m) = set node"
    by (auto simp: al.keys_put_all al.keys_del_all [OF assms(1)] f)
  moreover have "distinct (al_keys ?m)"
    by (intro al.distinct_keys al.ok_put_all al.ok_del_all assms(1))
  ultimately show ?thesis using distinct_card [of "al_keys ?m"] distinct_card [OF assms(2)] by simp
qed

definition any_tx :: mempool_tx where
  "any_tx = mempool_tx_from \<lparr>me_vsize = 140, me_weight = None, me_depends = [],
     me_fees = \<lparr>ef_base = 1000, ef_ancestor = 1000, ef_descendant = 1000\<rparr>,
     me_ancestorsize = 140, me_descendantsize = 140, me_time = None\<rparr>"

lemma diff_reconciles_witness:
  "set (al_keys (fold (\<lambda>(k, v). AList.update k v) [(Txid 3, any_tx)]
      (fold AList.delete (df_gone (compute_diff (al_keys [(Txid 1, any_tx), (Txid 2, any_tx)]) [Txid 2, Txid 3]))
        [(Txid 1, any_tx), (Txid 2, any_tx)]))) = set [Txid 2, Txid 3] \<and>
    length (al_keys (fold (\<lambda>(k, v). AList.update k v) [(Txid 3, any_tx)]
      (fold AList.delete (df_gone (compute_diff (al_keys [(Txid 1, any_tx), (Txid 2, any_tx)]) [Txid 2, Txid 3]))
        [(Txid 1, any_tx), (Txid 2, any_tx)]))) = length [Txid 2, Txid 3]"
  by (rule diff_reconciles) (simp_all add: al_ok_def compute_diff_def al_keys_def)

end
