(* ===== verification/Decision.thy ===== *)
theory Decision
  imports Prelude
begin

text \<open>
  The pure decisions of the sync loop (\<open>sync/decision.rs\<close>).  Durations and instants are natural
  numbers of nanoseconds on one monotonic clock; \<open>Instant::duration_since\<close> saturates at zero.
\<close>

definition seconds :: "nat \<Rightarrow> nat" where "seconds n = n * 1000000000"

definition MASS_DROP_MIN_CACHE_SIZE :: usize where "MASS_DROP_MIN_CACHE_SIZE = 100"
definition MASS_DROP_INVERSE :: usize where "MASS_DROP_INVERSE = 5"
definition RESYNC_COOLDOWN :: nat where "RESYNC_COOLDOWN = seconds 60"

definition is_mass_drop :: "usize \<Rightarrow> usize \<Rightarrow> bool" where
  "is_mass_drop cache_len node_txid_count \<longleftrightarrow>
     MASS_DROP_MIN_CACHE_SIZE \<le> cache_len \<and> usize_sat_mul node_txid_count MASS_DROP_INVERSE < cache_len"

definition resync_cooling_down :: "nat option \<Rightarrow> nat \<Rightarrow> bool" where
  "resync_cooling_down prev now = (case prev of None \<Rightarrow> False | Some t \<Rightarrow> now - t < RESYNC_COOLDOWN)"

datatype desync_action = WaitCooldown string | BulkResync string

definition decide_desync :: "bool \<Rightarrow> usize \<Rightarrow> usize \<Rightarrow> bool \<Rightarrow> desync_action option" where
  "decide_desync loaded cache_len node_txid_count cooling_down =
     (let mass_drop = is_mass_drop cache_len node_txid_count in
      if loaded \<and> \<not> mass_drop then None
      else let reason = (if \<not> loaded then ''node_not_loaded'' else ''mass_drop'')
           in Some (if cooling_down then WaitCooldown reason else BulkResync reason))"

definition is_backlog :: "usize \<Rightarrow> usize \<Rightarrow> usize \<Rightarrow> bool \<Rightarrow> bool" where
  "is_backlog new_count max_per_tick fetch_errors incomplete \<longleftrightarrow>
     max_per_tick < new_count \<or> 0 < fetch_errors \<or> incomplete"

text \<open>\<open>cache_len - gone + fetched\<close> does not saturate; \<open>None\<close> is the underflow.\<close>

definition projected_mempool_size :: "usize \<Rightarrow> usize \<Rightarrow> usize \<Rightarrow> usize option" where
  "projected_mempool_size cache_len gone fetched = map_option (\<lambda>k. k + fetched) (checked_sub_nat cache_len gone)"

subsection \<open>Properties\<close>

text \<open>The desync decision: nothing happens exactly when the node is loaded and holds at least a
  fifth of a cache of at least 100 entries (or the cache is smaller); a node that is not loaded takes
  precedence over a mass drop as the reason; and a bulk resync is never chosen while cooling down.  The
  saturating product does not change the comparison.\<close>

theorem decide_desync_spec:
  assumes "cache_len \<le> usize_max"
  shows "(decide_desync loaded cache_len n cooling = None \<longleftrightarrow> loaded \<and> (cache_len < 100 \<or> cache_len \<le> 5 * n)) \<and>
    (decide_desync False cache_len n cooling =
       Some ((if cooling then WaitCooldown else BulkResync) ''node_not_loaded'')) \<and>
    (decide_desync loaded cache_len n True \<noteq> Some (BulkResync r))"
  using assms by (auto simp: decide_desync_def is_mass_drop_def MASS_DROP_MIN_CACHE_SIZE_def
      MASS_DROP_INVERSE_def usize_sat_mul_def Let_def min_def)

lemma decide_desync_spec_witness:
  "(decide_desync True 100 20 False = None \<longleftrightarrow> True \<and> (100 < (100::nat) \<or> 100 \<le> 5 * (20::nat))) \<and>
    (decide_desync False 100 20 False = Some ((if False then WaitCooldown else BulkResync) ''node_not_loaded'')) \<and>
    (decide_desync True 100 20 True \<noteq> Some (BulkResync ''mass_drop''))"
  by (rule decide_desync_spec) (simp add: usize_max_def)

end
