(* ===== verification/Service.thy ===== *)
theory Service
  imports Mempool Decision
begin

text \<open>
  The rest of the service around the cache: configuration (\<open>config.rs\<close>), the HTTP handlers
  (\<open>http.rs\<close>), the block listener (\<open>zmq.rs\<close>) and the start-up probe of \<open>main.rs\<close>.  Parsing of the
  command line and of socket addresses, routing and the ZMQ socket itself are the work of libraries:
  their results are arguments.
\<close>

subsection \<open>Configuration\<close>

definition from_millis :: "u64 \<Rightarrow> nat" where "from_millis ms = unat ms * 1000000"
definition from_secs :: "u64 \<Rightarrow> nat" where "from_secs s = seconds (unat s)"

record config =
  cf_rpc :: rpc_config
  cf_http_bind :: ustring
  cf_poll_interval :: nat
  cf_fetch_concurrency :: usize
  cf_zmq_block :: "ustring option"
  cf_tick_budget :: nat
  cf_fee_recompute_min_interval :: nat

text \<open>The values given on the command line or in the environment; \<open>from_env\<close> fills in the defaults.\<close>

record cli =
  cli_rpc_url :: "ustring option"
  cli_rpc_cookie_file :: "ustring option"
  cli_rpc_user :: "ustring option"
  cli_rpc_pass :: "ustring option"
  cli_rpc_timeout_secs :: "u64 option"
  cli_http_bind :: "ustring option"
  cli_poll_interval_ms :: "u64 option"
  cli_fetch_concurrency :: "usize option"
  cli_zmq_block :: "ustring option"
  cli_tick_budget_ms :: "u64 option"
  cli_fee_recompute_min_interval_ms :: "u64 option"

definition unwrap_or :: "'a option \<Rightarrow> 'a \<Rightarrow> 'a" where
  "unwrap_or x d = (case x of Some v \<Rightarrow> v | None \<Rightarrow> d)"

definition cli_poll_ms :: "cli \<Rightarrow> u64" where
  "cli_poll_ms c = unwrap_or (cli_poll_interval_ms c) 2000"

definition fee_recompute_interval :: "u64 option \<Rightarrow> u64 \<Rightarrow> nat" where
  "fee_recompute_interval requested_ms poll_ms = from_millis (max (unwrap_or requested_ms 5000) poll_ms)"

definition cli_auth :: "cli \<Rightarrow> rpc_auth option" where
  "cli_auth c =
     (case (cli_rpc_cookie_file c, cli_rpc_user c, cli_rpc_pass c) of
        (Some path, _, _) \<Rightarrow> Some (Cookie path)
      | (None, Some u, Some p) \<Rightarrow> Some (UserPass u p)
      | _ \<Rightarrow> None)"

definition from_env :: "cli \<Rightarrow> config" where
  "from_env c =
     \<lparr>cf_rpc = \<lparr>rc_url = unwrap_or (cli_rpc_url c) (ustr ''http://127.0.0.1:8332''),
                rc_auth = cli_auth c,
                rc_timeout = from_secs (unwrap_or (cli_rpc_timeout_secs c) 30)\<rparr>,
      cf_http_bind = unwrap_or (cli_http_bind c) (ustr ''127.0.0.1:8080''),
      cf_poll_interval = from_millis (cli_poll_ms c),
      cf_fetch_concurrency = max (unwrap_or (cli_fetch_concurrency c) 10) 1,
      cf_zmq_block = cli_zmq_block c,
      cf_tick_budget = from_millis (max (unwrap_or (cli_tick_budget_ms c) (u64_sat_mul (cli_poll_ms c) 2)) (cli_poll_ms c)),
      cf_fee_recompute_min_interval = fee_recompute_interval (cli_fee_recompute_min_interval_ms c) (cli_poll_ms c)\<rparr>"

subsection \<open>HTTP handlers\<close>

record health =
  he_caught_up :: bool
  he_mempool_size :: usize
  he_tip_height :: u64
  he_min_fee :: f64
  he_network :: string
  he_last_sync_ok :: "nat option"
  he_age_secs :: "nat option"

text \<open>\<open>t.duration_since(e).ok()\<close> in whole seconds: \<open>None\<close> when \<open>t\<close> is before \<open>e\<close>.\<close>

definition secs_since :: "int \<Rightarrow> int \<Rightarrow> nat option" where
  "secs_since t e = (if e \<le> t then Some (nat (t - e) div 1000000000) else None)"

definition health_handler :: "int \<Rightarrow> mempool_state \<Rightarrow> health" where
  "health_handler now s =
     \<lparr>he_caught_up = ms_caught_up s,
      he_mempool_size = length (ms_txs s),
      he_tip_height = ms_tip_height s,
      he_min_fee = ms_min_fee s,
      he_network = ms_network s,
      he_last_sync_ok = Option.bind (ms_last_sync_ok s) (\<lambda>t. secs_since t 0),
      he_age_secs = Option.bind (ms_last_sync_ok s) (\<lambda>t. secs_since now t)\<rparr>"

datatype fees_response = FeesOk fee_estimate | ServiceUnavailable

definition fees_handler :: "mempool_state \<Rightarrow> fees_response" where
  "fees_handler s =
     (case ms_fee_estimate s of
        Some est \<Rightarrow> if ms_caught_up s then FeesOk est else ServiceUnavailable
      | None \<Rightarrow> ServiceUnavailable)"

subsection \<open>Block listener\<close>

definition BACKOFF_START :: nat where "BACKOFF_START = seconds 1"
definition BACKOFF_MAX :: nat where "BACKOFF_MAX = seconds 30"

text \<open>The capacity-1 channel is the number of pending wake-ups; \<open>try_send\<close> on a full channel is dropped.\<close>

definition try_send :: "nat \<Rightarrow> nat" where
  "try_send pending = (if pending < 1 then pending + 1 else pending)"

text \<open>The receive loop over the messages of one session; it ends with the first error.  The session's
  result, whether it connected, and the channel.\<close>

fun recv_loop :: "('e + unit) list \<Rightarrow> nat \<Rightarrow> ('e + unit) \<times> nat" where
  "recv_loop [] chan = (Inr (), chan)"
| "recv_loop (Inl e # _) chan = (Inl e, chan)"
| "recv_loop (Inr _ # msgs) chan = recv_loop msgs (try_send chan)"

definition run_once :: "('e + unit) \<Rightarrow> ('e + unit) \<Rightarrow> ('e + unit) list \<Rightarrow> nat \<Rightarrow> ('e + unit) \<times> bool \<times> nat" where
  "run_once conn subscribed msgs chan =
     (case conn of
        Inl e \<Rightarrow> (Inl e, False, chan)
      | Inr _ \<Rightarrow>
          (case subscribed of
             Inl e \<Rightarrow> (Inl e, False, chan)
           | Inr _ \<Rightarrow> let (res, chan) = recv_loop msgs chan in (res, True, chan)))"

text \<open>The sleeps of \<open>spawn_block_listener\<close> over its sessions, given whether each of them connected.\<close>

fun listener_sleeps :: "bool list \<Rightarrow> nat \<Rightarrow> nat list" where
  "listener_sleeps [] backoff = []"
| "listener_sleeps (conn # sessions) backoff =
     (let backoff = (if conn then BACKOFF_START else backoff)
      in backoff # listener_sleeps sessions (min (backoff * 2) BACKOFF_MAX))"

subsection \<open>Start-up probe\<close>

definition MAX_ATTEMPTS :: nat where "MAX_ATTEMPTS = 5"

text \<open>The bounded retry of \<open>main\<close>: \<open>probe\<close> is \<open>rpc.network()\<close> and \<open>reconn\<close> is \<open>rpc.reconnect()\<close>, both
  acting on the state \<open>'w\<close> of the client and the node.\<close>

function probe_network ::
  "('w \<Rightarrow> (rpc_error + string) \<times> 'w) \<Rightarrow> ('w \<Rightarrow> (setup_error + unit) \<times> 'w) \<Rightarrow> nat \<Rightarrow> 'w \<Rightarrow> (rpc_error + string) \<times> 'w" where
  "probe_network probe reconn attempt w =
     (case probe w of
        (Inr n, w) \<Rightarrow> (Inr n, w)
      | (Inl e, w) \<Rightarrow>
          if is_reconnectable e \<and> attempt < MAX_ATTEMPTS
          then probe_network probe reconn (attempt + 1) (snd (reconn w))
          else (Inl e, w))"
  by pat_completeness auto
termination
  by (relation "measure (\<lambda>(probe, reconn, attempt, w). MAX_ATTEMPTS - attempt)") auto

declare probe_network.simps [simp del]

lemma listener_sleeps_replicate:
  "listener_sleeps (replicate n False) (seconds (min (2 ^ j) 30)) = map (\<lambda>k. seconds (min (2 ^ (j + k)) 30)) [0..<n]"
proof (induction n arbitrary: j)
  case (Suc n)
  have "min (seconds (min (2 ^ j) 30) * 2) BACKOFF_MAX = seconds (min (2 ^ Suc j) 30)"
    by (simp add: seconds_def BACKOFF_MAX_def min_def)
  then show ?case using Suc [of "Suc j"] by (simp add: map_upt_Suc del: upt_Suc power_Suc)
qed simp

lemma listener_sleeps_range:
  "seconds 1 \<le> b \<Longrightarrow> b \<le> seconds 30 \<Longrightarrow> set (listener_sleeps sessions b) \<subseteq> {seconds 1..seconds 30}"
proof (induction sessions arbitrary: b)
  case (Cons c sessions)
  then show ?case
    using Cons.IH [of "min (BACKOFF_START * 2) BACKOFF_MAX"] Cons.IH [of "min (b * 2) BACKOFF_MAX"]
    by (auto simp: Let_def seconds_def BACKOFF_START_def BACKOFF_MAX_def)
qed simp

text \<open>Replies as a list, and what the probe consumes of it.\<close>

definition next_reply :: "(rpc_error + string) list \<Rightarrow> (rpc_error + string) \<times> (rpc_error + string) list" where
  "next_reply rs = (hd rs, tl rs)"

lemma probe_network_retries:
  assumes "\<forall>e \<in> set es. is_reconnectable e" "attempt + length es \<le> MAX_ATTEMPTS"
  shows "probe_network next_reply (\<lambda>rs. (r, rs)) attempt (map Inl es @ rs) =
    probe_network next_reply (\<lambda>rs. (r, rs)) (attempt + length es) rs"
  using assms
proof (induction es arbitrary: attempt)
  case (Cons e es)
  have "probe_network next_reply (\<lambda>rs. (r, rs)) attempt (map Inl (e # es) @ rs) =
      probe_network next_reply (\<lambda>rs. (r, rs)) (Suc attempt) (map Inl es @ rs)"
    using Cons.prems by (subst probe_network.simps) (simp add: next_reply_def)
  then show ?case using Cons.IH [of "Suc attempt"] Cons.prems by simp
qed simp

subsection \<open>Properties\<close>

text \<open>Whatever the environment gives, the tick budget and the fee recompute interval are at least
  the poll interval and at least one fetch may run; a cookie file takes precedence over user and
  password, and a user without a password counts as no credential.\<close>

theorem from_env_bounds:
  "cf_poll_interval (from_env c) \<le> cf_tick_budget (from_env c) \<and>
   cf_poll_interval (from_env c) \<le> cf_fee_recompute_min_interval (from_env c) \<and>
   1 \<le> cf_fetch_concurrency (from_env c) \<and>
   rc_auth (cf_rpc (from_env c)) =
     (if cli_rpc_cookie_file c \<noteq> None then map_option Cookie (cli_rpc_cookie_file c)
      else if cli_rpc_user c \<noteq> None \<and> cli_rpc_pass c \<noteq> None
      then Some (UserPass (the (cli_rpc_user c)) (the (cli_rpc_pass c))) else None)"
  by (auto simp: from_env_def fee_recompute_interval_def from_millis_def cli_auth_def max_def word_le_nat_alt
      split: option.splits)

text \<open>The reconnect delays of the block listener: after \<open>k\<close> sessions in a row that never connected,
  the next such delay is \<open>2 ^ k\<close> seconds capped at 30, and a session that connected resets it to one
  second; every delay is between one and thirty seconds.\<close>

theorem listener_backoff:
  "listener_sleeps (replicate n False) BACKOFF_START = map (\<lambda>k. seconds (min (2 ^ k) 30)) [0..<n] \<and>
   listener_sleeps (True # sessions) backoff = BACKOFF_START # listener_sleeps sessions (seconds 2) \<and>
   set (listener_sleeps sessions BACKOFF_START) \<subseteq> {seconds 1..seconds 30}"
  using listener_sleeps_replicate [of n 0] listener_sleeps_range [of BACKOFF_START sessions]
  by (simp add: BACKOFF_START_def BACKOFF_MAX_def seconds_def)

text \<open>The start-up probe survives up to four reconnectable failures, gives up after the fifth one and
  right away on any other error, so it makes at most five attempts.\<close>

theorem probe_network_bounded:
  assumes "\<forall>e \<in> set es. is_reconnectable e" "length es = 4" "k \<le> 4"
  shows "probe_network next_reply (\<lambda>rs. (r, rs)) 1 (map Inl (take k es) @ Inr n # rs) = (Inr n, rs) \<and>
    probe_network next_reply (\<lambda>rs. (r, rs)) 1 (map Inl es @ Inl e # rs) = (Inl e, rs) \<and>
    (is_reconnectable e \<or>
     probe_network next_reply (\<lambda>rs. (r, rs)) 1 (map Inl (take k es) @ Inl e # rs) = (Inl e, rs))"
proof -
  have step: "probe_network next_reply (\<lambda>rs. (r, rs)) 1 (map Inl (take j es) @ rs) =
      probe_network next_reply (\<lambda>rs. (r, rs)) (Suc j) rs" if "j \<le> 4" for j rs
    using probe_network_retries [of "take j es" 1 r rs] assms(1,2) that in_set_takeD [of _ j es]
    by (auto simp: MAX_ATTEMPTS_def)
  have "probe_network next_reply (\<lambda>rs. (r, rs)) (Suc j) (Inr n # rs) = (Inr n, rs)" for j
    by (subst probe_network.simps) (simp add: next_reply_def)
  moreover have "probe_network next_reply (\<lambda>rs. (r, rs)) (Suc 4) (Inl e # rs) = (Inl e, rs)"
    by (subst probe_network.simps) (simp add: next_reply_def MAX_ATTEMPTS_def)
  moreover have "probe_network next_reply (\<lambda>rs. (r, rs)) (Suc j) (Inl e # rs) = (Inl e, rs)"
    if "\<not> is_reconnectable e" for j
    using that by (subst probe_network.simps) (simp add: next_reply_def)
  moreover have "take 4 es = es" using assms(2) by simp
  ultimately show ?thesis using step [OF assms(3)] step [of 4] by fastforce
qed

lemma probe_network_bounded_witness:
  "probe_network next_reply (\<lambda>rs. (Inr (), rs)) 1 (map Inl (take 2 (replicate 4 AuthError)) @ Inr ''main'' # []) = (Inr ''main'', []) \<and>
   probe_network next_reply (\<lambda>rs. (Inr (), rs)) 1 (map Inl (replicate 4 AuthError) @ Inl (RpcErr 1 []) # []) = (Inl (RpcErr 1 []), []) \<and>
   (is_reconnectable (RpcErr 1 []) \<or>
    probe_network next_reply (\<lambda>rs. (Inr (), rs)) 1 (map Inl (take 2 (replicate 4 AuthError)) @ Inl (RpcErr 1 []) # []) = (Inl (RpcErr 1 []), []))"
  by (rule probe_network_bounded) (simp_all add: is_reconnectable_def)

end
