(* ===== verification/Sync.thy ===== *)
theory Sync
  imports Service "HOL-Library.State_Monad" "HOL-Library.Monad_Syntax"
begin

text \<open>
  The sync loop (\<open>sync/mod.rs\<close>) as state transformers over \<open>sync_state\<close>: the shared mempool state, the
  locals that \<open>run\<close> threads by \<open>&mut\<close>, and the world \<open>'w\<close> outside (node, network, clocks, scheduler),
  which the functions of \<open>env\<close> act on.  \<open>env\<close> holds the trait \<open>MempoolRpc\<close> of \<open>rpc.rs\<close> and the runtime
  services the loop uses.  Two components are ghosts: \<open>ss_trace\<close> lists the initial shared state and the
  one at every release of the write lock, which is what HTTP readers can see, and \<open>ss_log\<close> the transition log lines.
\<close>

subsection \<open>World, configuration, state\<close>

record 'w env =
  rpc_mempool_info :: "'w \<Rightarrow> (rpc_error + mempool_info) \<times> 'w"
  rpc_raw_mempool_txids :: "'w \<Rightarrow> (rpc_error + txid list) \<times> 'w"
  rpc_raw_mempool_verbose :: "'w \<Rightarrow> (rpc_error + (txid \<times> mempool_entry) list) \<times> 'w"
  rpc_mempool_entry :: "txid \<Rightarrow> 'w \<Rightarrow> (rpc_error + mempool_entry option) \<times> 'w"
  rpc_tip_height :: "'w \<Rightarrow> (rpc_error + u64) \<times> 'w"
  rpc_reconnect :: "'w \<Rightarrow> (setup_error + unit) \<times> 'w"
  instant_now :: "'w \<Rightarrow> nat \<times> 'w"
  system_now :: "'w \<Rightarrow> int \<times> 'w"
  unix_now :: "'w \<Rightarrow> u64 option \<times> 'w"
  sleep_for :: "nat \<Rightarrow> 'w \<Rightarrow> unit \<times> 'w"
  sleep_or_wake :: "nat \<Rightarrow> 'w \<Rightarrow> unit \<times> 'w"
  completion_order :: "usize \<Rightarrow> txid list \<Rightarrow> 'w \<Rightarrow> txid list \<times> 'w"
  ready_now :: "'w \<Rightarrow> nat \<times> 'w"

text \<open>
  \<open>completion_order n ts\<close> is the order in which \<open>buffer_unordered(n)\<close> yields the fetches of \<open>ts\<close>, and
  \<open>ready_now\<close> the number of further results that are ready without waiting (\<open>now_or_never\<close>).
\<close>

record sync_config =
  sc_poll_interval :: nat
  sc_fetch_concurrency :: usize
  sc_tick_budget :: nat
  sc_fee_recompute_min_interval :: nat

datatype log_line = InSync usize | OutOfSync string

record 'w sync_state =
  ss_world :: 'w
  ss_state :: mempool_state
  ss_caught_up_prev :: bool
  ss_last_bulk_resync :: nat
  ss_last_fee_recompute :: nat
  ss_trace :: "mempool_state list"
  ss_log :: "log_line list"

type_synonym ('w, 'a) sync = "('w sync_state, 'a) state"

definition outside :: "('w \<Rightarrow> 'a \<times> 'w) \<Rightarrow> ('w, 'a) sync" where
  "outside f = State (\<lambda>s. case f (ss_world s) of (a, w) \<Rightarrow> (a, s\<lparr>ss_world := w\<rparr>))"

definition change :: "('w sync_state \<Rightarrow> 'w sync_state) \<Rightarrow> ('w, unit) sync" where
  "change f = State (\<lambda>s. ((), f s))"

definition look :: "('w sync_state \<Rightarrow> 'a) \<Rightarrow> ('w, 'a) sync" where
  "look f = State (\<lambda>s. (f s, s))"

definition read_state :: "(mempool_state \<Rightarrow> 'a) \<Rightarrow> ('w, 'a) sync" where
  "read_state f = look (\<lambda>s. f (ss_state s))"

text \<open>A critical section of the write lock: the change, then the release that publishes the state.\<close>

definition write_state :: "('w sync_state \<Rightarrow> 'w sync_state) \<Rightarrow> ('w, unit) sync" where
  "write_state f = change (\<lambda>s. let s = f s in s\<lparr>ss_trace := ss_trace s @ [ss_state s]\<rparr>)"

definition put_state :: "(mempool_state \<Rightarrow> mempool_state) \<Rightarrow> 'w sync_state \<Rightarrow> 'w sync_state" where
  "put_state f s = s\<lparr>ss_state := f (ss_state s)\<rparr>"

definition return :: "'a \<Rightarrow> ('w, 'a) sync" where "return = State_Monad.return"

subsection \<open>Errors and the freshness flag\<close>

definition MAX_ERR_LOG_LEN :: usize where "MAX_ERR_LOG_LEN = 200"

text \<open>\<open>full\<close> is the error formatted with its chain of causes.\<close>

definition short_err :: "ustring \<Rightarrow> ustring" where
  "short_err full = (if length full \<le> MAX_ERR_LOG_LEN then full else take MAX_ERR_LOG_LEN full @ [ellipsis])"

definition reconnect_on_error :: "'w env \<Rightarrow> rpc_error \<Rightarrow> ('w, unit) sync" where
  "reconnect_on_error env e =
     (if is_reconnectable e then do { _ \<leftarrow> outside (rpc_reconnect env); return () } else return ())"

definition set_synced_locked :: "bool \<Rightarrow> string \<Rightarrow> usize \<Rightarrow> 'w sync_state \<Rightarrow> 'w sync_state" where
  "set_synced_locked synced reason mempool_size s =
     (let s = put_state (\<lambda>g. g\<lparr>ms_caught_up := synced\<rparr>) s in
      if synced = ss_caught_up_prev s then s
      else s\<lparr>ss_log := ss_log s @ [if synced then InSync mempool_size else OutOfSync reason],
             ss_caught_up_prev := synced\<rparr>)"

definition set_synced :: "bool \<Rightarrow> string \<Rightarrow> usize \<Rightarrow> ('w, unit) sync" where
  "set_synced synced reason mempool_size = write_state (set_synced_locked synced reason mempool_size)"

definition apply_bulk_success :: "'w env \<Rightarrow> usize \<Rightarrow> ('w, unit) sync" where
  "apply_bulk_success env n_txs = do {
     now \<leftarrow> outside (system_now env);
     write_state (\<lambda>s. put_state (\<lambda>g. g\<lparr>ms_last_sync_ok := Some now\<rparr>) (set_synced_locked True '''' n_txs s))
   }"

subsection \<open>Fee recomputation\<close>

definition fee_snapshot :: "(txid \<times> mempool_tx) list \<Rightarrow> snapshot" where
  "fee_snapshot txs = sort_key fst (map (\<lambda>(t, tx). (t, tx_fee tx, tx_weight tx, tx_depends tx)) txs)"

definition fee_throttled :: "'w env \<Rightarrow> nat \<Rightarrow> bool \<Rightarrow> ('w, bool) sync" where
  "fee_throttled env min_interval force =
     (if force then return False
      else do {
        now \<leftarrow> outside (instant_now env);
        prev \<leftarrow> look ss_last_fee_recompute;
        return (now - prev < min_interval)
      })"

definition recompute_now :: "'w env \<Rightarrow> ('w, unit) sync" where
  "recompute_now env = do {
     (txs, min_fee) \<leftarrow> read_state (\<lambda>g. (ms_txs g, ms_min_fee g));
     clock \<leftarrow> outside (unix_now env);
     (case compute_estimate (fee_snapshot txs) min_fee clock of
        Some (Inr estimate) \<Rightarrow> write_state (put_state (\<lambda>g. g\<lparr>ms_fee_estimate := Some estimate\<rparr>))
      | _ \<Rightarrow> return ());
     now \<leftarrow> outside (instant_now env);
     change (\<lambda>s. s\<lparr>ss_last_fee_recompute := now\<rparr>)
   }"

definition maybe_recompute_fees :: "'w env \<Rightarrow> nat \<Rightarrow> bool \<Rightarrow> ('w, unit) sync" where
  "maybe_recompute_fees env min_interval force = do {
     throttled \<leftarrow> fee_throttled env min_interval force;
     if throttled then return () else recompute_now env
   }"

subsection \<open>Fetching new entries\<close>

definition MAX_NEW_FETCH_PER_TICK :: usize where "MAX_NEW_FETCH_PER_TICK = 2000"

record fetch_batch =
  fb_fetched :: "(txid \<times> mempool_tx) list"
  fb_fetch_errors :: usize
  fb_resolved :: usize

definition process_result :: "txid \<Rightarrow> rpc_error + mempool_entry option \<Rightarrow> fetch_batch \<Rightarrow> fetch_batch" where
  "process_result t res b =
     (let b = b\<lparr>fb_resolved := fb_resolved b + 1\<rparr> in
      case res of
        Inr (Some e) \<Rightarrow> b\<lparr>fb_fetched := fb_fetched b @ [(t, mempool_tx_from e)]\<rparr>
      | Inr None \<Rightarrow> b
      | Inl _ \<Rightarrow> b\<lparr>fb_fetch_errors := fb_fetch_errors b + 1\<rparr>)"

fun drain_ready :: "'w env \<Rightarrow> txid list \<Rightarrow> fetch_batch \<Rightarrow> ('w, fetch_batch) sync" where
  "drain_ready env [] b = return b"
| "drain_ready env (t # ts) b = do {
     res \<leftarrow> outside (rpc_mempool_entry env t);
     drain_ready env ts (process_result t res b)
   }"

fun fetch_loop :: "'w env \<Rightarrow> nat \<Rightarrow> nat \<Rightarrow> txid list \<Rightarrow> fetch_batch \<Rightarrow> ('w, fetch_batch) sync" where
  "fetch_loop env tick_budget start [] b = return b"
| "fetch_loop env tick_budget start (t # ts) b = do {
     res \<leftarrow> outside (rpc_mempool_entry env t);
     now \<leftarrow> outside (instant_now env);
     if tick_budget < now - start
     then do {
       k \<leftarrow> outside (ready_now env);
       drain_ready env (take k ts) (process_result t res b)
     }
     else fetch_loop env tick_budget start ts (process_result t res b)
   }"

record fetch_result =
  fr_fetched :: "(txid \<times> mempool_tx) list"
  fr_fetch_errors :: usize
  fr_incomplete :: bool

definition fetch_new_entries :: "'w env \<Rightarrow> txid list \<Rightarrow> usize \<Rightarrow> nat \<Rightarrow> usize \<Rightarrow> ('w, fetch_result) sync" where
  "fetch_new_entries env new_txids concurrency tick_budget max_per_tick = do {
     let candidates = take max_per_tick new_txids;
     start \<leftarrow> outside (instant_now env);
     order \<leftarrow> outside (completion_order env concurrency candidates);
     b \<leftarrow> fetch_loop env tick_budget start order \<lparr>fb_fetched = [], fb_fetch_errors = 0, fb_resolved = 0\<rparr>;
     return \<lparr>fr_fetched = fb_fetched b, fr_fetch_errors = fb_fetch_errors b,
             fr_incomplete = fb_resolved b < length candidates\<rparr>
   }"

subsection \<open>Bulk resync\<close>

definition entries_map :: "(txid \<times> mempool_entry) list \<Rightarrow> (txid \<times> mempool_tx) list" where
  "entries_map entries = fold (\<lambda>(t, e). AList.update t (mempool_tx_from e)) entries []"

definition bulk_resync :: "'w env \<Rightarrow> ('w, usize option) sync" where
  "bulk_resync env = do {
     entries \<leftarrow> outside (rpc_raw_mempool_verbose env);
     case entries of
       Inl e \<Rightarrow> do { reconnect_on_error env e; return None }
     | Inr entries \<Rightarrow> do {
         info \<leftarrow> outside (rpc_mempool_info env);
         case info of
           Inl e \<Rightarrow> do { reconnect_on_error env e; return None }
         | Inr info \<Rightarrow> do {
             tip \<leftarrow> outside (rpc_tip_height env);
             case tip of
               Inl e \<Rightarrow> do { reconnect_on_error env e; return None }
             | Inr tip \<Rightarrow> do {
                 write_state (put_state (\<lambda>g. g\<lparr>ms_txs := entries_map entries,
                   ms_min_fee := min_fee_sat_vb info, ms_tip_height := tip\<rparr>));
                 return (Some (length entries))
               }
           }
       }
   }"

subsection \<open>One steady tick\<close>

definition rpc_failed :: "'w env \<Rightarrow> string \<Rightarrow> rpc_error \<Rightarrow> ('w, unit) sync" where
  "rpc_failed env reason e = do {
     reconnect_on_error env e;
     set_synced False reason 0
   }"

definition bulk_and_publish :: "'w env \<Rightarrow> sync_config \<Rightarrow> ('w, unit) sync" where
  "bulk_and_publish env cfg = do {
     n_txs \<leftarrow> bulk_resync env;
     case n_txs of
       Some n_txs \<Rightarrow> do {
         apply_bulk_success env n_txs;
         maybe_recompute_fees env (sc_fee_recompute_min_interval cfg) True
       }
     | None \<Rightarrow> set_synced False ''resync_failed'' 0
   }"

definition desync :: "'w env \<Rightarrow> sync_config \<Rightarrow> desync_action \<Rightarrow> ('w, unit) sync" where
  "desync env cfg action =
     (case action of
        WaitCooldown reason \<Rightarrow> set_synced False reason 0
      | BulkResync _ \<Rightarrow> do {
          now \<leftarrow> outside (instant_now env);
          change (\<lambda>s. s\<lparr>ss_last_bulk_resync := now\<rparr>);
          bulk_and_publish env cfg
        })"

definition remove_gone :: "txid list \<Rightarrow> ('w, unit) sync" where
  "remove_gone gone = write_state (put_state (\<lambda>g. g\<lparr>ms_txs := fold AList.delete gone (ms_txs g)\<rparr>))"

text \<open>The last critical section of a tick; \<open>SystemTime::now()\<close> is only read without a backlog.\<close>

definition store_tick :: "(txid \<times> mempool_tx) list \<Rightarrow> f64 \<Rightarrow> u64 option \<Rightarrow> mempool_state \<Rightarrow> mempool_state" where
  "store_tick fetched min_fee tip g =
     g\<lparr>ms_txs := fold (\<lambda>(t, tx). AList.update t tx) fetched (ms_txs g),
       ms_min_fee := min_fee,
       ms_tip_height := (case tip of Some h \<Rightarrow> h | None \<Rightarrow> ms_tip_height g)\<rparr>"

definition finish_tick ::
  "'w env \<Rightarrow> (txid \<times> mempool_tx) list \<Rightarrow> f64 \<Rightarrow> u64 option \<Rightarrow> bool \<Rightarrow> usize \<Rightarrow> ('w, unit) sync" where
  "finish_tick env fetched min_fee tip backlog mempool_size =
     (if backlog
      then write_state (\<lambda>s. set_synced_locked False ''backlog'' 0 (put_state (store_tick fetched min_fee tip) s))
      else do {
        now \<leftarrow> outside (system_now env);
        write_state (\<lambda>s. put_state (\<lambda>g. g\<lparr>ms_last_sync_ok := Some now\<rparr>)
          (set_synced_locked True '''' mempool_size (put_state (store_tick fetched min_fee tip) s)))
      })"

definition ok_or_none :: "'e + 'a \<Rightarrow> 'a option" where
  "ok_or_none r = (case r of Inr a \<Rightarrow> Some a | Inl _ \<Rightarrow> None)"

text \<open>From \<open>compute_diff\<close> on; the underflow of \<open>projected_mempool_size\<close> (\<open>None\<close>) does not occur.\<close>

definition apply_diff ::
  "'w env \<Rightarrow> sync_config \<Rightarrow> mempool_info \<Rightarrow> txid list \<Rightarrow> txid list \<Rightarrow> ('w, unit) sync" where
  "apply_diff env cfg info cache_keys node_txids = do {
     let d = compute_diff cache_keys node_txids;
     remove_gone (df_gone d);
     res \<leftarrow> fetch_new_entries env (df_new d) (sc_fetch_concurrency cfg) (sc_tick_budget cfg) MAX_NEW_FETCH_PER_TICK;
     tip \<leftarrow> outside (rpc_tip_height env);
     let backlog = is_backlog (length (df_new d)) MAX_NEW_FETCH_PER_TICK (fr_fetch_errors res) (fr_incomplete res);
     let size = projected_mempool_size (length cache_keys) (length (df_gone d)) (length (fr_fetched res));
     finish_tick env (fr_fetched res) (min_fee_sat_vb info) (ok_or_none tip) backlog (case size of Some n \<Rightarrow> n | None \<Rightarrow> 0);
     if \<not> backlog then maybe_recompute_fees env (sc_fee_recompute_min_interval cfg) False else return ()
   }"

definition steady_tick :: "'w env \<Rightarrow> sync_config \<Rightarrow> ('w, unit) sync" where
  "steady_tick env cfg = do {
     info \<leftarrow> outside (rpc_mempool_info env);
     case info of
       Inl e \<Rightarrow> rpc_failed env ''rpc_error:mempool_info'' e
     | Inr info \<Rightarrow> do {
         txids \<leftarrow> outside (rpc_raw_mempool_txids env);
         case txids of
           Inl e \<Rightarrow> rpc_failed env ''rpc_error:raw_mempool_txids'' e
         | Inr txids \<Rightarrow> do {
             let node_txids = remdups txids;
             cache_keys \<leftarrow> read_state (\<lambda>g. al_keys (ms_txs g));
             prev \<leftarrow> look ss_last_bulk_resync;
             now \<leftarrow> outside (instant_now env);
             case decide_desync (unwrap_or (mi_loaded info) True) (length cache_keys) (length node_txids)
                 (resync_cooling_down (Some prev) now) of
               Some action \<Rightarrow> desync env cfg action
             | None \<Rightarrow> apply_diff env cfg info cache_keys node_txids
           }
       }
   }"

subsection \<open>Start-up and the endless loop\<close>

text \<open>The two start-up loops may run forever: \<open>None\<close> is a loop that does not return.\<close>

partial_function (option) wait_until_mempool_loaded ::
  "'w env \<Rightarrow> nat \<Rightarrow> 'w sync_state \<Rightarrow> 'w sync_state option" where
  "wait_until_mempool_loaded env poll s =
     (case run_state (outside (rpc_mempool_info env)) s of
        (Inr info, s) \<Rightarrow>
          if unwrap_or (mi_loaded info) True then Some s
          else wait_until_mempool_loaded env poll (snd (run_state (outside (sleep_for env poll)) s))
      | (Inl e, s) \<Rightarrow>
          wait_until_mempool_loaded env poll
            (snd (run_state (do { reconnect_on_error env e; outside (sleep_for env poll) }) s)))"

partial_function (option) initial_bulk_load ::
  "'w env \<Rightarrow> nat \<Rightarrow> 'w sync_state \<Rightarrow> 'w sync_state option" where
  "initial_bulk_load env poll s =
     (case run_state (bulk_resync env) s of
        (Some n_txs, s) \<Rightarrow>
          Some (snd (run_state (do {
            now \<leftarrow> outside (instant_now env);
            change (\<lambda>s. s\<lparr>ss_last_bulk_resync := now\<rparr>);
            apply_bulk_success env n_txs
          }) s))
      | (None, s) \<Rightarrow> initial_bulk_load env poll (snd (run_state (outside (sleep_for env poll)) s)))"

definition start_steady :: "'w env \<Rightarrow> sync_config \<Rightarrow> ('w, unit) sync" where
  "start_steady env cfg = do {
     now \<leftarrow> outside (instant_now env);
     start \<leftarrow> (case checked_sub_nat now (sc_fee_recompute_min_interval cfg) of
        Some t \<Rightarrow> return t
      | None \<Rightarrow> outside (instant_now env));
     change (\<lambda>s. s\<lparr>ss_last_fee_recompute := start\<rparr>);
     maybe_recompute_fees env (sc_fee_recompute_min_interval cfg) True
   }"

definition run_tick :: "'w env \<Rightarrow> sync_config \<Rightarrow> ('w, unit) sync" where
  "run_tick env cfg = do {
     outside (sleep_or_wake env (sc_poll_interval cfg));
     steady_tick env cfg
   }"

definition run_init :: "'w \<Rightarrow> string \<Rightarrow> 'w sync_state" where
  "run_init w net =
     \<lparr>ss_world = w, ss_state = mempool_state_new net, ss_caught_up_prev = False, ss_last_bulk_resync = 0,
      ss_last_fee_recompute = 0, ss_trace = [mempool_state_new net], ss_log = []\<rparr>"

text \<open>\<open>run\<close>: the start-up, then the states of the loop, between two ticks.\<close>

definition run_start :: "'w env \<Rightarrow> sync_config \<Rightarrow> 'w \<Rightarrow> string \<Rightarrow> 'w sync_state option" where
  "run_start env cfg w net =
     Option.bind (wait_until_mempool_loaded env (sc_poll_interval cfg) (run_init w net)) (\<lambda>s.
       map_option (\<lambda>s. snd (run_state (start_steady env cfg) s)) (initial_bulk_load env (sc_poll_interval cfg) s))"

inductive sync_reach :: "'w env \<Rightarrow> sync_config \<Rightarrow> 'w \<Rightarrow> string \<Rightarrow> 'w sync_state \<Rightarrow> bool"
  for env cfg w net where
  sync_started: "run_start env cfg w net = Some s \<Longrightarrow> sync_reach env cfg w net s"
| sync_ticked: "sync_reach env cfg w net s \<Longrightarrow> sync_reach env cfg w net (snd (run_state (run_tick env cfg) s))"

end
