(* ===== verification/Sync_Logic.thy ===== *)
theory Sync_Logic
  imports Sync
begin

text \<open>
  Reasoning about the sync loop: \<open>wp m Q s\<close> says that \<open>m\<close> run from \<open>s\<close> ends with a result and a state
  in \<open>Q\<close>, as a set of rewrite rules (\<open>wp_simps\<close>), and \<open>keeps I m\<close> that \<open>m\<close> preserves an invariant, as a set
  of introduction rules (\<open>keeps_intros\<close>).  The invariant of the loop is \<open>sync_inv\<close>.
\<close>

named_theorems wp_simps
named_theorems keeps_intros

definition wp :: "('w, 'a) sync \<Rightarrow> ('a \<Rightarrow> 'w sync_state \<Rightarrow> bool) \<Rightarrow> 'w sync_state \<Rightarrow> bool" where
  "wp m Q s \<longleftrightarrow> (case run_state m s of (a, t) \<Rightarrow> Q a t)"

lemma wp_bind [wp_simps]: "wp (m \<bind> f) Q s = wp m (\<lambda>a. wp (f a) Q) s"
  by (simp add: wp_def split: prod.split)

lemma wp_return [wp_simps]: "wp (return a) Q s = Q a s"
  by (simp add: wp_def return_def)

lemma wp_outside [wp_simps]: "wp (outside f) Q s = Q (fst (f (ss_world s))) (s\<lparr>ss_world := snd (f (ss_world s))\<rparr>)"
  by (simp add: wp_def outside_def case_prod_beta)

lemma wp_change [wp_simps]: "wp (change f) Q s = Q () (f s)"
  by (simp add: wp_def change_def)

lemma wp_look [wp_simps]: "wp (look f) Q s = Q (f s) s"
  by (simp add: wp_def look_def)

lemma wp_read_state [wp_simps]: "wp (read_state f) Q s = Q (f (ss_state s)) s"
  by (simp add: read_state_def wp_look)

lemma wp_write_state [wp_simps]:
  "wp (write_state f) Q s = Q () ((f s)\<lparr>ss_trace := ss_trace (f s) @ [ss_state (f s)]\<rparr>)"
  by (simp add: write_state_def wp_change Let_def)

lemma wp_if [wp_simps]: "wp (if b then m else m') Q s = (if b then wp m Q s else wp m' Q s)"
  by simp

lemma wp_mono: "wp m Q s \<Longrightarrow> (\<And>a t. Q a t \<Longrightarrow> Q' a t) \<Longrightarrow> wp m Q' s"
  by (auto simp: wp_def)

lemma wp_run: "wp m (\<lambda>a t. P t) s \<longleftrightarrow> P (snd (run_state m s))"
  by (simp add: wp_def case_prod_beta)

lemma wp_conj: "wp m Q s \<Longrightarrow> wp m R s \<Longrightarrow> wp m (\<lambda>a t. Q a t \<and> R a t) s"
  by (auto simp: wp_def)

subsection \<open>Preservation\<close>

definition keeps :: "('w sync_state \<Rightarrow> bool) \<Rightarrow> ('w, 'a) sync \<Rightarrow> bool" where
  "keeps I m \<longleftrightarrow> (\<forall>s. I s \<longrightarrow> I (snd (run_state m s)))"

lemma keepsD: "keeps I m \<Longrightarrow> I s \<Longrightarrow> I (snd (run_state m s))"
  by (simp add: keeps_def)

lemma keeps_wp: "keeps I m \<longleftrightarrow> (\<forall>s. I s \<longrightarrow> wp m (\<lambda>a t. I t) s)"
  by (simp add: keeps_def wp_run)

lemma keeps_bind [keeps_intros]:
  assumes "keeps I m" "\<And>a. keeps I (f a)"
  shows "keeps I (m \<bind> f)"
  using assms unfolding keeps_def by (auto simp: case_prod_beta)

lemma keeps_return [keeps_intros]: "keeps I (return a)"
  by (simp add: keeps_wp wp_simps)

lemma keeps_look [keeps_intros]: "keeps I (look f)"
  by (simp add: keeps_wp wp_simps)

lemma keeps_read_state [keeps_intros]: "keeps I (read_state f)"
  by (simp add: keeps_wp wp_simps)

lemma keeps_if [keeps_intros]: "(b \<Longrightarrow> keeps I m) \<Longrightarrow> (\<not> b \<Longrightarrow> keeps I m') \<Longrightarrow> keeps I (if b then m else m')"
  by simp

lemma keeps_sum [keeps_intros]:
  "(\<And>e. r = Inl e \<Longrightarrow> keeps I (f e)) \<Longrightarrow> (\<And>a. r = Inr a \<Longrightarrow> keeps I (g a)) \<Longrightarrow>
   keeps I (case r of Inl e \<Rightarrow> f e | Inr a \<Rightarrow> g a)"
  by (cases r) auto

lemma keeps_option [keeps_intros]:
  "(r = None \<Longrightarrow> keeps I m) \<Longrightarrow> (\<And>a. r = Some a \<Longrightarrow> keeps I (f a)) \<Longrightarrow>
   keeps I (case r of None \<Rightarrow> m | Some a \<Rightarrow> f a)"
  by (cases r) auto

lemma keeps_prod [keeps_intros]: "(\<And>a b. r = (a, b) \<Longrightarrow> keeps I (f a b)) \<Longrightarrow> keeps I (case r of (a, b) \<Rightarrow> f a b)"
  by (cases r) auto

lemma keeps_action [keeps_intros]:
  "(\<And>r. a = WaitCooldown r \<Longrightarrow> keeps I (f r)) \<Longrightarrow> (\<And>r. a = BulkResync r \<Longrightarrow> keeps I (g r)) \<Longrightarrow>
   keeps I (case a of WaitCooldown r \<Rightarrow> f r | BulkResync r \<Rightarrow> g r)"
  by (cases a) auto

lemma keeps_change: "(\<And>s. I s \<Longrightarrow> I (f s)) \<Longrightarrow> keeps I (change f)"
  by (simp add: keeps_wp wp_simps)

lemma keeps_write_state:
  "(\<And>s. I s \<Longrightarrow> I ((f s)\<lparr>ss_trace := ss_trace (f s) @ [ss_state (f s)]\<rparr>)) \<Longrightarrow> keeps I (write_state f)"
  by (simp add: keeps_wp wp_simps)

lemma keeps_then:
  assumes "keeps I m" "\<And>s. wp m (\<lambda>a t. P t) s" "keeps (\<lambda>s. I s \<and> P s) m'"
  shows "keeps I (m \<bind> (\<lambda>_. m'))"
  using assms unfolding keeps_def wp_run by (auto simp: case_prod_beta)

text \<open>An invariant that does not look at the world is kept by every call to the outside.\<close>

definition worldless :: "('w sync_state \<Rightarrow> bool) \<Rightarrow> bool" where
  "worldless I \<longleftrightarrow> (\<forall>s w. I (s\<lparr>ss_world := w\<rparr>) = I s)"

lemma keeps_outside: "worldless I \<Longrightarrow> keeps I (outside f)"
  by (simp add: keeps_wp wp_simps worldless_def)

lemma keeps_reconnect: "worldless I \<Longrightarrow> keeps I (reconnect_on_error env e)"
  unfolding reconnect_on_error_def by (intro keeps_intros keeps_outside)

lemma keeps_drain: "worldless I \<Longrightarrow> keeps I (drain_ready env ts b)"
  by (induction ts arbitrary: b) (auto intro!: keeps_intros keeps_outside)

lemma keeps_fetch_loop: "worldless I \<Longrightarrow> keeps I (fetch_loop env budget start ts b)"
  by (induction ts arbitrary: b) (auto intro!: keeps_intros keeps_outside keeps_drain)

lemma keeps_fetch_new: "worldless I \<Longrightarrow> keeps I (fetch_new_entries env ts c budget n)"
  unfolding fetch_new_entries_def Let_def by (intro keeps_intros keeps_outside keeps_fetch_loop)

subsection \<open>The invariant\<close>

definition log_flag :: "log_line \<Rightarrow> bool" where
  "log_flag l = (case l of InSync _ \<Rightarrow> True | OutOfSync _ \<Rightarrow> False)"

definition honest :: "mempool_state \<Rightarrow> bool" where
  "honest g \<longleftrightarrow> al_ok (ms_txs g) \<and> (ms_caught_up g \<longrightarrow> ms_last_sync_ok g \<noteq> None)"

definition estimated_from :: "fee_estimate \<Rightarrow> mempool_state \<Rightarrow> bool" where
  "estimated_from est g \<longleftrightarrow> ms_caught_up g \<and>
     (\<exists>clock. compute_estimate (fee_snapshot (ms_txs g)) (ms_min_fee g) clock = Some (Inr est))"

definition sync_inv :: "'w sync_state \<Rightarrow> bool" where
  "sync_inv s \<longleftrightarrow>
     ss_caught_up_prev s = ms_caught_up (ss_state s) \<and>
     ss_state s \<in> set (ss_trace s) \<and>
     (\<forall>g \<in> set (ss_trace s). honest g \<and>
        (\<forall>est. ms_fee_estimate g = Some est \<longrightarrow> (\<exists>g' \<in> set (ss_trace s). estimated_from est g'))) \<and>
     successively (\<noteq>) (False # map log_flag (ss_log s)) \<and>
     last (False # map log_flag (ss_log s)) = ss_caught_up_prev s"

lemma sync_inv_worldless [simp]: "worldless sync_inv"
  by (simp add: worldless_def sync_inv_def)

lemma sync_inv_fields [simp]:
  "sync_inv (s\<lparr>ss_world := w\<rparr>) = sync_inv s"
  "sync_inv (s\<lparr>ss_last_bulk_resync := n\<rparr>) = sync_inv s"
  "sync_inv (s\<lparr>ss_last_fee_recompute := n\<rparr>) = sync_inv s"
  by (simp_all add: sync_inv_def)

text \<open>A critical section keeps the invariant if the state it publishes is honest and its estimate is old
  or freshly computed from a published state, and the flag and the log agree.\<close>

lemma successively_snoc: "xs \<noteq> [] \<Longrightarrow> successively (\<noteq>) xs \<Longrightarrow> b \<noteq> last xs \<Longrightarrow> successively (\<noteq>) (xs @ [b])"
  by (auto simp: successively_append_iff)

lemma sync_inv_publish:
  assumes inv: "sync_inv s" and g: "honest g"
    and est: "\<And>est. ms_fee_estimate g = Some est \<Longrightarrow>
      ms_fee_estimate (ss_state s) = Some est \<or> estimated_from est (ss_state s)"
    and log: "if ms_caught_up g = ss_caught_up_prev s then l = [] else map log_flag l = [ms_caught_up g]"
  shows "sync_inv (s\<lparr>ss_state := g, ss_caught_up_prev := ms_caught_up g, ss_log := ss_log s @ l,
    ss_trace := ss_trace s @ [g]\<rparr>)"
proof -
  let ?ls = "False # map log_flag (ss_log s)"
  have "\<exists>g' \<in> set (ss_trace s). estimated_from est g'" if "ms_fee_estimate g = Some est" for est
    using est [OF that] inv by (auto simp: sync_inv_def)
  moreover have "successively (\<noteq>) (?ls @ map log_flag l) \<and> last (?ls @ map log_flag l) = ms_caught_up g"
  proof (cases "ms_caught_up g = ss_caught_up_prev s")
    case True
    then show ?thesis using inv log by (auto simp: sync_inv_def)
  next
    case False
    have "successively (\<noteq>) ?ls" "last ?ls = ss_caught_up_prev s" using inv by (auto simp: sync_inv_def)
    then show ?thesis using successively_snoc [of ?ls "ms_caught_up g"] log False by (auto split: if_splits)
  qed
  ultimately show ?thesis
    using inv g unfolding sync_inv_def by (auto simp: sync_inv_def)
qed

text \<open>The shapes of critical sections: data only, and data with the freshness flag.\<close>

lemma publish_data:
  assumes "sync_inv s" "honest (f (ss_state s))" "ms_caught_up (f (ss_state s)) = ms_caught_up (ss_state s)"
    and "\<And>est. ms_fee_estimate (f (ss_state s)) = Some est \<Longrightarrow>
      ms_fee_estimate (ss_state s) = Some est \<or> estimated_from est (ss_state s)"
  shows "sync_inv ((put_state f s)\<lparr>ss_trace := ss_trace (put_state f s) @ [ss_state (put_state f s)]\<rparr>)"
  using sync_inv_publish [OF assms(1,2,4), where l = "[]"] assms(1,3)
  by (simp add: put_state_def sync_inv_def)

lemma publish_flag:
  assumes "sync_inv s" "honest (h ((f (ss_state s))\<lparr>ms_caught_up := b\<rparr>))"
    and "\<And>g. ms_caught_up (h g) = ms_caught_up g" "\<And>g. ms_fee_estimate (h g) = ms_fee_estimate g"
    and "ms_fee_estimate (f (ss_state s)) = ms_fee_estimate (ss_state s)"
  shows "sync_inv ((put_state h (set_synced_locked b reason n (put_state f s)))
    \<lparr>ss_trace := ss_trace (put_state h (set_synced_locked b reason n (put_state f s))) @
      [ss_state (put_state h (set_synced_locked b reason n (put_state f s)))]\<rparr>)"
proof -
  let ?g = "h ((f (ss_state s))\<lparr>ms_caught_up := b\<rparr>)"
  let ?l = "if b = ss_caught_up_prev s then [] else [if b then InSync n else OutOfSync reason]"
  let ?s = "put_state h (set_synced_locked b reason n (put_state f s))"
  have up: "ms_caught_up ?g = b" and est: "ms_fee_estimate ?g = ms_fee_estimate (ss_state s)"
    by (simp_all add: assms(3-5))
  have "if ms_caught_up ?g = ss_caught_up_prev s then ?l = [] else map log_flag ?l = [ms_caught_up ?g]"
    by (auto simp: assms(3) log_flag_def)
  from sync_inv_publish [OF assms(1,2) _ this]
  have "sync_inv (s\<lparr>ss_state := ?g, ss_caught_up_prev := b, ss_log := ss_log s @ ?l, ss_trace := ss_trace s @ [?g]\<rparr>)"
    unfolding up est by blast
  moreover have "?s\<lparr>ss_trace := ss_trace ?s @ [ss_state ?s]\<rparr> =
      s\<lparr>ss_state := ?g, ss_caught_up_prev := b, ss_log := ss_log s @ ?l, ss_trace := ss_trace s @ [?g]\<rparr>"
    by (cases s) (simp add: set_synced_locked_def put_state_def Let_def)
  ultimately show ?thesis by (simp only:)
qed

lemma put_state_id: "put_state (\<lambda>g. g) s = s"
  by (simp add: put_state_def)

lemma sync_inv_honest: "sync_inv s \<Longrightarrow> honest (ss_state s)"
  by (auto simp: sync_inv_def)

lemma keeps_set_synced_False: "keeps sync_inv (set_synced False reason n)"
  unfolding set_synced_def
proof (rule keeps_write_state)
  fix s :: "'w sync_state" assume "sync_inv s"
  then show "sync_inv ((set_synced_locked False reason n s)
      \<lparr>ss_trace := ss_trace (set_synced_locked False reason n s) @ [ss_state (set_synced_locked False reason n s)]\<rparr>)"
    using publish_flag [where s = s and f = "\<lambda>g. g" and h = "\<lambda>g. g" and b = False and reason = reason and n = n] sync_inv_honest [of s]
    by (simp add: put_state_id honest_def)
qed

lemma keeps_apply_bulk_success: "keeps sync_inv (apply_bulk_success env n)"
  unfolding apply_bulk_success_def
proof (intro keeps_intros keeps_outside keeps_write_state sync_inv_worldless)
  fix now and s :: "'w sync_state" assume "sync_inv s"
  then show "sync_inv ((put_state (\<lambda>g. g\<lparr>ms_last_sync_ok := Some now\<rparr>) (set_synced_locked True [] n s))
      \<lparr>ss_trace := ss_trace (put_state (\<lambda>g. g\<lparr>ms_last_sync_ok := Some now\<rparr>) (set_synced_locked True [] n s)) @
        [ss_state (put_state (\<lambda>g. g\<lparr>ms_last_sync_ok := Some now\<rparr>) (set_synced_locked True [] n s))]\<rparr>)"
    using publish_flag [where s = s and h = "\<lambda>g. g\<lparr>ms_last_sync_ok := Some now\<rparr>" and f = "\<lambda>g. g" and b = True and reason = "[]" and n = n] sync_inv_honest [of s]
    by (simp add: put_state_id honest_def)
qed

lemma entries_map_ok [simp]: "al_ok (entries_map entries)"
proof -
  have "fold (\<lambda>(t, e). AList.update t (mempool_tx_from e)) entries m =
      fold (\<lambda>(t, tx). AList.update t tx) (map (\<lambda>(t, e). (t, mempool_tx_from e)) entries) m" for m
    by (induction entries arbitrary: m) auto
  then show ?thesis unfolding entries_map_def by (simp add: al.ok_put_all al.ok_empty del: fold_map)
qed

lemma keeps_bulk_resync: "keeps sync_inv (bulk_resync env)"
  unfolding bulk_resync_def
proof (intro keeps_intros keeps_outside keeps_reconnect keeps_write_state sync_inv_worldless)
  fix entries info tip and s :: "'w sync_state"
  assume "sync_inv s"
  then show "sync_inv ((put_state (\<lambda>g. g\<lparr>ms_txs := entries_map entries, ms_min_fee := min_fee_sat_vb info,
        ms_tip_height := tip\<rparr>) s)
      \<lparr>ss_trace := ss_trace (put_state (\<lambda>g. g\<lparr>ms_txs := entries_map entries, ms_min_fee := min_fee_sat_vb info,
        ms_tip_height := tip\<rparr>) s) @ [ss_state (put_state (\<lambda>g. g\<lparr>ms_txs := entries_map entries,
        ms_min_fee := min_fee_sat_vb info, ms_tip_height := tip\<rparr>) s)]\<rparr>)"
    using sync_inv_honest [of s] by (intro publish_data) (auto simp: honest_def)
qed

text \<open>The recomputation reads the state and the clocks, and then stores an estimate of that same state, which is
  one that vouches for the mempool.\<close>

definition vouched :: "'w sync_state \<Rightarrow> bool" where
  "vouched s \<longleftrightarrow> sync_inv s \<and> ms_caught_up (ss_state s)"

lemma vouched_worldless [simp]: "worldless vouched"
  by (simp add: worldless_def vouched_def)

lemma vouched_estimate:
  assumes "vouched s" "compute_estimate (fee_snapshot (ms_txs (ss_state s))) (ms_min_fee (ss_state s)) clock = Some (Inr est)"
  shows "vouched ((put_state (\<lambda>g. g\<lparr>ms_fee_estimate := Some est\<rparr>) s)
    \<lparr>ss_trace := ss_trace (put_state (\<lambda>g. g\<lparr>ms_fee_estimate := Some est\<rparr>) s) @
      [ss_state (put_state (\<lambda>g. g\<lparr>ms_fee_estimate := Some est\<rparr>) s)]\<rparr>)"
proof -
  have inv: "sync_inv s" using assms(1) by (simp add: vouched_def)
  have "sync_inv ((put_state (\<lambda>g. g\<lparr>ms_fee_estimate := Some est\<rparr>) s)
      \<lparr>ss_trace := ss_trace (put_state (\<lambda>g. g\<lparr>ms_fee_estimate := Some est\<rparr>) s) @
        [ss_state (put_state (\<lambda>g. g\<lparr>ms_fee_estimate := Some est\<rparr>) s)]\<rparr>)"
    using sync_inv_honest [OF inv] inv assms
    by (intro publish_data) (auto simp: honest_def estimated_from_def vouched_def)
  then show ?thesis using assms(1) by (simp add: vouched_def put_state_def)
qed

lemma keeps_throttled: "worldless I \<Longrightarrow> keeps I (fee_throttled env min_interval force)"
  unfolding fee_throttled_def by (intro keeps_intros keeps_outside)

lemma keeps_recompute_now: "keeps vouched (recompute_now env)"
  unfolding keeps_wp
proof (intro allI impI)
  fix s :: "'a sync_state" assume inv: "vouched s"
  let ?r = "unix_now env (ss_world s)"
  have "vouched (s\<lparr>ss_world := snd ?r\<rparr>)" using inv by (simp add: vouched_def)
  from vouched_estimate [OF this, of "fst ?r"] inv show "wp (recompute_now env) (\<lambda>a t. vouched t) s"
    by (auto simp: recompute_now_def wp_simps vouched_def split: option.split sum.split)
qed

lemma keeps_recompute: "keeps vouched (maybe_recompute_fees env min_interval force)"
  unfolding maybe_recompute_fees_def
  by (intro keeps_intros keeps_throttled keeps_recompute_now vouched_worldless)

text \<open>Every recomputation comes right after a critical section that sets \<open>caught_up\<close>.\<close>

lemma keeps_success_recompute: "keeps sync_inv (do { apply_bulk_success env n; maybe_recompute_fees env k force })"
proof (rule keeps_then [where P = "\<lambda>s. ms_caught_up (ss_state s)", OF keeps_apply_bulk_success])
  show "wp (apply_bulk_success env n) (\<lambda>a t. ms_caught_up (ss_state t)) s" for s
    by (simp add: apply_bulk_success_def wp_simps set_synced_locked_def put_state_def Let_def)
qed (rule keeps_recompute [unfolded vouched_def])

lemma keeps_desync: "keeps sync_inv (desync env cfg action)"
proof -
  have "keeps sync_inv (bulk_and_publish env cfg)"
    unfolding bulk_and_publish_def
    by (rule keeps_bind [OF keeps_bulk_resync], rule keeps_option [OF keeps_set_synced_False keeps_success_recompute])
  then show ?thesis
    unfolding desync_def by (intro keeps_intros keeps_outside keeps_change keeps_set_synced_False sync_inv_worldless) simp_all
qed

lemma keeps_rpc_failed: "keeps sync_inv (rpc_failed env reason e)"
  unfolding rpc_failed_def by (intro keeps_intros keeps_reconnect keeps_set_synced_False sync_inv_worldless)

lemma keeps_remove_gone: "keeps sync_inv (remove_gone gone)"
  unfolding remove_gone_def
proof (rule keeps_write_state)
  fix s :: "'a sync_state" assume "sync_inv s"
  then show "sync_inv ((put_state (\<lambda>g. g\<lparr>ms_txs := fold AList.delete gone (ms_txs g)\<rparr>) s)
      \<lparr>ss_trace := ss_trace (put_state (\<lambda>g. g\<lparr>ms_txs := fold AList.delete gone (ms_txs g)\<rparr>) s) @
        [ss_state (put_state (\<lambda>g. g\<lparr>ms_txs := fold AList.delete gone (ms_txs g)\<rparr>) s)]\<rparr>)"
    using sync_inv_honest [of s] by (intro publish_data) (auto simp: honest_def al.ok_del_all)
qed

lemma store_tick_sel [simp]:
  "ms_caught_up (store_tick fetched min_fee tip g) = ms_caught_up g"
  "ms_last_sync_ok (store_tick fetched min_fee tip g) = ms_last_sync_ok g"
  "ms_fee_estimate (store_tick fetched min_fee tip g) = ms_fee_estimate g"
  "ms_txs (store_tick fetched min_fee tip g) = fold (\<lambda>(t, tx). AList.update t tx) fetched (ms_txs g)"
  by (simp_all add: store_tick_def)

lemma keeps_finish_tick: "keeps sync_inv (finish_tick env fetched min_fee tip backlog n)"
  unfolding finish_tick_def
proof (intro keeps_intros keeps_outside keeps_write_state sync_inv_worldless)
  fix s :: "'a sync_state" assume "sync_inv s"
  then show "sync_inv ((set_synced_locked False ''backlog'' 0 (put_state (store_tick fetched min_fee tip) s))
      \<lparr>ss_trace := ss_trace (set_synced_locked False ''backlog'' 0 (put_state (store_tick fetched min_fee tip) s)) @
        [ss_state (set_synced_locked False ''backlog'' 0 (put_state (store_tick fetched min_fee tip) s))]\<rparr>)"
    using publish_flag [where s = s and f = "store_tick fetched min_fee tip" and h = "\<lambda>g. g" and b = False
        and reason = "''backlog''" and n = 0] sync_inv_honest [of s]
    by (simp add: put_state_id honest_def al.ok_put_all)
next
  fix now and s :: "'a sync_state" assume "sync_inv s"
  then show "sync_inv ((put_state (\<lambda>g. g\<lparr>ms_last_sync_ok := Some now\<rparr>)
        (set_synced_locked True [] n (put_state (store_tick fetched min_fee tip) s)))
      \<lparr>ss_trace := ss_trace (put_state (\<lambda>g. g\<lparr>ms_last_sync_ok := Some now\<rparr>)
          (set_synced_locked True [] n (put_state (store_tick fetched min_fee tip) s))) @
        [ss_state (put_state (\<lambda>g. g\<lparr>ms_last_sync_ok := Some now\<rparr>)
          (set_synced_locked True [] n (put_state (store_tick fetched min_fee tip) s)))]\<rparr>)"
    using publish_flag [where s = s and f = "store_tick fetched min_fee tip" and b = True
        and h = "\<lambda>g. g\<lparr>ms_last_sync_ok := Some now\<rparr>" and reason = "[]" and n = n] sync_inv_honest [of s]
    by (simp add: honest_def al.ok_put_all)
qed

lemma keeps_finish_recompute:
  "keeps sync_inv (do { finish_tick env fetched min_fee tip backlog n;
     if \<not> backlog then maybe_recompute_fees env k force else return () })"
proof (cases backlog)
  case False
  have "wp (finish_tick env fetched min_fee tip False n) (\<lambda>a t. ms_caught_up (ss_state t)) s" for s
    by (simp add: finish_tick_def wp_simps set_synced_locked_def put_state_def Let_def)
  then have "keeps sync_inv (do { finish_tick env fetched min_fee tip False n; maybe_recompute_fees env k force })"
    by (rule keeps_then [where P = "\<lambda>s. ms_caught_up (ss_state s)", OF keeps_finish_tick _ keeps_recompute [unfolded vouched_def]])
  then show ?thesis using False by simp
qed (simp, intro keeps_intros keeps_finish_tick)

lemma keeps_apply_diff: "keeps sync_inv (apply_diff env cfg info cache_keys node_txids)"
  unfolding apply_diff_def Let_def
  by (rule keeps_bind [OF keeps_remove_gone], rule keeps_bind [OF keeps_fetch_new [OF sync_inv_worldless]],
      rule keeps_bind [OF keeps_outside [OF sync_inv_worldless]], rule keeps_finish_recompute)

lemma keeps_steady_tick: "keeps sync_inv (steady_tick env cfg)"
  unfolding steady_tick_def Let_def
  by (intro keeps_intros keeps_outside keeps_rpc_failed keeps_desync keeps_apply_diff sync_inv_worldless)

lemma keeps_run_tick: "keeps sync_inv (run_tick env cfg)"
  unfolding run_tick_def by (intro keeps_intros keeps_outside keeps_steady_tick sync_inv_worldless)

lemma keeps_start_steady: "keeps vouched (start_steady env cfg)"
  unfolding start_steady_def
  by (intro keeps_intros keeps_outside keeps_change keeps_recompute vouched_worldless) (simp add: vouched_def)

subsection \<open>The start-up loops\<close>

lemma sync_inv_init: "sync_inv (run_init w net)"
  by (simp add: sync_inv_def run_init_def mempool_state_new_def honest_def al_ok_def)

lemma keeps_run: "keeps I m \<Longrightarrow> run_state m s = (a, t) \<Longrightarrow> I s \<longrightarrow> I t"
  using keepsD [of I m s] by simp

text \<open>An invariant of the world's calls survives the gate; one that holds after a successful bulk load and its
  publication survives the load.\<close>

lemma wait_keeps:
  assumes "worldless I" "wait_until_mempool_loaded env poll s = Some t"
  shows "I s \<longrightarrow> I t"
proof (rule wait_until_mempool_loaded.raw_induct [OF _ assms(2), where P = "\<lambda>env poll s t. I s \<longrightarrow> I t"])
  fix wait and env :: "'a env" and poll s t
  assume IH: "\<And>env poll s t. wait env poll s = Some t \<Longrightarrow> I s \<longrightarrow> I t"
    and step: "(case run_state (outside (rpc_mempool_info env)) s of
      (Inl e, s) \<Rightarrow> wait env poll (snd (run_state (do { reconnect_on_error env e; outside (sleep_for env poll) }) s))
    | (Inr info, s) \<Rightarrow> if unwrap_or (mi_loaded info) True then Some s
        else wait env poll (snd (run_state (outside (sleep_for env poll)) s))) = Some t"
  obtain r s1 where run: "run_state (outside (rpc_mempool_info env)) s = (r, s1)" by fastforce
  have s1: "I s \<longrightarrow> I s1" by (rule keeps_run [OF keeps_outside [OF assms(1)] run])
  show "I s \<longrightarrow> I t"
  proof (cases r)
    case (Inl e)
    have "keeps I (do { reconnect_on_error env e; outside (sleep_for env poll) })"
      by (intro keeps_intros keeps_reconnect keeps_outside assms(1))
    then show ?thesis using step s1 keepsD IH by (fastforce simp: run Inl)
  next
    case (Inr info)
    have "keeps I (outside (sleep_for env poll))" by (rule keeps_outside [OF assms(1)])
    then show ?thesis using step s1 keepsD IH by (fastforce simp: run Inr split: if_splits)
  qed
qed

definition publish_load :: "'w env \<Rightarrow> usize \<Rightarrow> ('w, unit) sync" where
  "publish_load env n_txs = do {
     now \<leftarrow> outside (instant_now env);
     change (\<lambda>s. s\<lparr>ss_last_bulk_resync := now\<rparr>);
     apply_bulk_success env n_txs
   }"

lemma initial_load_rule:
  assumes "worldless I"
    and round: "\<And>s. I s \<Longrightarrow> wp (bulk_resync env)
      (\<lambda>r t. case r of None \<Rightarrow> I t | Some n \<Rightarrow> wp (publish_load env n) (\<lambda>a t. Q t) t) s"
    and "initial_bulk_load env poll s = Some t"
  shows "I s \<longrightarrow> Q t"
proof -
  have "env' = env \<longrightarrow> I s \<longrightarrow> Q t" if "initial_bulk_load env' poll s = Some t" for env'
  proof (rule initial_bulk_load.raw_induct [OF _ that, where P = "\<lambda>env' poll s t. env' = env \<longrightarrow> I s \<longrightarrow> Q t"], intro impI)
    fix load and env' :: "'a env" and poll s t
    assume IH: "\<And>env' poll s t. load env' poll s = Some t \<Longrightarrow> env' = env \<longrightarrow> I s \<longrightarrow> Q t"
      and step: "(case run_state (bulk_resync env') s of
        (None, s) \<Rightarrow> load env' poll (snd (run_state (outside (sleep_for env' poll)) s))
      | (Some n_txs, s) \<Rightarrow> Some (snd (run_state (do {
          now \<leftarrow> outside (instant_now env');
          change (\<lambda>s. s\<lparr>ss_last_bulk_resync := now\<rparr>);
          apply_bulk_success env' n_txs
        }) s))) = Some t"
      and eq: "env' = env" and s: "I s"
    obtain r s1 where run: "run_state (bulk_resync env) s = (r, s1)" by fastforce
    have s1: "case r of None \<Rightarrow> I s1 | Some n \<Rightarrow> wp (publish_load env n) (\<lambda>a t. Q t) s1"
      using round [OF s] run by (simp add: wp_def)
    show "Q t"
    proof (cases r)
      case None
      have "keeps I (outside (sleep_for env poll))" by (rule keeps_outside [OF assms(1)])
      then show ?thesis using step s1 keepsD IH eq by (fastforce simp: run None)
    next
      case (Some n)
      then show ?thesis using step s1 eq by (simp add: run wp_run flip: publish_load_def)
    qed
  qed
  then show ?thesis using assms(3) by blast
qed

lemma keeps_publish_load: "keeps sync_inv (publish_load env n)"
  unfolding publish_load_def
  by (intro keeps_intros keeps_outside keeps_change keeps_apply_bulk_success sync_inv_worldless) simp

lemma publish_load_caught_up: "wp (publish_load env n) (\<lambda>a t. ms_caught_up (ss_state t)) s"
  by (simp add: publish_load_def apply_bulk_success_def wp_simps set_synced_locked_def put_state_def Let_def)

lemma initial_load_vouched:
  assumes "initial_bulk_load env poll s = Some t"
  shows "sync_inv s \<longrightarrow> vouched t"
proof (rule initial_load_rule [OF sync_inv_worldless _ assms])
  fix s :: "'a sync_state" assume "sync_inv s"
  then have "sync_inv (snd (run_state (bulk_resync env) s))" by (rule keepsD [OF keeps_bulk_resync])
  then show "wp (bulk_resync env)
      (\<lambda>r t. case r of None \<Rightarrow> sync_inv t | Some n \<Rightarrow> wp (publish_load env n) (\<lambda>a t. vouched t) t) s"
    using keepsD [OF keeps_publish_load] publish_load_caught_up by (auto simp: wp_def case_prod_beta vouched_def split: option.split)
qed

text \<open>The phases of the start-up: after the bulk load the state vouches for the mempool.\<close>

lemma run_startE:
  assumes "run_start env cfg w net = Some s"
  obtains a b where "wait_until_mempool_loaded env (sc_poll_interval cfg) (run_init w net) = Some a"
    "initial_bulk_load env (sc_poll_interval cfg) a = Some b" "s = snd (run_state (start_steady env cfg) b)" "vouched b"
proof -
  from assms obtain a b where ab: "wait_until_mempool_loaded env (sc_poll_interval cfg) (run_init w net) = Some a"
      "initial_bulk_load env (sc_poll_interval cfg) a = Some b" "s = snd (run_state (start_steady env cfg) b)"
    unfolding run_start_def bind_eq_Some_conv map_option_eq_Some by blast
  have "vouched b" using wait_keeps [OF sync_inv_worldless ab(1)] initial_load_vouched [OF ab(2)] sync_inv_init [of w net] by blast
  then show thesis using that ab by blast
qed

lemma run_start_inv:
  assumes "run_start env cfg w net = Some s"
  shows "sync_inv s"
  using assms
proof (rule run_startE)
  fix b assume "s = snd (run_state (start_steady env cfg) b)" "vouched b"
  then show ?thesis using keepsD [OF keeps_start_steady, of b] by (simp add: vouched_def)
qed

lemma sync_reach_inv:
  assumes "sync_reach env cfg w net s"
  shows "sync_inv s"
  using assms
proof (induction rule: sync_reach.induct)
  case (sync_started s)
  then show ?case by (rule run_start_inv)
next
  case (sync_ticked s)
  then show ?case by (intro keepsD [OF keeps_run_tick])
qed

end
