(* ===== verification/Sync_Facts.thy ===== *)
theory Sync_Facts
  imports Sync_Logic
begin

text \<open>
  Facts about the parts of a tick: the fetch loop processes a prefix of the completion order, what a
  batch contains when the node's answers do not change during the tick, and how the cache ends up.
\<close>

subsection \<open>Fetching\<close>

definition process_all :: "(txid \<Rightarrow> rpc_error + mempool_entry option) \<Rightarrow> txid list \<Rightarrow> fetch_batch \<Rightarrow> fetch_batch" where
  "process_all answer ts b = fold (\<lambda>t. process_result t (answer t)) ts b"

definition answered :: "(txid \<Rightarrow> rpc_error + mempool_entry option) \<Rightarrow> txid list \<Rightarrow> (txid \<times> mempool_tx) list" where
  "answered answer ts = List.map_filter (\<lambda>t. case answer t of Inr (Some e) \<Rightarrow> Some (t, mempool_tx_from e) | _ \<Rightarrow> None) ts"

lemma process_all_sel:
  "fb_fetched (process_all answer ts b) = fb_fetched b @ answered answer ts"
  "fb_fetch_errors (process_all answer ts b) = fb_fetch_errors b + length (filter (\<lambda>t. isl (answer t)) ts)"
  "fb_resolved (process_all answer ts b) = fb_resolved b + length ts"
  by (induction ts arbitrary: b)
    (simp_all add: process_all_def answered_def process_result_def Let_def List.map_filter_simps split: sum.split option.split)

definition static_answers :: "'w env \<Rightarrow> (txid \<Rightarrow> rpc_error + mempool_entry option) \<Rightarrow> bool" where
  "static_answers env answer \<longleftrightarrow> (\<forall>t w. fst (rpc_mempool_entry env t w) = answer t)"

lemma run_outside: "run_state (outside f) s = (fst (f (ss_world s)), s\<lparr>ss_world := snd (f (ss_world s))\<rparr>)"
  by (simp add: outside_def case_prod_beta)

lemma run_return: "run_state (return a) s = (a, s)"
  by (simp add: return_def)

lemma drain_spec:
  assumes "static_answers env answer"
  shows "\<exists>w. run_state (drain_ready env ts b) s = (process_all answer ts b, s\<lparr>ss_world := w\<rparr>)"
proof (induction ts arbitrary: b s)
  case Nil
  show ?case by (intro exI [of _ "ss_world s"]) (simp add: process_all_def run_return)
next
  case (Cons t ts)
  have a: "fst (rpc_mempool_entry env t (ss_world s)) = answer t" using assms by (simp add: static_answers_def)
  from Cons [of "process_result t (answer t)  b" "s\<lparr>ss_world := snd (rpc_mempool_entry env t (ss_world s))\<rparr>"]
  show ?case by (simp add: run_outside a process_all_def)
qed

text \<open>The clock readings of a fetch pass that is never cut short: one after each result.\<close>

fun pass_clock :: "'w env \<Rightarrow> txid list \<Rightarrow> 'w \<Rightarrow> nat list" where
  "pass_clock env [] w = []"
| "pass_clock env (t # ts) w =
     (let (now, w) = instant_now env (snd (rpc_mempool_entry env t w)) in now # pass_clock env ts w)"

lemma fetch_loop_spec:
  assumes "static_answers env answer"
  shows "\<exists>m w. m \<le> length ts \<and>
    run_state (fetch_loop env budget start ts b) s = (process_all answer (take m ts) b, s\<lparr>ss_world := w\<rparr>) \<and>
    ((\<forall>now \<in> set (pass_clock env ts (ss_world s)). now - start \<le> budget) \<longrightarrow> m = length ts)"
proof (induction ts arbitrary: b s)
  case Nil
  show ?case by (intro exI [of _ 0] exI [of _ "ss_world s"]) (simp add: process_all_def run_return)
next
  case (Cons t ts)
  have a: "fst (rpc_mempool_entry env t (ss_world s)) = answer t" using assms by (simp add: static_answers_def)
  let ?w = "snd (rpc_mempool_entry env t (ss_world s))"
  let ?n = "instant_now env ?w"
  show ?case
  proof (cases "budget < fst ?n - start")
    case True
    let ?k = "ready_now env (snd ?n)"
    obtain w where "run_state (drain_ready env (take (fst ?k) ts) (process_result t (answer t) b))
        (s\<lparr>ss_world := snd ?k\<rparr>) = (process_all answer (take (fst ?k) ts) (process_result t (answer t) b), s\<lparr>ss_world := w\<rparr>)"
      using drain_spec [OF assms, of "take (fst ?k) ts" "process_result t (answer t) b" "s\<lparr>ss_world := snd ?k\<rparr>"] by auto
    moreover have "\<not> (\<forall>now \<in> set (pass_clock env (t # ts) (ss_world s)). now - start \<le> budget)"
      using True by (simp add: case_prod_beta)
    ultimately show ?thesis
      using True by (intro exI [of _ "Suc (min (fst ?k) (length ts))"] exI [of _ w])
        (auto simp: run_outside a process_all_def min_def simp del: pass_clock.simps)
  next
    case False
    from Cons [of "process_result t (answer t) b" "s\<lparr>ss_world := snd ?n\<rparr>"] obtain m w where
      "m \<le> length ts"
      "run_state (fetch_loop env budget start ts (process_result t (answer t) b)) (s\<lparr>ss_world := snd ?n\<rparr>) =
        (process_all answer (take m ts) (process_result t (answer t) b), s\<lparr>ss_world := w\<rparr>)"
      "(\<forall>now \<in> set (pass_clock env ts (snd ?n)). now - start \<le> budget) \<longrightarrow> m = length ts"
      by auto
    then show ?thesis
      using False by (intro exI [of _ "Suc m"] exI [of _ w]) (auto simp: run_outside a process_all_def case_prod_beta)
  qed
qed

definition fair_order :: "'w env \<Rightarrow> bool" where
  "fair_order env \<longleftrightarrow> (\<forall>n ts w. mset (fst (completion_order env n ts w)) = mset ts)"

text \<open>
  Whenever a fetch pass over at most 2000 transactions begins, each of its results is there within the budget of its
  start.  How much time passes between two passes is left open.
\<close>

definition in_budget :: "'w env \<Rightarrow> nat \<Rightarrow> bool" where
  "in_budget env budget \<longleftrightarrow> (\<forall>c ts w. length ts \<le> MAX_NEW_FETCH_PER_TICK \<longrightarrow>
     (let (start, w) = instant_now env w; (order, w) = completion_order env c ts w
      in \<forall>now \<in> set (pass_clock env order w). now - start \<le> budget))"

lemma pass_clock_reading: "now \<in> set (pass_clock env ts w) \<Longrightarrow> \<exists>w. now = fst (instant_now env w)"
  by (induction ts arbitrary: w) (auto simp: case_prod_beta)

text \<open>An environment whose clock, \<open>time\<close> of its world, moves by at most \<open>d\<close> per fetch keeps a budget of \<open>2000 * d\<close>.\<close>

lemma paced_in_budget:
  assumes "\<And>w. fst (instant_now env w) = time w" "\<And>w. time (snd (instant_now env w)) = time w"
    and "\<And>t w. time (snd (rpc_mempool_entry env t w)) \<le> time w + d"
    and "\<And>c ts w. length (fst (completion_order env c ts w)) = length ts"
    and "\<And>c ts w. time (snd (completion_order env c ts w)) = time w" "2000 * d \<le> budget"
  shows "in_budget env budget"
proof -
  have pass: "now \<le> time w + length ts * d" if "now \<in> set (pass_clock env ts w)" for now ts w
    using that
  proof (induction ts arbitrary: w)
    case (Cons t ts)
    let ?w = "snd (rpc_mempool_entry env t w)"
    have "now = time ?w \<or> now \<le> time ?w + length ts * d"
      using Cons.prems Cons.IH [of "snd (instant_now env ?w)"] assms(1,2) by (auto simp: case_prod_beta)
    then show ?case using assms(3) [of t w] by auto
  qed simp
  have "length ts * d \<le> budget" if "length ts \<le> MAX_NEW_FETCH_PER_TICK" for ts :: "txid list"
    by (rule order_trans [OF mult_le_mono1 [OF that [unfolded MAX_NEW_FETCH_PER_TICK_def]] assms(6)])
  note short = this
  have "now - fst (instant_now env w) \<le> budget"
    if "length ts \<le> MAX_NEW_FETCH_PER_TICK" "now \<in> set (pass_clock env (fst o_w) (snd o_w))"
      "o_w = completion_order env c ts (snd (instant_now env w))" for c ts w now o_w
    using pass [OF that(2)] short [OF that(1)] unfolding that(3) assms(1,2,4,5) by simp
  then show ?thesis unfolding in_budget_def by (simp add: case_prod_beta)
qed

lemma fetch_new_spec:
  assumes "static_answers env answer" "fair_order env"
    and "n \<le> MAX_NEW_FETCH_PER_TICK"
  shows "\<exists>done w. run_state (fetch_new_entries env ts c budget n) s =
      (\<lparr>fr_fetched = answered answer done, fr_fetch_errors = length (filter (\<lambda>t. isl (answer t)) done),
        fr_incomplete = length done < length (take n ts)\<rparr>, s\<lparr>ss_world := w\<rparr>) \<and>
    mset done \<subseteq># mset (take n ts) \<and> (in_budget env budget \<longrightarrow> mset done = mset (take n ts))"
proof -
  let ?st = "instant_now env (ss_world s)"
  let ?o = "completion_order env c (take n ts) (snd ?st)"
  have o: "mset (fst ?o) = mset (take n ts)" using assms(2) by (simp add: fair_order_def)
  from fetch_loop_spec [OF assms(1), of "fst ?o" budget "fst ?st" "\<lparr>fb_fetched = [], fb_fetch_errors = 0, fb_resolved = 0\<rparr>"
      "s\<lparr>ss_world := snd ?o\<rparr>"]
  obtain m w where m: "m \<le> length (fst ?o)"
      "run_state (fetch_loop env budget (fst ?st) (fst ?o) \<lparr>fb_fetched = [], fb_fetch_errors = 0, fb_resolved = 0\<rparr>)
        (s\<lparr>ss_world := snd ?o\<rparr>) =
        (process_all answer (take m (fst ?o)) \<lparr>fb_fetched = [], fb_fetch_errors = 0, fb_resolved = 0\<rparr>, s\<lparr>ss_world := w\<rparr>)"
      "(\<forall>now \<in> set (pass_clock env (fst ?o) (snd ?o)). now - fst ?st \<le> budget) \<longrightarrow> m = length (fst ?o)"
    by auto
  have "mset (take m (fst ?o)) \<subseteq># mset (take n ts)"
    using o by (metis append_take_drop_id mset_append mset_subset_eq_add_left)
  moreover have "\<forall>now \<in> set (pass_clock env (fst ?o) (snd ?o)). now - fst ?st \<le> budget" if "in_budget env budget"
    using that [unfolded in_budget_def, rule_format, of "take n ts" "ss_world s" c] assms(3) by (simp add: case_prod_beta)
  then have "in_budget env budget \<longrightarrow> mset (take m (fst ?o)) = mset (take n ts)" using m(3) o by simp
  ultimately show ?thesis
    using m(2) by (intro exI [of _ "take m (fst ?o)"] exI [of _ w])
      (simp add: fetch_new_entries_def Let_def run_outside run_return process_all_sel)
qed

lemma answered_keys: "fst ` set (answered answer ts) = {t \<in> set ts. \<exists>e. answer t = Inr (Some e)}"
  by (induction ts) (auto simp: answered_def List.map_filter_simps split: sum.splits option.splits)

lemma mset_eq_set_length: "mset xs = mset ys \<Longrightarrow> set xs = set ys \<and> length xs = length ys"
  by (metis mset_eq_setD mset_eq_length)

subsection \<open>The end of a tick\<close>

lemma fee_throttled_run: "\<exists>w. snd (run_state (fee_throttled env n force) s) = s\<lparr>ss_world := w\<rparr>"
  by (cases s) (simp add: fee_throttled_def run_outside run_return look_def)

text \<open>A recomputation changes nothing of the shared state but the estimate.\<close>

definition same_view :: "mempool_state \<Rightarrow> mempool_state \<Rightarrow> bool" where
  "same_view g g' \<longleftrightarrow> (\<exists>est. g' = g\<lparr>ms_fee_estimate := est\<rparr>)"

lemma same_view_refl [simp]: "same_view g g"
  by (cases g) (auto simp: same_view_def)

lemma same_view_estimate [simp]: "same_view g (g\<lparr>ms_fee_estimate := est\<rparr>)"
  unfolding same_view_def by blast

lemma same_viewD:
  assumes "same_view g g'"
  shows "ms_txs g' = ms_txs g" "ms_caught_up g' = ms_caught_up g" "ms_last_sync_ok g' = ms_last_sync_ok g"
    "ms_min_fee g' = ms_min_fee g" "ms_tip_height g' = ms_tip_height g"
  using assms by (auto simp: same_view_def)

lemma recompute_now_view: "same_view (ss_state s) (ss_state (snd (run_state (recompute_now env) s)))"
proof -
  have "wp (recompute_now env) (\<lambda>a t. same_view (ss_state s) (ss_state t)) s"
    by (auto simp: recompute_now_def wp_simps put_state_def split: option.split sum.split)
  then show ?thesis by (simp add: wp_run)
qed

lemma recompute_view: "same_view (ss_state s) (ss_state (snd (run_state (maybe_recompute_fees env n force) s)))"
proof -
  obtain w where w: "snd (run_state (fee_throttled env n force) s) = s\<lparr>ss_world := w\<rparr>"
    using fee_throttled_run [of env n force s] by blast
  show ?thesis
    using recompute_now_view [of "s\<lparr>ss_world := w\<rparr>" env] w
    by (simp add: maybe_recompute_fees_def case_prod_beta run_return)
qed

lemma recompute_keeps_bulk: "ss_last_bulk_resync (snd (run_state (maybe_recompute_fees env n force) s)) = ss_last_bulk_resync s"
proof -
  have "wp (recompute_now env) (\<lambda>a t. ss_last_bulk_resync t = ss_last_bulk_resync s) s" for s :: "'a sync_state"
    by (auto simp: recompute_now_def wp_simps put_state_def split: option.split sum.split)
  moreover obtain w where "snd (run_state (fee_throttled env n force) s) = s\<lparr>ss_world := w\<rparr>"
    using fee_throttled_run [of env n force s] by blast
  ultimately show ?thesis
    by (simp add: maybe_recompute_fees_def case_prod_beta run_return wp_run)
qed

text \<open>The flag after a critical section, and what the section leaves alone.\<close>

lemma set_synced_locked_sel [simp]:
  "ss_state (set_synced_locked b r n s) = (ss_state s)\<lparr>ms_caught_up := b\<rparr>"
  "ss_world (set_synced_locked b r n s) = ss_world s"
  "ss_last_bulk_resync (set_synced_locked b r n s) = ss_last_bulk_resync s"
  "ss_last_fee_recompute (set_synced_locked b r n s) = ss_last_fee_recompute s"
  "ss_trace (set_synced_locked b r n s) = ss_trace s"
  by (simp_all add: set_synced_locked_def put_state_def Let_def)

lemma put_state_sel [simp]:
  "ss_state (put_state f s) = f (ss_state s)" "ss_world (put_state f s) = ss_world s"
  "ss_last_bulk_resync (put_state f s) = ss_last_bulk_resync s" "ss_trace (put_state f s) = ss_trace s"
  by (simp_all add: put_state_def)

lemma wp_recompute:
  assumes "\<And>t. same_view (ss_state s) (ss_state t) \<Longrightarrow> ss_last_bulk_resync t = ss_last_bulk_resync s \<Longrightarrow> Q () t"
  shows "wp (maybe_recompute_fees env n force) Q s"
  using assms [OF recompute_view recompute_keeps_bulk] by (simp add: wp_def case_prod_beta)

lemma wp_fetch_new:
  assumes "run_state (fetch_new_entries env ts c budget n) s = (r, t)" "Q r t"
  shows "wp (fetch_new_entries env ts c budget n) Q s"
  using assms by (simp add: wp_def)

lemma wp_remove_gone:
  "wp (remove_gone gone) Q s = Q () (s\<lparr>ss_state := (ss_state s)\<lparr>ms_txs := fold AList.delete gone (ms_txs (ss_state s))\<rparr>,
     ss_trace := ss_trace s @ [(ss_state s)\<lparr>ms_txs := fold AList.delete gone (ms_txs (ss_state s))\<rparr>]\<rparr>)"
  by (cases s) (simp add: remove_gone_def wp_simps put_state_def)

lemma wp_finish_tick:
  assumes "\<And>t. ms_txs (ss_state t) = fold (\<lambda>(t, tx). AList.update t tx) fetched (ms_txs (ss_state s)) \<Longrightarrow>
      ms_caught_up (ss_state t) = (\<not> backlog) \<Longrightarrow> (\<not> backlog \<longrightarrow> ms_last_sync_ok (ss_state t) \<noteq> None) \<Longrightarrow>
      ss_last_bulk_resync t = ss_last_bulk_resync s \<Longrightarrow> Q () t"
  shows "wp (finish_tick env fetched min_fee tip backlog n) Q s"
  unfolding finish_tick_def wp_simps using assms by (cases backlog) simp_all

text \<open>One tick from \<open>compute_diff\<close> on, with static answers: \<open>done\<close> are the fetches that were resolved.\<close>

definition applied ::
  "(txid \<Rightarrow> rpc_error + mempool_entry option) \<Rightarrow> txid list \<Rightarrow> bool \<Rightarrow> 'w sync_state \<Rightarrow> 'w sync_state \<Rightarrow> bool" where
  "applied answer node fast s t \<longleftrightarrow>
     (let fresh = df_new (compute_diff (al_keys (ms_txs (ss_state s))) node);
          tried = take MAX_NEW_FETCH_PER_TICK fresh
      in \<exists>xs. mset xs \<subseteq># mset tried \<and> (fast \<longrightarrow> mset xs = mset tried) \<and>
        set (al_keys (ms_txs (ss_state t))) =
          (set (al_keys (ms_txs (ss_state s))) \<inter> set node) \<union> {x \<in> set xs. \<exists>e. answer x = Inr (Some e)} \<and>
        al_ok (ms_txs (ss_state t)) \<and>
        (ms_caught_up (ss_state t) \<longleftrightarrow>
           length fresh \<le> MAX_NEW_FETCH_PER_TICK \<and> (\<forall>x \<in> set xs. \<not> isl (answer x)) \<and> mset xs = mset tried) \<and>
        ss_last_bulk_resync t = ss_last_bulk_resync s)"

lemma sub_mset_length:
  assumes "mset xs \<subseteq># mset ys"
  shows "\<not> length xs < length ys \<longleftrightarrow> mset xs = mset ys"
proof
  assume "\<not> length xs < length ys"
  moreover have "size (mset xs) \<le> size (mset ys)" by (rule size_mset_mono [OF assms])
  ultimately have "size (mset ys - mset xs) = 0" using size_Diff_submset [OF assms] by simp
  then show "mset xs = mset ys" using assms by (metis size_eq_0_iff_empty subset_mset.add_diff_inverse add_0_right)
next
  assume "mset xs = mset ys" then show "\<not> length xs < length ys" using mset_eq_length by fastforce
qed

lemma apply_diff_spec:
  assumes "static_answers env answer" "fair_order env" "al_ok (ms_txs (ss_state s))"
  shows "applied answer node (in_budget env (sc_tick_budget cfg)) s
    (snd (run_state (apply_diff env cfg info (al_keys (ms_txs (ss_state s))) node) s))"
proof -
  let ?keys = "al_keys (ms_txs (ss_state s))"
  let ?d = "compute_diff ?keys node"
  let ?cache = "fold AList.delete (df_gone ?d) (ms_txs (ss_state s))"
  let ?s = "s\<lparr>ss_state := (ss_state s)\<lparr>ms_txs := ?cache\<rparr>, ss_trace := ss_trace s @ [(ss_state s)\<lparr>ms_txs := ?cache\<rparr>]\<rparr>"
  obtain xs w where f: "run_state (fetch_new_entries env (df_new ?d) (sc_fetch_concurrency cfg) (sc_tick_budget cfg)
        MAX_NEW_FETCH_PER_TICK) ?s =
      (\<lparr>fr_fetched = answered answer xs, fr_fetch_errors = length (filter (\<lambda>t. isl (answer t)) xs),
        fr_incomplete = length xs < length (take MAX_NEW_FETCH_PER_TICK (df_new ?d))\<rparr>, ?s\<lparr>ss_world := w\<rparr>)"
    and xs: "mset xs \<subseteq># mset (take MAX_NEW_FETCH_PER_TICK (df_new ?d))"
      "in_budget env (sc_tick_budget cfg) \<longrightarrow> mset xs = mset (take MAX_NEW_FETCH_PER_TICK (df_new ?d))"
    using fetch_new_spec [OF assms(1,2) order_refl] by blast
  have cache: "al_ok ?cache" "set (al_keys ?cache) = set ?keys \<inter> set node"
    by (auto simp: al.ok_del_all [OF assms(3)] al.keys_del_all [OF assms(3)])
  have err: "(0 < length (filter (\<lambda>t. isl (answer t)) xs)) = (\<exists>x \<in> set xs. isl (answer x))"
    by (auto simp: filter_empty_conv)
  have final: "applied answer node (in_budget env (sc_tick_budget cfg)) s t"
    if "ms_txs (ss_state t) = fold (\<lambda>(t, tx). AList.update t tx) (answered answer xs) ?cache"
      "ms_caught_up (ss_state t) = (\<not> is_backlog (length (df_new ?d)) MAX_NEW_FETCH_PER_TICK
        (length (filter (\<lambda>t. isl (answer t)) xs)) (length xs < length (take MAX_NEW_FETCH_PER_TICK (df_new ?d))))"
      "ss_last_bulk_resync t = ss_last_bulk_resync s" for t
    unfolding applied_def Let_def
  proof (intro exI [of _ xs] conjI xs)
    show "set (al_keys (ms_txs (ss_state t))) = set ?keys \<inter> set node \<union> {x \<in> set xs. \<exists>e. answer x = Inr (Some e)}"
      unfolding that(1) al.keys_put_all cache(2) answered_keys ..
    show "al_ok (ms_txs (ss_state t))" unfolding that(1) by (rule al.ok_put_all [OF cache(1)])
    show "ms_caught_up (ss_state t) = (length (df_new ?d) \<le> MAX_NEW_FETCH_PER_TICK \<and>
        (\<forall>x \<in> set xs. \<not> isl (answer x)) \<and> mset xs = mset (take MAX_NEW_FETCH_PER_TICK (df_new ?d)))"
      unfolding that(2) is_backlog_def err sub_mset_length [OF xs(1), symmetric] by auto
    show "ss_last_bulk_resync t = ss_last_bulk_resync s" by (rule that(3))
  qed
  have "wp (apply_diff env cfg info ?keys node) (\<lambda>a t. applied answer node (in_budget env (sc_tick_budget cfg)) s t) s"
    unfolding apply_diff_def Let_def wp_simps wp_remove_gone
    by (rule wp_fetch_new [OF f], rule wp_finish_tick)
      (auto simp: wp_simps intro!: wp_recompute final dest: same_viewD)
  then show ?thesis by (simp add: wp_run)
qed

subsection \<open>A tick against a node whose mempool stands still\<close>

definition node_serves ::
  "'w env \<Rightarrow> mempool_info \<Rightarrow> txid list \<Rightarrow> (txid \<Rightarrow> rpc_error + mempool_entry option) \<Rightarrow> bool" where
  "node_serves env info node answer \<longleftrightarrow>
     (\<forall>w. fst (rpc_mempool_info env w) = Inr info) \<and> (\<forall>w. fst (rpc_raw_mempool_txids env w) = Inr node) \<and>
     static_answers env answer \<and> fair_order env"

definition tick :: "'w env \<Rightarrow> sync_config \<Rightarrow> 'w sync_state \<Rightarrow> 'w sync_state" where
  "tick env cfg s = snd (run_state (run_tick env cfg) s)"

definition cached :: "'w sync_state \<Rightarrow> txid set" where
  "cached s = set (al_keys (ms_txs (ss_state s)))"

lemma cached_length: "al_ok (ms_txs (ss_state s)) \<Longrightarrow> length (ms_txs (ss_state s)) = card (cached s)"
  using distinct_card [OF al.distinct_keys, of "ms_txs (ss_state s)"] by (simp add: cached_def al_keys_def)

lemma applied_world [simp]: "applied answer node fast (s\<lparr>ss_world := w\<rparr>) t = applied answer node fast s t"
  by (simp add: applied_def)

lemma steady_diff:
  assumes node: "node_serves env info node answer" and loaded: "unwrap_or (mi_loaded info) True"
    and near: "\<not> is_mass_drop (length (ms_txs (ss_state s))) (card (set node))"
  obtains w where "snd (run_state (steady_tick env cfg) s) =
      snd (run_state (apply_diff env cfg info (al_keys (ms_txs (ss_state s))) (remdups node)) (s\<lparr>ss_world := w\<rparr>))"
  using assms
  by (auto simp: steady_tick_def Let_def run_outside look_def read_state_def node_serves_def
      decide_desync_def al_keys_def length_remdups_card_conv)

lemma steady_applied:
  assumes node: "node_serves env info node answer" and "unwrap_or (mi_loaded info) True"
    and ok: "al_ok (ms_txs (ss_state s))"
    and "\<not> is_mass_drop (length (ms_txs (ss_state s))) (card (set node))"
  shows "applied answer (remdups node) (in_budget env (sc_tick_budget cfg)) s (snd (run_state (steady_tick env cfg) s))"
proof -
  obtain w where w: "snd (run_state (steady_tick env cfg) s) =
      snd (run_state (apply_diff env cfg info (al_keys (ms_txs (ss_state s))) (remdups node)) (s\<lparr>ss_world := w\<rparr>))"
    using steady_diff assms by blast
  have "static_answers env answer" "fair_order env" using node by (simp_all add: node_serves_def)
  from apply_diff_spec [OF this, of "s\<lparr>ss_world := w\<rparr>" "remdups node" cfg info] ok show ?thesis by (simp add: w)
qed

lemma tick_applied:
  assumes "node_serves env info node answer" "unwrap_or (mi_loaded info) True" "al_ok (ms_txs (ss_state s))"
    and "\<not> is_mass_drop (length (ms_txs (ss_state s))) (card (set node))"
  shows "applied answer (remdups node) (in_budget env (sc_tick_budget cfg)) s (tick env cfg s)"
proof -
  let ?w = "snd (sleep_or_wake env (sc_poll_interval cfg) (ss_world s))"
  have "tick env cfg s = snd (run_state (steady_tick env cfg) (s\<lparr>ss_world := ?w\<rparr>))"
    by (simp add: tick_def run_tick_def run_outside)
  then show ?thesis using steady_applied [of env info node answer "s\<lparr>ss_world := ?w\<rparr>" cfg] assms by simp
qed

lemma tick_reconcile:
  assumes "applied answer node fast s t" "ms_caught_up (ss_state t)"
  shows "cached t = {x \<in> set node. x \<in> cached s \<or> (\<exists>e. answer x = Inr (Some e))}"
    and "\<forall>x \<in> set node - cached s. \<not> isl (answer x)"
proof -
  let ?fresh = "df_new (compute_diff (al_keys (ms_txs (ss_state s))) node)"
  obtain xs where xs: "cached t = (cached s \<inter> set node) \<union> {x \<in> set xs. \<exists>e. answer x = Inr (Some e)}"
      "length ?fresh \<le> MAX_NEW_FETCH_PER_TICK" "\<forall>x \<in> set xs. \<not> isl (answer x)"
      "mset xs = mset (take MAX_NEW_FETCH_PER_TICK ?fresh)"
    using assms by (auto simp: applied_def Let_def cached_def)
  then have "set xs = set node - cached s" using mset_eq_setD [OF xs(4)] by (simp add: cached_def)
  with xs show "cached t = {x \<in> set node. x \<in> cached s \<or> (\<exists>e. answer x = Inr (Some e))}"
    "\<forall>x \<in> set node - cached s. \<not> isl (answer x)" by auto
qed

lemma drain_step:
  assumes app: "applied answer node True s t" and d: "distinct node"
    and ans: "\<forall>x \<in> set node. \<exists>e. answer x = Inr (Some e)"
  shows "card (set node - cached t) = card (set node - cached s) - MAX_NEW_FETCH_PER_TICK"
    and "cached t \<subseteq> set node" and "al_ok (ms_txs (ss_state t))"
    and "ms_caught_up (ss_state t) \<longleftrightarrow> card (set node - cached s) \<le> MAX_NEW_FETCH_PER_TICK"
proof -
  let ?fresh = "df_new (compute_diff (al_keys (ms_txs (ss_state s))) node)"
  let ?n = MAX_NEW_FETCH_PER_TICK
  have df: "distinct ?fresh" "set ?fresh = set node - cached s" using d by (auto simp: compute_diff_def cached_def)
  have len: "length ?fresh = card (set node - cached s)" using distinct_card [OF df(1)] df(2) by simp
  obtain xs where xs: "mset xs = mset (take ?n ?fresh)"
      "cached t = (cached s \<inter> set node) \<union> {x \<in> set xs. \<exists>e. answer x = Inr (Some e)}" "al_ok (ms_txs (ss_state t))"
      "ms_caught_up (ss_state t) \<longleftrightarrow> length ?fresh \<le> ?n \<and> (\<forall>x \<in> set xs. \<not> isl (answer x)) \<and> mset xs = mset (take ?n ?fresh)"
    using app unfolding applied_def Let_def cached_def by blast
  have sx: "set xs = set (take ?n ?fresh)" using mset_eq_setD [OF xs(1)] .
  have sub: "set xs \<subseteq> set node - cached s" using set_take_subset [of ?n ?fresh] df(2) sx by blast
  have c: "cached t = (cached s \<inter> set node) \<union> set xs" using xs(2) sub ans by blast
  then show "cached t \<subseteq> set node" using sub by blast
  show "al_ok (ms_txs (ss_state t))" by (rule xs(3))
  have "\<not> isl (answer x)" if "x \<in> set xs" for x using that sub ans by fastforce
  then show "ms_caught_up (ss_state t) \<longleftrightarrow> card (set node - cached s) \<le> ?n" using xs(1,4) len by simp
  have "set node - cached t = set ?fresh - set (take ?n ?fresh)" unfolding c df(2) sx by blast
  also have "\<dots> = set (drop ?n ?fresh)"
  proof -
    have "set ?fresh = set (take ?n ?fresh) \<union> set (drop ?n ?fresh)"
      by (metis append_take_drop_id set_append)
    moreover have "set (take ?n ?fresh) \<inter> set (drop ?n ?fresh) = {}"
      by (rule set_take_disj_set_drop_if_distinct [OF df(1)]) simp
    ultimately show ?thesis by blast
  qed
  finally show "card (set node - cached t) = card (set node - cached s) - ?n"
    using distinct_card [of "drop ?n ?fresh"] df(1) len by simp
qed

subsection \<open>The time stamp of the last bulk resync\<close>

definition bulk_at :: "nat \<Rightarrow> 'w sync_state \<Rightarrow> bool" where
  "bulk_at b s \<longleftrightarrow> ss_last_bulk_resync s = b"

lemma bulk_at_worldless [simp]: "worldless (bulk_at b)"
  by (simp add: worldless_def bulk_at_def)

lemma bulk_at_writes:
  "keeps (bulk_at b) (set_synced c r n)" "keeps (bulk_at b) (apply_bulk_success env n)"
  "keeps (bulk_at b) (bulk_resync env)" "keeps (bulk_at b) (remove_gone gone)"
  "keeps (bulk_at b) (finish_tick env fetched min_fee tip backlog n)"
  "keeps (bulk_at b) (maybe_recompute_fees env k force)" "keeps (bulk_at b) (rpc_failed env r e)"
  unfolding set_synced_def apply_bulk_success_def bulk_resync_def remove_gone_def finish_tick_def rpc_failed_def
    keeps_wp [of _ "maybe_recompute_fees env k force"]
  by (auto simp: bulk_at_def intro!: keeps_intros keeps_outside keeps_reconnect keeps_write_state wp_recompute)

lemma bulk_at_apply_diff: "keeps (bulk_at b) (apply_diff env cfg info cache_keys node)"
  unfolding apply_diff_def Let_def
  by (intro keeps_intros keeps_outside keeps_fetch_new bulk_at_writes bulk_at_worldless)

lemma bulk_at_publish: "keeps (bulk_at b) (bulk_and_publish env cfg)"
  unfolding bulk_and_publish_def by (intro keeps_intros bulk_at_writes)

lemma bulk_at_run: "keeps (bulk_at (ss_last_bulk_resync s)) m \<Longrightarrow> ss_last_bulk_resync (snd (run_state m s)) = ss_last_bulk_resync s"
  using keepsD [of "bulk_at (ss_last_bulk_resync s)" m s] by (simp add: bulk_at_def)

lemma bulk_stamp:
  "ss_last_bulk_resync (snd (run_state (desync env cfg action) s)) =
     (case action of WaitCooldown _ \<Rightarrow> ss_last_bulk_resync s | BulkResync _ \<Rightarrow> fst (instant_now env (ss_world s)))"
  by (cases action)
    (simp_all add: desync_def run_outside change_def bulk_at_run bulk_at_writes bulk_at_publish)

text \<open>Only a bulk resync asks for the whole mempool: everything else does the same whatever that call would do.\<close>

lemma drain_blind: "drain_ready (env\<lparr>rpc_raw_mempool_verbose := f\<rparr>) ts b = drain_ready env ts b"
  by (induction ts arbitrary: b) simp_all

lemma fetch_blind: "fetch_loop (env\<lparr>rpc_raw_mempool_verbose := f\<rparr>) budget start ts b = fetch_loop env budget start ts b"
  by (induction ts arbitrary: b) (simp_all add: drain_blind cong: if_cong)

lemma diff_blind: "apply_diff (env\<lparr>rpc_raw_mempool_verbose := f\<rparr>) cfg info ks node = apply_diff env cfg info ks node"
  by (simp add: apply_diff_def fetch_new_entries_def fetch_blind finish_tick_def maybe_recompute_fees_def fee_throttled_def
      recompute_now_def Let_def cong: if_cong)

lemma failed_blind: "rpc_failed (env\<lparr>rpc_raw_mempool_verbose := f\<rparr>) r e = rpc_failed env r e"
  by (simp add: rpc_failed_def reconnect_on_error_def cong: if_cong)

lemma not_cooling:
  assumes "decide_desync loaded n k (resync_cooling_down (Some b) now) = Some (BulkResync r)"
  shows "b + seconds 60 \<le> now"
  using assms by (auto simp: decide_desync_def resync_cooling_down_def RESYNC_COOLDOWN_def seconds_def Let_def split: if_splits)

subsection \<open>Contents of maps\<close>

lemma entries_map_alt: "entries_map entries = fold (\<lambda>(t, tx). AList.update t tx) (map (\<lambda>(t, e). (t, mempool_tx_from e)) entries) []"
proof -
  have "fold (\<lambda>(t, e). AList.update t (mempool_tx_from e)) entries m =
      fold (\<lambda>(t, tx). AList.update t tx) (map (\<lambda>(t, e). (t, mempool_tx_from e)) entries) m" for m
    by (induction entries arbitrary: m) auto
  then show ?thesis by (simp add: entries_map_def del: fold_map)
qed

lemma map_of_rev_distinct: "distinct (map fst xs) \<Longrightarrow> map_of (rev xs) = map_of xs"
  by (rule map_of_inject_set [THEN iffD2]) (simp_all add: rev_map flip: rev_map)

lemma entries_map_get:
  assumes "distinct (map fst entries)"
  shows "al_get (entries_map entries) x = map_option mempool_tx_from (map_of entries x)"
proof -
  let ?kvs = "map (\<lambda>(t, e). (t, mempool_tx_from e)) entries"
  have "map fst ?kvs = map fst entries" by (induction entries) auto
  then have "map_of (rev ?kvs) = map_of ?kvs" using assms map_of_rev_distinct [of ?kvs] by (simp only:)
  moreover have "map_of ?kvs x = map_option mempool_tx_from (map_of entries x)" by (induction entries) auto
  ultimately show ?thesis
    unfolding entries_map_alt al.get_put_all al.get_empty by (simp split: option.split)
qed

lemma entries_map_length:
  assumes "distinct (map fst entries)"
  shows "length (entries_map entries) = length entries"
proof -
  have "length (entries_map entries) = card {x. al_get (entries_map entries) x \<noteq> None}"
    using al.length_keys [OF entries_map_ok] by (simp add: al_keys_def)
  also have "{x. al_get (entries_map entries) x \<noteq> None} = set (map fst entries)"
    by (auto simp: entries_map_get [OF assms] map_of_eq_None_iff)
  also have "card \<dots> = length entries" using distinct_card [OF assms] by simp
  finally show ?thesis .
qed

lemma al_mset_eq:
  assumes "al_ok m" "al_ok m'" "al_get m = al_get m'"
  shows "mset m = mset m'"
  using assms by (simp add: al_ok_def al_get_def map_of_inject_set set_eq_iff_mset_eq_distinct distinct_map)

lemma fee_snapshot_perm:
  assumes "mset txs = mset txs'" "al_ok txs"
  shows "fee_snapshot txs = fee_snapshot txs'"
proof -
  let ?row = "\<lambda>(t, tx). (t, tx_fee tx, tx_weight tx, tx_depends tx)"
  have "inj_on fst (set (map ?row txs))"
  proof -
    have "map fst (map ?row txs) = map fst txs" by (induction txs) auto
    then have "distinct (map fst (map ?row txs))" using assms(2) by (simp only: al_ok_def)
    then show ?thesis using distinct_map [of fst "map ?row txs"] by blast
  qed
  moreover have "mset (map ?row txs) = mset (sort_key fst (map ?row txs'))" using assms(1) by simp
  ultimately show ?thesis unfolding fee_snapshot_def by (intro sort_key_inj_key_eq) simp_all
qed

subsection \<open>When the start-up returns\<close>

text \<open>One failed poll of the start-up gate, and whether a poll ends it.\<close>

definition gate_open :: "'w env \<Rightarrow> 'w sync_state \<Rightarrow> bool" where
  "gate_open env s = (case fst (rpc_mempool_info env (ss_world s)) of
     Inr info \<Rightarrow> unwrap_or (mi_loaded info) True | Inl _ \<Rightarrow> False)"

definition gate_retry :: "'w env \<Rightarrow> nat \<Rightarrow> 'w sync_state \<Rightarrow> 'w sync_state" where
  "gate_retry env poll s = snd (run_state (do {
     info \<leftarrow> outside (rpc_mempool_info env);
     (case info of Inl e \<Rightarrow> reconnect_on_error env e | Inr _ \<Rightarrow> return ());
     outside (sleep_for env poll)
   }) s)"

definition load_retry :: "'w env \<Rightarrow> nat \<Rightarrow> 'w sync_state \<Rightarrow> 'w sync_state" where
  "load_retry env poll s = snd (run_state (do { bulk_resync env; outside (sleep_for env poll) }) s)"

definition load_succeeds :: "'w env \<Rightarrow> 'w sync_state \<Rightarrow> bool" where
  "load_succeeds env s = (fst (run_state (bulk_resync env) s) \<noteq> None)"

lemma wait_step:
  "wait_until_mempool_loaded env poll s =
     (if gate_open env s then Some (snd (run_state (outside (rpc_mempool_info env)) s))
      else wait_until_mempool_loaded env poll (gate_retry env poll s))"
  by (subst wait_until_mempool_loaded.simps)
    (auto simp: gate_open_def gate_retry_def run_outside run_return case_prod_beta split: sum.split)

lemma load_step:
  "initial_bulk_load env poll s \<noteq> None \<longleftrightarrow>
     load_succeeds env s \<or> initial_bulk_load env poll (load_retry env poll s) \<noteq> None"
  by (subst initial_bulk_load.simps)
    (auto simp: load_succeeds_def load_retry_def case_prod_beta run_outside split: option.split)

lemma wait_returns:
  assumes "wait_until_mempool_loaded env poll s = Some t"
  shows "\<exists>k. gate_open env ((gate_retry env poll ^^ k) s)"
proof (rule wait_until_mempool_loaded.raw_induct [OF _ assms,
      where P = "\<lambda>env poll s t. \<exists>k. gate_open env ((gate_retry env poll ^^ k) s)"])
  fix wait and env :: "'a env" and poll s t
  assume IH: "\<And>env poll s t. wait env poll s = Some t \<Longrightarrow> \<exists>k. gate_open env ((gate_retry env poll ^^ k) s)"
    and step: "(case run_state (outside (rpc_mempool_info env)) s of
      (Inl e, s) \<Rightarrow> wait env poll (snd (run_state (do { reconnect_on_error env e; outside (sleep_for env poll) }) s))
    | (Inr info, s) \<Rightarrow> if unwrap_or (mi_loaded info) True then Some s
        else wait env poll (snd (run_state (outside (sleep_for env poll)) s))) = Some t"
  show "\<exists>k. gate_open env ((gate_retry env poll ^^ k) s)"
  proof (cases "gate_open env s")
    case True
    then show ?thesis by (intro exI [of _ 0]) simp
  next
    case False
    then have "wait env poll (gate_retry env poll s) = Some t"
      using step
      by (auto simp: gate_open_def gate_retry_def run_outside run_return case_prod_beta split: sum.splits if_splits)
    from IH [OF this] obtain k where "gate_open env ((gate_retry env poll ^^ k) (gate_retry env poll s))" ..
    then show ?thesis by (intro exI [of _ "Suc k"]) (simp add: funpow_swap1)
  qed
qed

lemma wait_opens: "gate_open env ((gate_retry env poll ^^ k) s) \<Longrightarrow> wait_until_mempool_loaded env poll s \<noteq> None"
proof (induction k arbitrary: s)
  case 0
  then show ?case by (subst wait_step) simp
next
  case (Suc k)
  then show ?case by (subst wait_step) (simp add: funpow_swap1)
qed

lemma load_returns: "load_succeeds env ((load_retry env poll ^^ k) s) \<Longrightarrow> initial_bulk_load env poll s \<noteq> None"
proof (induction k arbitrary: s)
  case 0
  then show ?case by (subst load_step) simp
next
  case (Suc k)
  then show ?case by (subst load_step) (simp add: funpow_swap1)
qed

lemma load_stops:
  assumes "initial_bulk_load env poll s = Some t"
  shows "\<exists>k. load_succeeds env ((load_retry env poll ^^ k) s)"
proof (rule initial_bulk_load.raw_induct [OF _ assms,
      where P = "\<lambda>env poll s t. \<exists>k. load_succeeds env ((load_retry env poll ^^ k) s)"])
  fix load and env :: "'a env" and poll s t
  assume IH: "\<And>env poll s t. load env poll s = Some t \<Longrightarrow> \<exists>k. load_succeeds env ((load_retry env poll ^^ k) s)"
    and step: "(case run_state (bulk_resync env) s of
      (None, s) \<Rightarrow> load env poll (snd (run_state (outside (sleep_for env poll)) s))
    | (Some n_txs, s) \<Rightarrow> Some (snd (run_state (do {
        now \<leftarrow> outside (instant_now env);
        change (\<lambda>s. s\<lparr>ss_last_bulk_resync := now\<rparr>);
        apply_bulk_success env n_txs
      }) s))) = Some t"
  show "\<exists>k. load_succeeds env ((load_retry env poll ^^ k) s)"
  proof (cases "load_succeeds env s")
    case True
    then show ?thesis by (intro exI [of _ 0]) simp
  next
    case False
    obtain r u where run: "run_state (bulk_resync env) s = (r, u)" by fastforce
    with False have "r = None" by (simp add: load_succeeds_def)
    then have "load env poll (load_retry env poll s) = Some t"
      using step run by (simp add: load_retry_def)
    from IH [OF this] obtain k where "load_succeeds env ((load_retry env poll ^^ k) (load_retry env poll s))" ..
    then show ?thesis by (intro exI [of _ "Suc k"]) (simp add: funpow_swap1)
  qed
qed

lemma run_start_returns:
  assumes "gate_open env ((gate_retry env (sc_poll_interval cfg) ^^ k) (run_init w net))" "\<And>s. \<exists>m. load_succeeds env ((load_retry env (sc_poll_interval cfg) ^^ m) s)"
  shows "\<exists>s. run_start env cfg w net = Some s"
proof -
  obtain a where a: "wait_until_mempool_loaded env (sc_poll_interval cfg) (run_init w net) = Some a"
    using wait_opens [OF assms(1)] by blast
  obtain b where b: "initial_bulk_load env (sc_poll_interval cfg) a = Some b"
    using assms(2) [of a] load_returns by blast
  show ?thesis unfolding run_start_def a bind.bind_lunit b by simp
qed

subsection \<open>What a resync publishes\<close>

lemma entries_map_keys: "set (al_keys (entries_map entries)) = fst ` set entries"
  unfolding entries_map_alt al.keys_put_all by (force simp: al_keys_def)

lemma bulk_resync_publishes:
  assumes "run_state (bulk_resync env) s = (Some n, t)"
  obtains entries where "fst (rpc_raw_mempool_verbose env (ss_world s)) = Inr entries"
    "ms_txs (ss_state t) = entries_map entries" "ss_trace t = ss_trace s @ [ss_state t]"
    "ms_last_sync_ok (ss_state t) = ms_last_sync_ok (ss_state s)" "ms_caught_up (ss_state t) = ms_caught_up (ss_state s)"
    "ms_fee_estimate (ss_state t) = ms_fee_estimate (ss_state s)"
proof -
  have "wp (bulk_resync env) (\<lambda>r t. \<forall>n. r = Some n \<longrightarrow> (\<exists>entries. fst (rpc_raw_mempool_verbose env (ss_world s)) = Inr entries \<and>
      ms_txs (ss_state t) = entries_map entries \<and> ss_trace t = ss_trace s @ [ss_state t] \<and>
      ms_last_sync_ok (ss_state t) = ms_last_sync_ok (ss_state s) \<and> ms_caught_up (ss_state t) = ms_caught_up (ss_state s) \<and>
      ms_fee_estimate (ss_state t) = ms_fee_estimate (ss_state s))) s"
    by (auto simp: bulk_resync_def reconnect_on_error_def wp_simps split: sum.split)
  then show thesis using assms that by (auto simp: wp_def)
qed

lemma recompute_trace: "\<exists>gs. ss_trace (snd (run_state (maybe_recompute_fees env k force) s)) = ss_trace s @ gs"
proof -
  obtain w where w: "snd (run_state (fee_throttled env k force) s) = s\<lparr>ss_world := w\<rparr>"
    using fee_throttled_run [of env k force s] by blast
  have "wp (recompute_now env) (\<lambda>a t. \<exists>gs. ss_trace t = ss_trace s @ gs) (s\<lparr>ss_world := w\<rparr>)"
    by (auto simp: recompute_now_def wp_simps put_state_def split: option.split sum.split)
  then show ?thesis by (simp add: maybe_recompute_fees_def case_prod_beta run_return wp_run w)
qed

text \<open>The backlog shrinks by the cap in every tick.\<close>

lemma ticks_drain:
  assumes "node_serves env info node answer" "unwrap_or (mi_loaded info) True" "al_ok (ms_txs (ss_state s))"
    and "\<not> is_mass_drop (length (ms_txs (ss_state s))) (card (set node))" "card (set node) \<le> usize_max"
    and "in_budget env (sc_tick_budget cfg)" "\<forall>x \<in> set node. \<exists>e. answer x = Inr (Some e)"
    and "card (set node - cached s) \<le> 2000 * k" "0 < k"
  shows "cached ((tick env cfg ^^ k) s) = set node \<and> ms_caught_up (ss_state ((tick env cfg ^^ k) s))"
proof -
  let ?s = "\<lambda>k. (tick env cfg ^^ k) s"
  have step: "card (set node - cached (?s (Suc n))) = card (set node - cached s) - 2000 * Suc n \<and>
      cached (?s (Suc n)) \<subseteq> set node \<and> al_ok (ms_txs (ss_state (?s (Suc n)))) \<and>
      (ms_caught_up (ss_state (?s (Suc n))) \<longleftrightarrow> card (set node - cached s) \<le> 2000 * Suc n)" for n
  proof (induction n)
    case 0
    note d = drain_step [OF _ distinct_remdups, of answer node s, simplified set_remdups, OF _ assms(7)]
    show ?case
      using d [OF tick_applied [OF assms(1-4), where cfg = cfg, unfolded assms(6) [THEN eqTrueI]]]
      by (simp add: MAX_NEW_FETCH_PER_TICK_def)
  next
    case (Suc n)
    let ?t = "?s (Suc n)"
    have ok: "al_ok (ms_txs (ss_state ?t))" and sub: "cached ?t \<subseteq> set node" using Suc by simp_all
    have "card (cached ?t) \<le> card (set node)" by (rule card_mono [OF _ sub]) simp
    then have "\<not> is_mass_drop (length (ms_txs (ss_state ?t))) (card (set node))"
      unfolding cached_length [OF ok] using assms(5)
      by (auto simp: is_mass_drop_def usize_sat_mul_def MASS_DROP_INVERSE_def)
    note app = tick_applied [OF assms(1,2) ok this, where cfg = cfg, unfolded assms(6) [THEN eqTrueI]]
    note d = drain_step [OF app distinct_remdups, simplified set_remdups, OF assms(7)]
    show ?case using d Suc by (auto simp: MAX_NEW_FETCH_PER_TICK_def)
  qed
  obtain n where k: "k = Suc n" using assms(9) by (cases k) auto
  have "card (set node - cached (?s k)) = 0" "cached (?s k) \<subseteq> set node" "ms_caught_up (ss_state (?s k))"
    using step [of n] assms(8) unfolding k by simp_all
  then show ?thesis by (auto simp: card_eq_0_iff)
qed

end
