(* ===== verification/Sync_Props.thy ===== *)
theory Sync_Props
  imports Sync_Facts
begin

text \<open>
  The correctness theorems of the sync loop (\<open>sync/mod.rs\<close>), for any node, network and clock except
  where a theorem names what it assumes of them, each with a concrete instance (\<open>calm_env\<close>: a node
  with the mempool \<open>pool\<close>, whose answers do not change).
\<close>

subsection \<open>A concrete node\<close>

definition some_entry :: mempool_entry where
  "some_entry = \<lparr>me_vsize = 250, me_weight = Some 1000, me_depends = [],
     me_fees = \<lparr>ef_base = 1000, ef_ancestor = 1000, ef_descendant = 1000\<rparr>,
     me_ancestorsize = 250, me_descendantsize = 250, me_time = Some 1700000000\<rparr>"

definition some_info :: mempool_info where
  "some_info = \<lparr>mi_loaded = Some True, mi_mempoolminfee = 1000\<rparr>"

definition calm_env :: "txid list \<Rightarrow> unit env" where
  "calm_env pool =
     \<lparr>rpc_mempool_info = (\<lambda>w. (Inr some_info, w)),
      rpc_raw_mempool_txids = (\<lambda>w. (Inr pool, w)),
      rpc_raw_mempool_verbose = (\<lambda>w. (Inr (map (\<lambda>t. (t, some_entry)) pool), w)),
      rpc_mempool_entry = (\<lambda>t w. (Inr (Some some_entry), w)),
      rpc_tip_height = (\<lambda>w. (Inl (HttpStatus 503 []), w)),
      rpc_reconnect = (\<lambda>w. (Inr (), w)),
      instant_now = (\<lambda>w. (100000000000, w)),
      system_now = (\<lambda>w. (1700000000000000000, w)),
      unix_now = (\<lambda>w. (Some 1700000000, w)),
      sleep_for = (\<lambda>d w. ((), w)),
      sleep_or_wake = (\<lambda>d w. ((), w)),
      completion_order = (\<lambda>n ts w. (ts, w)),
      ready_now = (\<lambda>w. (0, w))\<rparr>"

definition some_cfg :: sync_config where
  "some_cfg = \<lparr>sc_poll_interval = 2000000000, sc_fetch_concurrency = 10, sc_tick_budget = 4000000000,
     sc_fee_recompute_min_interval = 5000000000\<rparr>"

definition idle_state :: "unit sync_state" where
  "idle_state = run_init () ''main''"

lemma calm_serves: "node_serves (calm_env pool) some_info pool (\<lambda>t. Inr (Some some_entry))"
  by (simp add: node_serves_def static_answers_def fair_order_def calm_env_def)

lemma calm_in_budget: "in_budget (calm_env pool) budget"
  by (rule paced_in_budget [where time = "\<lambda>_. 100000000000" and d = 0]) (simp_all add: calm_env_def)

text \<open>The same node behind calls that take a millisecond each; the world is the monotonic clock.\<close>

definition clock_env :: "txid list \<Rightarrow> nat env" where
  "clock_env pool =
     \<lparr>rpc_mempool_info = (\<lambda>w. (Inr some_info, w + 1000000)),
      rpc_raw_mempool_txids = (\<lambda>w. (Inr pool, w + 1000000)),
      rpc_raw_mempool_verbose = (\<lambda>w. (Inr (map (\<lambda>t. (t, some_entry)) pool), w + 1000000)),
      rpc_mempool_entry = (\<lambda>t w. (Inr (Some some_entry), w + 1000000)),
      rpc_tip_height = (\<lambda>w. (Inr 850000, w + 1000000)),
      rpc_reconnect = (\<lambda>w. (Inr (), w)),
      instant_now = (\<lambda>w. (w, w)),
      system_now = (\<lambda>w. (1700000000000000000 + int w, w)),
      unix_now = (\<lambda>w. (Some 1700000000, w)),
      sleep_for = (\<lambda>d w. ((), w + d)),
      sleep_or_wake = (\<lambda>d w. ((), w + d)),
      completion_order = (\<lambda>n ts w. (ts, w)),
      ready_now = (\<lambda>w. (0, w))\<rparr>"

definition clock_state :: "nat sync_state" where
  "clock_state = run_init 100000000000 ''main''"

lemma clock_serves: "node_serves (clock_env pool) some_info pool (\<lambda>t. Inr (Some some_entry))"
  by (simp add: node_serves_def static_answers_def fair_order_def clock_env_def)

lemma clock_in_budget: "in_budget (clock_env pool) (sc_tick_budget some_cfg)"
  by (rule paced_in_budget [where time = id and d = 1000000]) (simp_all add: clock_env_def some_cfg_def)

subsection \<open>What readers can see\<close>

text \<open>C4. In every state that was ever visible under the lock, from start-up on and between any two
  critical sections, \<open>caught_up\<close> implies that a time of synchronisation was recorded; and whenever
  \<open>/fees\<close> answers with an estimate, the state vouches for the mempool and the estimate is the output
  of the fee pipeline on the contents of a state that was itself published and vouched for: never of a
  mempool that was known to be incomplete.\<close>

theorem sync_readers_honest:
  assumes "sync_reach env cfg w net s" "g \<in> set (ss_trace s)"
  shows "(ms_caught_up g \<longrightarrow> ms_last_sync_ok g \<noteq> None) \<and>
    (\<forall>est. fees_handler g = FeesOk est \<longrightarrow>
       ms_caught_up g \<and> (\<exists>g' \<in> set (ss_trace s). estimated_from est g'))"
proof -
  have "sync_inv s" by (rule sync_reach_inv [OF assms(1)])
  with assms(2) have "honest g" "\<forall>est. ms_fee_estimate g = Some est \<longrightarrow> (\<exists>g' \<in> set (ss_trace s). estimated_from est g')"
    by (auto simp: sync_inv_def)
  then show ?thesis by (auto simp: honest_def fees_handler_def split: option.splits if_splits)
qed

text \<open>C32. The transition log alternates, starting with "in sync", and ends with the current value of
  \<open>caught_up\<close>: an outage produces one line when it starts and one when it ends.\<close>

theorem sync_log_edges:
  assumes "sync_reach env cfg w net s"
  shows "successively (\<noteq>) (map log_flag (ss_log s)) \<and>
    (ss_log s \<noteq> [] \<longrightarrow> log_flag (hd (ss_log s)) \<and> log_flag (last (ss_log s)) = ms_caught_up (ss_state s)) \<and>
    (ss_log s = [] \<longrightarrow> \<not> ms_caught_up (ss_state s))"
proof -
  have inv: "sync_inv s" by (rule sync_reach_inv [OF assms])
  show ?thesis
  proof (cases "ss_log s")
    case Nil
    then show ?thesis using inv by (auto simp: sync_inv_def)
  next
    case (Cons l ls)
    then show ?thesis using inv by (auto simp: sync_inv_def last_map)
  qed
qed

subsection \<open>Ticks\<close>

text \<open>When the node cannot be asked for its mempool info or its txids, the tick ends with
  \<open>caught_up\<close> false and nothing else of the shared state changed, so that \<open>/fees\<close> answers 503.\<close>

theorem tick_rpc_error:
  assumes "(\<exists>e. \<forall>w. fst (rpc_mempool_info env w) = Inl e) \<or>
    (\<exists>e info. \<forall>w. fst (rpc_mempool_info env w) = Inr info \<and> fst (rpc_raw_mempool_txids env w) = Inl e)"
  shows "ss_state (tick env cfg s) = (ss_state s)\<lparr>ms_caught_up := False\<rparr> \<and>
    fees_handler (ss_state (tick env cfg s)) = ServiceUnavailable"
proof -
  have fail: "wp (rpc_failed env r e) (\<lambda>a t. ss_state t = (ss_state s)\<lparr>ms_caught_up := False\<rparr>) s" for r e s
    by (simp add: rpc_failed_def reconnect_on_error_def set_synced_def wp_simps)
  have "wp (run_tick env cfg) (\<lambda>a t. ss_state t = (ss_state s)\<lparr>ms_caught_up := False\<rparr>) s"
    using assms fail [where s = "s\<lparr>ss_world := w\<rparr>" for w]
    by (auto simp: run_tick_def steady_tick_def wp_simps)
  then have "ss_state (tick env cfg s) = (ss_state s)\<lparr>ms_caught_up := False\<rparr>"
    by (simp add: tick_def wp_run)
  then show ?thesis by (simp add: fees_handler_def split: option.split)
qed

lemma tick_rpc_error_witness:
  "ss_state (tick ((calm_env [])\<lparr>rpc_mempool_info := \<lambda>w. (Inl AuthError, w)\<rparr>) some_cfg idle_state) =
     (ss_state idle_state)\<lparr>ms_caught_up := False\<rparr> \<and>
   fees_handler (ss_state (tick ((calm_env [])\<lparr>rpc_mempool_info := \<lambda>w. (Inl AuthError, w)\<rparr>) some_cfg idle_state)) =
     ServiceUnavailable"
  by (rule tick_rpc_error) simp

text \<open>C6. If a tick that applies a difference ends with \<open>caught_up\<close>, the cache is reconciled: it holds
  exactly the node's txids that were already cached or were answered with an entry; the only txids of
  the node it may miss are those that had vanished when they were fetched, and no fetch failed.\<close>

theorem tick_reconciles:
  assumes "node_serves env info node answer" "unwrap_or (mi_loaded info) True" "al_ok (ms_txs (ss_state s))"
    and "\<not> is_mass_drop (length (ms_txs (ss_state s))) (card (set node))"
    and "ms_caught_up (ss_state (tick env cfg s))"
  shows "cached (tick env cfg s) = {x \<in> set node. x \<in> cached s \<or> (\<exists>e. answer x = Inr (Some e))} \<and>
    (\<forall>x \<in> set node - cached (tick env cfg s). answer x = Inr None)"
proof -
  note r = tick_reconcile [OF tick_applied [OF assms(1-4)] assms(5)]
  have "answer x = Inr None" if "x \<in> set node - cached (tick env cfg s)" for x
  proof -
    have "x \<in> set node" "x \<notin> cached s" "\<not> (\<exists>e. answer x = Inr (Some e))" using that r(1) by auto
    moreover from this have "\<not> isl (answer x)" using r(2) by simp
    ultimately show ?thesis by (cases "answer x"; cases "projr (answer x)") auto
  qed
  then show ?thesis using r(1) by simp
qed

text \<open>C7. The per-tick cap delays, it loses nothing.  Let the node be loaded, let its mempool of distinct txids (\<open>usize::MAX\<close> at most) stand still
  and not be a mass drop against the cache, and let it answer every fetch with an entry, each pass of at most 2000
  fetches within the tick budget of its start, however long the loop sleeps between passes.  Then
  the cache is exactly the node's mempool and \<open>caught_up\<close> holds after \<open>k\<close> ticks as soon as \<open>2000 * k\<close> covers what was
  missing.\<close>

theorem backlog_drains:
  assumes "node_serves env info node answer" "unwrap_or (mi_loaded info) True" "al_ok (ms_txs (ss_state s))"
    and "\<not> is_mass_drop (length (ms_txs (ss_state s))) (card (set node))" "card (set node) \<le> usize_max"
    and "in_budget env (sc_tick_budget cfg)" "\<forall>x \<in> set node. \<exists>e. answer x = Inr (Some e)"
    and "card (set node - cached s) \<le> 2000 * k" "0 < k"
  shows "cached ((tick env cfg ^^ k) s) = set node \<and> ms_caught_up (ss_state ((tick env cfg ^^ k) s))"
  using assms by (rule ticks_drain)

lemma backlog_drains_witness:
  "cached ((tick (clock_env [Txid 4, Txid 9]) some_cfg ^^ 2) clock_state) = set [Txid 4, Txid 9] \<and>
   ms_caught_up (ss_state ((tick (clock_env [Txid 4, Txid 9]) some_cfg ^^ 2) clock_state))"
proof (rule backlog_drains [OF clock_serves])
  have c: "cached clock_state = {}" by (simp add: cached_def clock_state_def run_init_def mempool_state_new_def al_keys_def)
  show "card (set [Txid 4, Txid 9] - cached clock_state) \<le> 2000 * 2"
    unfolding c by (simp add: card_insert_if)
qed (simp_all add: clock_in_budget some_info_def unwrap_or_def clock_state_def run_init_def mempool_state_new_def
    al_ok_def is_mass_drop_def MASS_DROP_MIN_CACHE_SIZE_def usize_max_def card_insert_if)

lemma idle_facts:
  "ms_txs (ss_state idle_state) = []" "cached idle_state = {}"
  by (simp_all add: idle_state_def run_init_def mempool_state_new_def al_ok_def cached_def al_keys_def)

lemma calm_caught_up: "ms_caught_up (ss_state (tick (calm_env [Txid 4]) some_cfg idle_state))"
proof -
  have "applied (\<lambda>t. Inr (Some some_entry)) [Txid 4] True idle_state (tick (calm_env [Txid 4]) some_cfg idle_state)"
    using tick_applied [OF calm_serves [of "[Txid 4]"], of idle_state some_cfg]
    by (simp add: idle_facts al.ok_empty calm_in_budget some_info_def unwrap_or_def is_mass_drop_def MASS_DROP_MIN_CACHE_SIZE_def)
  from drain_step(4) [OF this] show ?thesis by (simp add: idle_facts MAX_NEW_FETCH_PER_TICK_def)
qed

lemma tick_reconciles_witness: "cached (tick (calm_env [Txid 4]) some_cfg idle_state) = {Txid 4}"
  using tick_reconciles [OF calm_serves _ _ _ calm_caught_up]
  by (simp add: some_info_def unwrap_or_def idle_state_def run_init_def mempool_state_new_def
      al_ok_def is_mass_drop_def MASS_DROP_MIN_CACHE_SIZE_def)

text \<open>C33. Bulk resyncs of the steady state are at least 60 seconds apart, failed ones included, by a clock that does
  not run backwards.  A tick either does not ask
  for the whole mempool, so that it does the same whatever that call (\<open>f\<close>) would do, and leaves the time stamp of the
  last resync alone; or that stamp is at least 60 seconds old, and the tick sets it to a
  reading of the clock that does not depend on what the call does, on its failure in particular.\<close>

theorem resync_cooldown:
  assumes "\<And>w. fst (instant_now env w) \<le> fst (instant_now env (snd (instant_now env w)))"
  shows "((\<forall>f. tick (env\<lparr>rpc_raw_mempool_verbose := f\<rparr>) cfg s = tick env cfg s) \<and>
      ss_last_bulk_resync (tick env cfg s) = ss_last_bulk_resync s) \<or>
    (\<exists>w. ss_last_bulk_resync s + seconds 60 \<le> fst (instant_now env w) \<and>
      (\<forall>f. ss_last_bulk_resync (tick (env\<lparr>rpc_raw_mempool_verbose := f\<rparr>) cfg s) = fst (instant_now env w)))"
    (is "?blind \<or> ?resync")
proof -
  let ?w0 = "snd (sleep_or_wake env (sc_poll_interval cfg) (ss_world s))"
  let ?w1 = "snd (rpc_mempool_info env ?w0)"
  let ?w2 = "snd (rpc_raw_mempool_txids env ?w1)"
  let ?now = "instant_now env ?w2"
  let ?action = "\<lambda>info txids. decide_desync (unwrap_or (mi_loaded info) True) (length (al_keys (ms_txs (ss_state s))))
    (length (remdups txids)) (resync_cooling_down (Some (ss_last_bulk_resync s)) (fst ?now))"
  note run = tick_def run_tick_def steady_tick_def Let_def run_outside look_def read_state_def
  show ?thesis
  proof (cases "\<exists>info txids r. fst (rpc_mempool_info env ?w0) = Inr info \<and> fst (rpc_raw_mempool_txids env ?w1) = Inr txids \<and>
      ?action info txids = Some (BulkResync r)")
    case True
    then obtain info txids r where calls: "fst (rpc_mempool_info env ?w0) = Inr info" "fst (rpc_raw_mempool_txids env ?w1) = Inr txids"
        "?action info txids = Some (BulkResync r)" by blast
    have "ss_last_bulk_resync s + seconds 60 \<le> fst (instant_now env (snd ?now))"
      using not_cooling [OF calls(3)] assms [of ?w2] by (rule order_trans)
    moreover have "ss_last_bulk_resync (tick (env\<lparr>rpc_raw_mempool_verbose := f\<rparr>) cfg s) = fst (instant_now env (snd ?now))" for f
      using calls by (simp add: run bulk_stamp)
    ultimately show ?thesis by blast
  next
    case False
    then have ?blind
      by (auto simp: run failed_blind diff_blind desync_def bulk_at_run bulk_at_writes bulk_at_apply_diff
          split: sum.split option.split desync_action.split)
    then show ?thesis ..
  qed
qed

text \<open>A resync that fails: the node is not loaded and does not answer the call for the whole mempool.\<close>

definition cold_env :: "nat env" where
  "cold_env = (clock_env [Txid 4])\<lparr>rpc_mempool_info := (\<lambda>w. (Inr (some_info\<lparr>mi_loaded := Some False\<rparr>), w)),
     rpc_raw_mempool_verbose := (\<lambda>w. (Inl AuthError, w))\<rparr>"

lemma resync_cooldown_witness:
  "\<exists>w. ss_last_bulk_resync clock_state + seconds 60 \<le> fst (instant_now cold_env w) \<and>
    (\<forall>f. ss_last_bulk_resync (tick (cold_env\<lparr>rpc_raw_mempool_verbose := f\<rparr>) some_cfg clock_state) = fst (instant_now cold_env w))"
proof -
  have "ss_last_bulk_resync (tick cold_env some_cfg clock_state) \<noteq> ss_last_bulk_resync clock_state"
    by (simp add: tick_def run_tick_def steady_tick_def run_outside look_def read_state_def cold_env_def clock_env_def
        clock_state_def run_init_def some_info_def some_cfg_def unwrap_or_def decide_desync_def resync_cooling_down_def
        RESYNC_COOLDOWN_def seconds_def bulk_stamp)
  moreover have "fst (instant_now cold_env w) \<le> fst (instant_now cold_env (snd (instant_now cold_env w)))" for w
    by (simp add: cold_env_def clock_env_def)
  ultimately show ?thesis using resync_cooldown [of cold_env some_cfg clock_state] by blast
qed

subsection \<open>Bulk resync\<close>

text \<open>C34. A bulk resync is all or nothing: when any of its three calls, for the entries, the mempool info and the tip, fails, it
  leaves the shared state as it was and publishes nothing; when all are answered, it publishes one state, which
  has the entries (converted, one for each distinct txid), the minimum fee and the height of these answers,
  and leaves the freshness flags and the estimate alone.\<close>

theorem bulk_resync_atomic:
  assumes "rpc_raw_mempool_verbose env (ss_world s) = (entries, w1)" "rpc_mempool_info env w1 = (info, w2)"
    and "rpc_tip_height env w2 = (tip, w3)" "run_state (bulk_resync env) s = (r, t)"
  shows "((isl entries \<or> isl info \<or> isl tip) \<longrightarrow> r = None \<and> ss_state t = ss_state s \<and> ss_trace t = ss_trace s) \<and>
    (\<forall>es i h. entries = Inr es \<and> info = Inr i \<and> tip = Inr h \<longrightarrow>
      r = Some (length es) \<and> ss_trace t = ss_trace s @ [ss_state t] \<and>
      ss_state t = (ss_state s)\<lparr>ms_txs := ms_txs (ss_state t), ms_min_fee := min_fee_sat_vb i, ms_tip_height := h\<rparr> \<and>
      (distinct (map fst es) \<longrightarrow> length (ms_txs (ss_state t)) = length es \<and>
        (\<forall>x. al_get (ms_txs (ss_state t)) x = map_option mempool_tx_from (map_of es x))))"
proof -
  have "wp (bulk_resync env) (\<lambda>r t.
      ((isl entries \<or> isl info \<or> isl tip) \<longrightarrow> r = None \<and> ss_state t = ss_state s \<and> ss_trace t = ss_trace s) \<and>
      (\<forall>es i h. entries = Inr es \<and> info = Inr i \<and> tip = Inr h \<longrightarrow>
        r = Some (length es) \<and> ss_trace t = ss_trace s @ [ss_state t] \<and>
        ss_state t = (ss_state s)\<lparr>ms_txs := entries_map es, ms_min_fee := min_fee_sat_vb i, ms_tip_height := h\<rparr>)) s"
    using assms(1-3) by (auto simp: bulk_resync_def reconnect_on_error_def wp_simps put_state_def split: sum.split)
  then show ?thesis
    using assms(4) entries_map_get entries_map_length by (auto simp: wp_def)
qed

lemma bulk_resync_atomic_witness:
  "(\<exists>t. run_state (bulk_resync (calm_env [Txid 4])) idle_state = (None, t) \<and> ss_state t = ss_state idle_state) \<and>
   (\<exists>t. run_state (bulk_resync (clock_env [Txid 4])) clock_state = (Some 1, t) \<and>
      al_get (ms_txs (ss_state t)) (Txid 4) = Some (mempool_tx_from some_entry))"
proof
  obtain r t where run: "run_state (bulk_resync (calm_env [Txid 4])) idle_state = (r, t)" by (rule prod.exhaust)
  show "\<exists>t. run_state (bulk_resync (calm_env [Txid 4])) idle_state = (None, t) \<and> ss_state t = ss_state idle_state"
    using bulk_resync_atomic [OF _ _ _ run] run by (simp add: calm_env_def)
  obtain r' t' where run': "run_state (bulk_resync (clock_env [Txid 4])) clock_state = (r', t')" by (rule prod.exhaust)
  show "\<exists>t. run_state (bulk_resync (clock_env [Txid 4])) clock_state = (Some 1, t) \<and>
      al_get (ms_txs (ss_state t)) (Txid 4) = Some (mempool_tx_from some_entry)"
    using bulk_resync_atomic [OF _ _ _ run'] run' by (simp add: clock_env_def)
qed

text \<open>The fee estimate is a function of the contents of the cache: two hash maps with the same
  entries, in whatever order they are iterated, give the same snapshot, with one row per entry.\<close>

theorem fee_snapshot_deterministic:
  assumes "al_ok txs" "al_ok txs'" "al_get txs = al_get txs'"
  shows "fee_snapshot txs = fee_snapshot txs' \<and>
    compute_estimate (fee_snapshot txs) m clock = compute_estimate (fee_snapshot txs') m clock \<and>
    length (fee_snapshot txs) = length txs"
  using fee_snapshot_perm [OF al_mset_eq [OF assms] assms(1)] mset_eq_length [OF al_mset_eq [OF assms]]
  by (simp add: fee_snapshot_def)

lemma fee_snapshot_deterministic_witness:
  "fee_snapshot [(Txid 1, any_tx), (Txid 2, any_tx)] = fee_snapshot [(Txid 2, any_tx), (Txid 1, any_tx)] \<and>
   compute_estimate (fee_snapshot [(Txid 1, any_tx), (Txid 2, any_tx)]) 1 None =
     compute_estimate (fee_snapshot [(Txid 2, any_tx), (Txid 1, any_tx)]) 1 None \<and>
   length (fee_snapshot [(Txid 1, any_tx), (Txid 2, any_tx)]) = length [(Txid 1, any_tx), (Txid 2, any_tx)]"
  by (rule fee_snapshot_deterministic) (simp_all add: al_ok_def al_get_def fun_eq_iff)

subsection \<open>Start-up\<close>

text \<open>The start-up returns exactly when the node lets it: the gate after some number of polls iff the
  mempool info is then available and says loaded (or nothing), the initial load after some number of
  retries iff a bulk resync then succeeds.\<close>

theorem startup_returns:
  "((\<exists>t. wait_until_mempool_loaded env poll s = Some t) \<longleftrightarrow> (\<exists>k. gate_open env ((gate_retry env poll ^^ k) s))) \<and>
   ((\<exists>t. initial_bulk_load env poll s = Some t) \<longleftrightarrow> (\<exists>k. load_succeeds env ((load_retry env poll ^^ k) s)))"
proof (intro conjI iffI)
  assume "\<exists>t. wait_until_mempool_loaded env poll s = Some t"
  then show "\<exists>k. gate_open env ((gate_retry env poll ^^ k) s)" using wait_returns by blast
next
  assume "\<exists>k. gate_open env ((gate_retry env poll ^^ k) s)"
  then show "\<exists>t. wait_until_mempool_loaded env poll s = Some t" using wait_opens by blast
next
  assume "\<exists>t. initial_bulk_load env poll s = Some t"
  then show "\<exists>k. load_succeeds env ((load_retry env poll ^^ k) s)" using load_stops by blast
next
  assume "\<exists>k. load_succeeds env ((load_retry env poll ^^ k) s)"
  then show "\<exists>t. initial_bulk_load env poll s = Some t" using load_returns by blast
qed

definition tip_env :: "txid list \<Rightarrow> unit env" where
  "tip_env pool = (calm_env pool)\<lparr>rpc_tip_height := \<lambda>w. (Inr 850000, w)\<rparr>"

lemma tip_env_starts: "\<exists>s. run_start (tip_env []) some_cfg () ''main'' = Some s"
proof -
  have "gate_open (tip_env []) s" "load_succeeds (tip_env []) s" for s
    by (simp_all add: gate_open_def load_succeeds_def tip_env_def calm_env_def some_info_def unwrap_or_def
        bulk_resync_def run_outside run_return write_state_def change_def)
  then show ?thesis using run_start_returns [where k = 0] by (metis funpow_0)
qed

lemma sync_readers_honest_witness:
  "\<exists>s. sync_reach (tip_env []) some_cfg () ''main'' s \<and>
    (\<forall>g. g \<in> set (ss_trace s) \<longrightarrow> (ms_caught_up g \<longrightarrow> ms_last_sync_ok g \<noteq> None) \<and>
      (\<forall>est. fees_handler g = FeesOk est \<longrightarrow>
         ms_caught_up g \<and> (\<exists>g' \<in> set (ss_trace s). estimated_from est g')))"
proof -
  obtain s where "run_start (tip_env []) some_cfg () ''main'' = Some s" using tip_env_starts by blast
  then have "sync_reach (tip_env []) some_cfg () ''main'' s" by (rule sync_started)
  with sync_readers_honest [OF this] show ?thesis by blast
qed

lemma sync_log_edges_witness:
  "\<exists>s. sync_reach (tip_env []) some_cfg () ''main'' s \<and>
    successively (\<noteq>) (map log_flag (ss_log s)) \<and>
    (ss_log s \<noteq> [] \<longrightarrow> log_flag (hd (ss_log s)) \<and> log_flag (last (ss_log s)) = ms_caught_up (ss_state s)) \<and>
    (ss_log s = [] \<longrightarrow> \<not> ms_caught_up (ss_state s))"
proof -
  obtain s where "run_start (tip_env []) some_cfg () ''main'' = Some s" using tip_env_starts by blast
  then have "sync_reach (tip_env []) some_cfg () ''main'' s" by (rule sync_started)
  with sync_log_edges [OF this] show ?thesis by blast
qed

subsection \<open>Where the loop deviates from its documentation\<close>

text \<open>C39. A failing tip height does not clear the flag: when the node serves everything but its block
  height, the tick that reconciles the cache ends with \<open>caught_up\<close> true.\<close>

theorem tip_failure_ignored:
  assumes "\<And>w. fst (rpc_tip_height env w) = Inl e"
    and "node_serves env info node answer" "unwrap_or (mi_loaded info) True" "al_ok (ms_txs (ss_state s))"
    and "\<not> is_mass_drop (length (ms_txs (ss_state s))) (card (set node))"
    and "in_budget env (sc_tick_budget cfg)" "\<forall>x \<in> set node. \<exists>e. answer x = Inr (Some e)"
    and "card (set node - cached s) \<le> 2000"
  shows "he_caught_up (health_handler now (ss_state (tick env cfg s))) \<and> cached (tick env cfg s) = set node"
proof -
  note app = tick_applied [OF assms(2-5), where cfg = cfg, unfolded assms(6) [THEN eqTrueI]]
  have caught: "ms_caught_up (ss_state (tick env cfg s))"
    using drain_step(4) [OF app distinct_remdups, simplified set_remdups, OF assms(7)] assms(8)
    by (simp add: MAX_NEW_FETCH_PER_TICK_def)
  have "cached (tick env cfg s) = set node"
    using tick_reconcile(1) [OF app caught] assms(7) by auto
  with caught show ?thesis by (simp add: health_handler_def)
qed

lemma tip_failure_ignored_witness:
  "he_caught_up (health_handler 0 (ss_state (tick (calm_env [Txid 4]) some_cfg idle_state))) \<and>
   cached (tick (calm_env [Txid 4]) some_cfg idle_state) = set [Txid 4]"
proof (rule tip_failure_ignored [OF _ calm_serves])
  show "fst (rpc_tip_height (calm_env [Txid 4]) w) = Inl (HttpStatus 503 [])" for w by (simp add: calm_env_def)
qed (simp_all add: calm_in_budget some_info_def unwrap_or_def idle_facts al.ok_empty is_mass_drop_def
    MASS_DROP_MIN_CACHE_SIZE_def)

text \<open>C40. A successful resync out of sync publishes first a state with the whole new mempool in which
  \<open>caught_up\<close> is still false and \<open>last_sync_ok\<close> the old one, since data and flags are written under two
  separate locks; and next a state that vouches for the new mempool while the estimate is still that
  of the old one.  It ends with the new mempool and \<open>caught_up\<close> true, whatever the node says about \<open>loaded\<close>.\<close>

theorem resync_seen_half_done:
  assumes "fst (run_state (bulk_resync env) s) \<noteq> None" "\<not> ms_caught_up (ss_state s)"
    and "fst (rpc_raw_mempool_verbose env (ss_world s)) = Inr entries"
  shows "\<exists>g g' gs. ss_trace (snd (run_state (bulk_and_publish env cfg) s)) = ss_trace s @ g # g' # gs \<and>
    ms_txs g = entries_map entries \<and> \<not> ms_caught_up g \<and> ms_last_sync_ok g = ms_last_sync_ok (ss_state s) \<and>
    ms_txs g' = entries_map entries \<and> ms_caught_up g' \<and> ms_fee_estimate g' = ms_fee_estimate (ss_state s) \<and>
    ms_txs (ss_state (snd (run_state (bulk_and_publish env cfg) s))) = entries_map entries \<and>
    ms_caught_up (ss_state (snd (run_state (bulk_and_publish env cfg) s)))"
proof -
  obtain n t where t: "run_state (bulk_resync env) s = (Some n, t)" using assms(1) by (cases "run_state (bulk_resync env) s") auto
  from bulk_resync_publishes [OF t] assms(2,3) have full: "ms_txs (ss_state t) = entries_map entries"
      "ss_trace t = ss_trace s @ [ss_state t]" "\<not> ms_caught_up (ss_state t)"
      "ms_last_sync_ok (ss_state t) = ms_last_sync_ok (ss_state s)" "ms_fee_estimate (ss_state t) = ms_fee_estimate (ss_state s)"
    by auto
  define g' where "g' = (ss_state t)\<lparr>ms_caught_up := True, ms_last_sync_ok := Some (fst (system_now env (ss_world t)))\<rparr>"
  have "wp (apply_bulk_success env n) (\<lambda>_ u. ss_state u = g' \<and> ss_trace u = ss_trace s @ [ss_state t, g']) t"
    by (simp add: apply_bulk_success_def wp_simps full(2) g'_def)
  then have "wp (bulk_and_publish env cfg) (\<lambda>_ v. \<exists>u k. ss_state u = g' \<and> ss_trace u = ss_trace s @ [ss_state t, g'] \<and>
      v = snd (run_state (maybe_recompute_fees env k True) u)) s"
    by (auto simp: bulk_and_publish_def wp_def t case_prod_beta)
  then obtain u k where u: "ss_state u = g'" "ss_trace u = ss_trace s @ [ss_state t, g']"
      "snd (run_state (bulk_and_publish env cfg) s) = snd (run_state (maybe_recompute_fees env k True) u)"
    unfolding wp_run by blast
  obtain gs where "ss_trace (snd (run_state (maybe_recompute_fees env k True) u)) = ss_trace u @ gs" using recompute_trace by blast
  then show ?thesis
    using full u(1,2) same_viewD [OF recompute_view, of env k True u] unfolding u(3)
    by (intro exI [of _ "ss_state t"] exI [of _ g'] exI [of _ gs]) (simp add: g'_def)
qed

definition stale_state :: "unit sync_state" where
  "stale_state = idle_state\<lparr>ss_state := (ss_state idle_state)\<lparr>ms_last_sync_ok := Some 1600000000000000000,
     ms_fee_estimate := Some (recommended_tiers [] 1 0)\<rparr>\<rparr>"

lemma resync_seen_half_done_witness:
  "\<exists>g g' gs. ss_trace (snd (run_state (bulk_and_publish (tip_env [Txid 4]) some_cfg) stale_state)) =
      ss_trace stale_state @ g # g' # gs \<and>
    ms_txs g = entries_map [(Txid 4, some_entry)] \<and> \<not> ms_caught_up g \<and> ms_last_sync_ok g = ms_last_sync_ok (ss_state stale_state) \<and>
    ms_txs g' = entries_map [(Txid 4, some_entry)] \<and> ms_caught_up g' \<and> ms_fee_estimate g' = ms_fee_estimate (ss_state stale_state) \<and>
    ms_txs (ss_state (snd (run_state (bulk_and_publish (tip_env [Txid 4]) some_cfg) stale_state))) = entries_map [(Txid 4, some_entry)] \<and>
    ms_caught_up (ss_state (snd (run_state (bulk_and_publish (tip_env [Txid 4]) some_cfg) stale_state)))"
  by (rule resync_seen_half_done)
    (simp_all add: bulk_resync_def tip_env_def calm_env_def run_outside run_return write_state_def change_def
      stale_state_def idle_state_def run_init_def mempool_state_new_def)

end
