(* ===== verification/Sync_Lossy.thy ===== *)
theory Sync_Lossy
  imports Sync_Props
begin

text \<open>
  The sync loop behind an unreliable connection: any call may fail, at any time and in any pattern, or be
  answered too late, but what is answered is the truth about a node whose mempool stands still
  (\<open>truthful\<close>).  The invariant \<open>never_stale\<close> holds of every published state from start-up on.
\<close>

subsection \<open>The connection and the invariant\<close>

definition truthful :: "'w env \<Rightarrow> (txid \<rightharpoonup> mempool_entry) \<Rightarrow> bool" where
  "truthful env pool \<longleftrightarrow> fair_order env \<and>
     (\<forall>w ts. fst (rpc_raw_mempool_txids env w) = Inr ts \<longrightarrow> set ts = dom pool) \<and>
     (\<forall>w es. fst (rpc_raw_mempool_verbose env w) = Inr es \<longrightarrow> distinct (map fst es) \<and> map_of es = pool) \<and>
     (\<forall>t w r. fst (rpc_mempool_entry env t w) = Inr r \<longrightarrow> r = pool t)"

text \<open>The cache of a reader who may trust \<open>caught_up\<close>.\<close>

definition mirrors :: "(txid \<rightharpoonup> mempool_entry) \<Rightarrow> mempool_state \<Rightarrow> bool" where
  "mirrors pool g \<longleftrightarrow> (\<forall>t. al_get (ms_txs g) t = map_option mempool_tx_from (pool t))"

definition never_stale :: "(txid \<rightharpoonup> mempool_entry) \<Rightarrow> mempool_state \<Rightarrow> bool" where
  "never_stale pool g \<longleftrightarrow> al_ok (ms_txs g) \<and>
     (\<forall>t tx. al_get (ms_txs g) t = Some tx \<longrightarrow> map_option mempool_tx_from (pool t) = Some tx) \<and>
     (ms_caught_up g \<longrightarrow> mirrors pool g)"

definition lossy_inv :: "(txid \<rightharpoonup> mempool_entry) \<Rightarrow> 'w sync_state \<Rightarrow> bool" where
  "lossy_inv pool s \<longleftrightarrow> never_stale pool (ss_state s) \<and> (\<forall>g \<in> set (ss_trace s). never_stale pool g)"

lemma truthful_calls:
  assumes "truthful env pool"
  shows "mset (fst (completion_order env n ts w)) = mset ts"
    "fst (rpc_raw_mempool_txids env w) = Inr us \<Longrightarrow> set us = dom pool"
    "fst (rpc_raw_mempool_verbose env w) = Inr es \<Longrightarrow> distinct (map fst es) \<and> map_of es = pool"
    "fst (rpc_mempool_entry env t w) = Inr r \<Longrightarrow> r = pool t"
  using assms by (auto simp: truthful_def fair_order_def)

lemma lossy_worldless [simp]: "worldless (lossy_inv pool)"
  by (simp add: worldless_def lossy_inv_def)

lemma lossy_fields [simp]:
  "lossy_inv pool (s\<lparr>ss_world := w\<rparr>) = lossy_inv pool s"
  "lossy_inv pool (s\<lparr>ss_last_bulk_resync := n\<rparr>) = lossy_inv pool s"
  "lossy_inv pool (s\<lparr>ss_last_fee_recompute := n\<rparr>) = lossy_inv pool s"
  by (simp_all add: lossy_inv_def)

lemma lossy_publish [simp]:
  "lossy_inv pool (s\<lparr>ss_trace := ss_trace s' @ [g]\<rparr>) \<longleftrightarrow>
     never_stale pool (ss_state s) \<and> (\<forall>g \<in> set (ss_trace s'). never_stale pool g) \<and> never_stale pool g"
  by (auto simp: lossy_inv_def)

lemma never_stale_flags [simp]:
  "never_stale pool (g\<lparr>ms_caught_up := False\<rparr>) \<longleftrightarrow> never_stale pool (g\<lparr>ms_caught_up := False, ms_last_sync_ok := x\<rparr>)"
  "never_stale pool (g\<lparr>ms_fee_estimate := est\<rparr>) = never_stale pool g"
  "never_stale pool (g\<lparr>ms_last_sync_ok := x\<rparr>) = never_stale pool g"
  by (simp_all add: never_stale_def mirrors_def)

lemma never_stale_down: "never_stale pool g \<Longrightarrow> never_stale pool (g\<lparr>ms_caught_up := False\<rparr>)"
  by (simp add: never_stale_def)

lemma never_stale_mirrors: "al_ok (ms_txs g) \<Longrightarrow> mirrors pool g \<Longrightarrow> never_stale pool g"
  by (simp add: never_stale_def mirrors_def)

subsection \<open>Fetching over the connection\<close>

text \<open>From \<open>b\<close> to \<open>b'\<close> the results of \<open>ts\<close> were processed.\<close>

definition progress :: "(txid \<rightharpoonup> mempool_entry) \<Rightarrow> txid list \<Rightarrow> fetch_batch \<Rightarrow> fetch_batch \<Rightarrow> bool" where
  "progress pool ts b b' \<longleftrightarrow>
     (\<exists>new. fb_fetched b' = fb_fetched b @ new \<and>
        (\<forall>(t, tx) \<in> set new. map_option mempool_tx_from (pool t) = Some tx) \<and>
        (fb_fetch_errors b' = 0 \<longrightarrow> set ts \<inter> dom pool \<subseteq> fst ` set new)) \<and>
     fb_resolved b' = fb_resolved b + length ts \<and> fb_fetch_errors b \<le> fb_fetch_errors b'"

lemma progress_Nil: "progress pool [] b b"
  by (auto simp: progress_def)

lemma progress_trans:
  assumes "progress pool ts b b'" "progress pool us b' b''"
  shows "progress pool (ts @ us) b b''"
proof -
  from assms obtain m n where "fb_fetched b' = fb_fetched b @ m" "\<forall>(t, tx) \<in> set m. map_option mempool_tx_from (pool t) = Some tx"
      "fb_fetch_errors b' = 0 \<longrightarrow> set ts \<inter> dom pool \<subseteq> fst ` set m"
      "fb_fetched b'' = fb_fetched b' @ n" "\<forall>(t, tx) \<in> set n. map_option mempool_tx_from (pool t) = Some tx"
      "fb_fetch_errors b'' = 0 \<longrightarrow> set us \<inter> dom pool \<subseteq> fst ` set n"
    by (auto simp: progress_def)
  then show ?thesis
    using assms by (auto simp: progress_def intro!: exI [of _ "m @ n"])
qed

lemma progress_step:
  assumes "truthful env pool"
  shows "progress pool [t] b (process_result t (fst (rpc_mempool_entry env t w)) b)"
proof (cases "fst (rpc_mempool_entry env t w)")
  case (Inr r)
  then have r: "r = pool t" by (rule truthful_calls(4) [OF assms])
  then show ?thesis
    by (cases "pool t") (auto simp: Inr progress_def process_result_def Let_def)
qed (auto simp: progress_def process_result_def Let_def)

lemma drain_progress:
  assumes "truthful env pool"
  shows "wp (drain_ready env ts b) (\<lambda>b' t. progress pool ts b b') s"
proof (induction ts arbitrary: b s)
  case (Cons t ts)
  show ?case
    unfolding drain_ready.simps wp_simps
    by (rule wp_mono [OF Cons]) (use progress_trans [OF progress_step [OF assms]] in fastforce)
qed (simp add: wp_simps progress_Nil)

lemma fetch_progress:
  assumes "truthful env pool"
  shows "wp (fetch_loop env budget start ts b) (\<lambda>b' t. \<exists>m. progress pool (take m ts) b b') s"
proof (induction ts arbitrary: b s)
  case (Cons t ts)
  have "wp (drain_ready env (take k ts) (process_result t (fst (rpc_mempool_entry env t w)) b))
      (\<lambda>b' t'. \<exists>m. progress pool (take m (t # ts)) b b') s" for k w s
    by (rule wp_mono [OF drain_progress [OF assms]])
      (use progress_trans [OF progress_step [OF assms]] in \<open>fastforce intro!: exI [of _ "Suc k"]\<close>)
  moreover have "wp (fetch_loop env budget start ts (process_result t (fst (rpc_mempool_entry env t w)) b))
      (\<lambda>b' t'. \<exists>m. progress pool (take m (t # ts)) b b') s" for w s
    by (rule wp_mono [OF Cons])
      (use progress_trans [OF progress_step [OF assms]] in \<open>metis append_Cons append_Nil take_Suc_Cons\<close>)
  ultimately show ?case by (simp add: wp_simps)
qed (auto simp: wp_simps intro: progress_Nil)

lemma progressD:
  assumes "progress pool ts \<lparr>fb_fetched = [], fb_fetch_errors = 0, fb_resolved = 0\<rparr> b"
  shows "\<forall>(t, tx) \<in> set (fb_fetched b). map_option mempool_tx_from (pool t) = Some tx"
    "fb_fetch_errors b = 0 \<Longrightarrow> set ts \<inter> dom pool \<subseteq> fst ` set (fb_fetched b)"
    "fb_resolved b = length ts"
  using assms by (auto simp: progress_def)

lemma fetch_new_progress:
  assumes "truthful env pool"
  shows "wp (fetch_new_entries env ts c budget n) (\<lambda>r t.
      (\<forall>(t, tx) \<in> set (fr_fetched r). map_option mempool_tx_from (pool t) = Some tx) \<and>
      (fr_fetch_errors r = 0 \<and> \<not> fr_incomplete r \<longrightarrow> set (take n ts) \<inter> dom pool \<subseteq> fst ` set (fr_fetched r))) s"
proof -
  let ?b = "\<lparr>fb_fetched = [], fb_fetch_errors = 0, fb_resolved = 0\<rparr>"
  have "wp (fetch_loop env budget start (fst (completion_order env c (take n ts) w)) ?b) (\<lambda>b t.
      (\<forall>(t, tx) \<in> set (fb_fetched b). map_option mempool_tx_from (pool t) = Some tx) \<and>
      (fb_fetch_errors b = 0 \<and> \<not> fb_resolved b < min (length ts) n \<longrightarrow>
        set (take n ts) \<inter> dom pool \<subseteq> fst ` set (fb_fetched b))) s" (is "wp ?loop ?Q s") for start w s
  proof (rule wp_mono [OF fetch_progress [OF assms]])
    fix b t
    let ?o = "fst (completion_order env c (take n ts) w)"
    assume "\<exists>m. progress pool (take m ?o) ?b b"
    then obtain m where p: "progress pool (take m ?o) ?b b" ..
    have o: "length ?o = min (length ts) n" "set ?o = set (take n ts)"
      using mset_eq_set_length [OF truthful_calls(1) [OF assms, of c "take n ts" w]] by simp_all
    have full: "take m ?o = ?o" if "\<not> fb_resolved b < min (length ts) n"
      using that progressD(3) [OF p] unfolding o(1) [symmetric] by simp
    show "?Q b t"
    proof (intro conjI impI)
      assume h: "fb_fetch_errors b = 0 \<and> \<not> fb_resolved b < min (length ts) n"
      then have "take m ?o = ?o" by (intro full) simp
      with progressD(2) [OF p] h show "set (take n ts) \<inter> dom pool \<subseteq> fst ` set (fb_fetched b)" by (simp only: o(2))
    qed (rule progressD(1) [OF p])
  qed
  note loop = this
  show ?thesis unfolding fetch_new_entries_def Let_def wp_bind wp_outside
    by (rule wp_mono [OF loop]) (simp add: wp_return)
qed

subsection \<open>The critical sections\<close>

lemma never_stale_gone: "never_stale pool g \<Longrightarrow> set node = dom pool \<Longrightarrow> df_gone (compute_diff (al_keys (ms_txs g)) node) = []"
  unfolding compute_diff_def never_stale_def by (simp add: filter_empty_conv al.set_keys) (metis domIff not_None_eq option.map_disc_iff)

text \<open>Inserting true entries keeps the cache true; inserting all that were missing completes it.\<close>

lemma never_stale_insert:
  assumes "never_stale pool g" "\<forall>(t, tx) \<in> set new. map_option mempool_tx_from (pool t) = Some tx"
  shows "al_get (fold (\<lambda>(t, tx). AList.update t tx) new (ms_txs g)) t = Some tx \<Longrightarrow> map_option mempool_tx_from (pool t) = Some tx"
    and "dom pool \<subseteq> set (al_keys (ms_txs g)) \<union> fst ` set new \<Longrightarrow>
      al_get (fold (\<lambda>(t, tx). AList.update t tx) new (ms_txs g)) t = map_option mempool_tx_from (pool t)"
proof -
  have new: "map_option mempool_tx_from (pool t) = Some tx" if "map_of (rev new) t = Some tx" for t tx
    using map_of_SomeD [OF that] assms(2) by auto
  have old: "map_option mempool_tx_from (pool t) = Some tx" if "al_get (ms_txs g) t = Some tx" for t tx
    using assms(1) that by (simp add: never_stale_def)
  show "al_get (fold (\<lambda>(t, tx). AList.update t tx) new (ms_txs g)) t = Some tx \<Longrightarrow> map_option mempool_tx_from (pool t) = Some tx"
    using new old by (auto simp: al.get_put_all split: option.splits)
  assume all: "dom pool \<subseteq> set (al_keys (ms_txs g)) \<union> fst ` set new"
  show "al_get (fold (\<lambda>(t, tx). AList.update t tx) new (ms_txs g)) t = map_option mempool_tx_from (pool t)"
  proof (cases "map_of (rev new) t")
    case None
    then have fresh: "t \<notin> fst ` set new" by (simp add: map_of_eq_None_iff)
    show ?thesis
    proof (cases "al_get (ms_txs g) t")
      case None': None
      then have "t \<notin> dom pool" using all fresh by (auto simp: al.set_keys)
      then show ?thesis using None None' by (simp add: al.get_put_all domIff)
    next
      case (Some tx)
      then show ?thesis using None old [OF Some] by (auto simp: al.get_put_all)
    qed
  next
    case (Some tx)
    then show ?thesis using new [OF Some] by (auto simp: al.get_put_all)
  qed
qed

lemma lossy_recompute: "keeps (lossy_inv pool) (maybe_recompute_fees env d force)"
proof -
  have "keeps (lossy_inv pool) (recompute_now env)"
    unfolding keeps_wp by (auto simp: recompute_now_def wp_simps split: option.split sum.split) (auto simp: lossy_inv_def)
  moreover have "keeps (lossy_inv pool) (fee_throttled env d force)" by (rule keeps_throttled [OF lossy_worldless])
  ultimately show ?thesis unfolding maybe_recompute_fees_def by (intro keeps_intros)
qed

lemma lossy_wp_recompute: "lossy_inv pool s \<Longrightarrow> wp (maybe_recompute_fees env d force) (\<lambda>a t. lossy_inv pool t) s"
  using lossy_recompute unfolding keeps_wp by blast

lemma lossy_set_synced: "keeps (lossy_inv pool) (set_synced False reason n)"
  unfolding set_synced_def by (rule keeps_write_state) (auto simp: lossy_inv_def never_stale_down)

lemma lossy_finish:
  assumes "lossy_inv pool s" "\<forall>(t, tx) \<in> set new. map_option mempool_tx_from (pool t) = Some tx"
    and "\<not> backlog \<Longrightarrow> dom pool \<subseteq> set (al_keys (ms_txs (ss_state s))) \<union> fst ` set new"
  shows "wp (finish_tick env new min_fee tip backlog n) (\<lambda>a t. lossy_inv pool t) s"
proof -
  let ?g = "store_tick new min_fee tip (ss_state s)"
  have s: "never_stale pool (ss_state s)" "\<forall>g \<in> set (ss_trace s). never_stale pool g" using assms(1) by (auto simp: lossy_inv_def)
  then have ok: "al_ok (ms_txs ?g)" by (simp add: never_stale_def al.ok_put_all)
  then have "never_stale pool (?g\<lparr>ms_caught_up := False\<rparr>)"
    using never_stale_insert(1) [OF s(1) assms(2)] by (simp add: never_stale_def)
  moreover have "never_stale pool (?g\<lparr>ms_caught_up := True\<rparr>)" if "\<not> backlog"
    using never_stale_insert(2) [OF s(1) assms(2) assms(3) [OF that]] ok by (intro never_stale_mirrors) (simp_all add: mirrors_def)
  ultimately show ?thesis using s(2) by (auto simp: finish_tick_def wp_simps)
qed

text \<open>What a tick does once the fetches are back.\<close>

definition close_diff :: "'w env \<Rightarrow> sync_config \<Rightarrow> mempool_info \<Rightarrow> txid list \<Rightarrow> txid list \<Rightarrow> fetch_result \<Rightarrow> ('w, unit) sync" where
  "close_diff env cfg info cache_keys node res = do {
     tip \<leftarrow> outside (rpc_tip_height env);
     let d = compute_diff cache_keys node;
     let backlog = is_backlog (length (df_new d)) MAX_NEW_FETCH_PER_TICK (fr_fetch_errors res) (fr_incomplete res);
     let size = projected_mempool_size (length cache_keys) (length (df_gone d)) (length (fr_fetched res));
     finish_tick env (fr_fetched res) (min_fee_sat_vb info) (ok_or_none tip) backlog (case size of Some n \<Rightarrow> n | None \<Rightarrow> 0);
     if \<not> backlog then maybe_recompute_fees env (sc_fee_recompute_min_interval cfg) False else return ()
   }"

lemma apply_diff_close:
  "apply_diff env cfg info keys node = do {
     remove_gone (df_gone (compute_diff keys node));
     res \<leftarrow> fetch_new_entries env (df_new (compute_diff keys node)) (sc_fetch_concurrency cfg) (sc_tick_budget cfg)
       MAX_NEW_FETCH_PER_TICK;
     close_diff env cfg info keys node res
   }"
  by (simp add: apply_diff_def close_diff_def Let_def)

lemma lossy_close:
  assumes "lossy_inv pool s" "set node = dom pool" "keys = al_keys (ms_txs (ss_state s))"
    and "\<forall>(t, tx) \<in> set (fr_fetched res). map_option mempool_tx_from (pool t) = Some tx"
    and "fr_fetch_errors res = 0 \<and> \<not> fr_incomplete res \<longrightarrow>
      set (take MAX_NEW_FETCH_PER_TICK (df_new (compute_diff keys node))) \<inter> dom pool \<subseteq> fst ` set (fr_fetched res)"
  shows "wp (close_diff env cfg info keys node res) (\<lambda>a t. lossy_inv pool t) s"
proof -
  let ?backlog = "is_backlog (length (df_new (compute_diff keys node))) MAX_NEW_FETCH_PER_TICK (fr_fetch_errors res) (fr_incomplete res)"
  let ?s = "s\<lparr>ss_world := snd (rpc_tip_height env (ss_world s))\<rparr>"
  have "dom pool \<subseteq> set (al_keys (ms_txs (ss_state s))) \<union> fst ` set (fr_fetched res)" if "\<not> ?backlog"
    using that assms(2,3,5) by (auto simp: is_backlog_def)
  then have finish: "wp (finish_tick env (fr_fetched res) (min_fee_sat_vb info) tip ?backlog k) (\<lambda>a t. lossy_inv pool t) ?s" for tip k
    using assms(1,4) by (intro lossy_finish) auto
  have "wp (finish_tick env (fr_fetched res) (min_fee_sat_vb info) tip ?backlog k) (\<lambda>a. wp (if \<not> ?backlog
      then maybe_recompute_fees env (sc_fee_recompute_min_interval cfg) False else return ()) (\<lambda>a t. lossy_inv pool t)) ?s" for tip k
    by (rule wp_mono [OF finish]) (auto simp: wp_simps intro: lossy_wp_recompute)
  then show ?thesis unfolding close_diff_def Let_def wp_bind wp_outside .
qed

lemma lossy_apply_diff:
  assumes "truthful env pool" "lossy_inv pool s" "set node = dom pool" "keys = al_keys (ms_txs (ss_state s))"
  shows "wp (apply_diff env cfg info keys node) (\<lambda>a t. lossy_inv pool t) s"
proof -
  have "never_stale pool (ss_state s)" using assms(2) by (simp add: lossy_inv_def)
  from never_stale_gone [OF this assms(3)] have gone: "df_gone (compute_diff keys node) = []" unfolding assms(4) .
  define s1 where "s1 = s\<lparr>ss_trace := ss_trace s @ [ss_state s]\<rparr>"
  have s1: "lossy_inv pool s1 \<and> ss_state s1 = ss_state s" using assms(2) by (auto simp: s1_def lossy_inv_def)
  have "keeps (\<lambda>t. lossy_inv pool t \<and> ss_state t = ss_state s) (fetch_new_entries env ts c b k)" for ts c b k
    by (rule keeps_fetch_new) (simp add: worldless_def)
  then have "wp (fetch_new_entries env ts c b k) (\<lambda>a t. lossy_inv pool t \<and> ss_state t = ss_state s) s1" for ts c b k
    using s1 by (simp add: keeps_wp)
  note fetch = wp_conj [OF this fetch_new_progress [OF assms(1)]]
  have "wp (fetch_new_entries env (df_new (compute_diff keys node)) (sc_fetch_concurrency cfg) (sc_tick_budget cfg)
      MAX_NEW_FETCH_PER_TICK) (\<lambda>res. wp (close_diff env cfg info keys node res) (\<lambda>a t. lossy_inv pool t)) s1"
    by (rule wp_mono [OF fetch]) (use assms(3,4) in \<open>auto intro!: lossy_close\<close>)
  then show ?thesis by (simp add: apply_diff_close wp_bind wp_remove_gone gone s1_def)
qed

subsection \<open>Bulk resync and the tick\<close>

lemma lossy_bulk:
  assumes "truthful env pool" "lossy_inv pool s"
  shows "wp (bulk_resync env) (\<lambda>r t. lossy_inv pool t \<and> (r \<noteq> None \<longrightarrow> mirrors pool (ss_state t))) s"
proof -
  have "mirrors pool (g\<lparr>ms_txs := entries_map es, ms_min_fee := f, ms_tip_height := h\<rparr>) \<and>
      never_stale pool (g\<lparr>ms_txs := entries_map es, ms_min_fee := f, ms_tip_height := h\<rparr>)"
    if "fst (rpc_raw_mempool_verbose env w) = Inr es" for w es g f h
  proof -
    have "distinct (map fst es)" "map_of es = pool" using truthful_calls(3) [OF assms(1) that] by auto
    then have "mirrors pool (g\<lparr>ms_txs := entries_map es, ms_min_fee := f, ms_tip_height := h\<rparr>)"
      by (simp add: mirrors_def entries_map_get)
    then show ?thesis by (auto intro: never_stale_mirrors)
  qed
  then show ?thesis using assms(2)
    by (auto simp: bulk_resync_def reconnect_on_error_def wp_simps split: sum.split) (auto simp: lossy_inv_def)
qed

lemma lossy_bulk_success:
  assumes "lossy_inv pool s" "mirrors pool (ss_state s)"
  shows "wp (apply_bulk_success env n) (\<lambda>a t. lossy_inv pool t) s"
proof -
  have "never_stale pool ((ss_state s)\<lparr>ms_caught_up := True\<rparr>)"
    using assms by (simp add: lossy_inv_def never_stale_def mirrors_def)
  then show ?thesis using assms(1) by (auto simp: apply_bulk_success_def wp_simps) (auto simp: lossy_inv_def)
qed

lemma lossy_publish_load:
  assumes "lossy_inv pool s" "mirrors pool (ss_state s)"
  shows "wp (publish_load env n) (\<lambda>a t. lossy_inv pool t) s"
  using assms unfolding publish_load_def wp_simps by (intro lossy_bulk_success) simp_all

lemma lossy_run_tick:
  assumes "truthful env pool"
  shows "keeps (lossy_inv pool) (run_tick env cfg)"
proof -
  have bulk: "keeps (lossy_inv pool) (bulk_and_publish env cfg)"
    unfolding keeps_wp bulk_and_publish_def wp_bind
  proof (intro allI impI wp_mono [OF lossy_bulk [OF assms]])
    fix r :: "usize option" and t :: "'a sync_state"
    assume t: "lossy_inv pool t \<and> (r \<noteq> None \<longrightarrow> mirrors pool (ss_state t))"
    show "wp (case r of None \<Rightarrow> set_synced False ''resync_failed'' 0
        | Some n \<Rightarrow> apply_bulk_success env n \<bind> (\<lambda>_. maybe_recompute_fees env (sc_fee_recompute_min_interval cfg) True))
      (\<lambda>a t. lossy_inv pool t) t"
    proof (cases r)
      case None
      then show ?thesis using t lossy_set_synced unfolding keeps_wp by auto
    next
      case (Some n)
      then have "wp (apply_bulk_success env n) (\<lambda>a t. lossy_inv pool t) t" using t by (intro lossy_bulk_success) auto
      then show ?thesis unfolding Some option.case wp_bind
        by (rule wp_mono) (rule lossy_wp_recompute)
    qed
  qed
  have desync: "keeps (lossy_inv pool) (desync env cfg action)" for action
    unfolding desync_def by (intro keeps_intros keeps_outside keeps_change lossy_set_synced bulk) simp_all
  have fail: "keeps (lossy_inv pool) (rpc_failed env reason e)" for reason e
    unfolding rpc_failed_def by (intro keeps_intros keeps_reconnect lossy_set_synced) simp
  have diff: "wp (apply_diff env cfg info (al_keys (ms_txs (ss_state s))) (remdups ts)) (\<lambda>a t. lossy_inv pool t) (s\<lparr>ss_world := w\<rparr>)"
    if "lossy_inv pool s" "fst (rpc_raw_mempool_txids env w') = Inr ts" for info s ts w w'
    using that truthful_calls(2) [OF assms] by (intro lossy_apply_diff [OF assms]) auto
  have "wp (run_tick env cfg) (\<lambda>a t. lossy_inv pool t) s" if "lossy_inv pool s" for s
    using that desync fail diff unfolding keeps_wp
    by (auto simp: run_tick_def steady_tick_def Let_def wp_simps split: sum.split option.split)
  then show ?thesis by (simp add: keeps_wp)
qed

lemma lossy_start:
  assumes "truthful env pool" "run_start env cfg w net = Some s"
  shows "lossy_inv pool s"
proof -
  obtain a b where ab: "wait_until_mempool_loaded env (sc_poll_interval cfg) (run_init w net) = Some a"
      "initial_bulk_load env (sc_poll_interval cfg) a = Some b" "s = snd (run_state (start_steady env cfg) b)"
    using assms(2) by (rule run_startE)
  have "lossy_inv pool (run_init w net)"
    by (simp add: lossy_inv_def run_init_def mempool_state_new_def never_stale_def al.ok_empty al.get_empty)
  then have "lossy_inv pool a" using wait_keeps [OF lossy_worldless ab(1)] by blast
  moreover have "lossy_inv pool a \<longrightarrow> lossy_inv pool b"
  proof (rule initial_load_rule [OF lossy_worldless _ ab(2)])
    fix s :: "'a sync_state" assume "lossy_inv pool s"
    from lossy_bulk [OF assms(1) this]
    show "wp (bulk_resync env)
        (\<lambda>r t. case r of None \<Rightarrow> lossy_inv pool t | Some n \<Rightarrow> wp (publish_load env n) (\<lambda>a t. lossy_inv pool t) t) s"
      by (rule wp_mono) (auto intro: lossy_publish_load split: option.split)
  qed
  moreover have "keeps (lossy_inv pool) (start_steady env cfg)"
    unfolding start_steady_def by (intro keeps_intros keeps_outside keeps_change lossy_recompute) simp_all
  ultimately show ?thesis using keepsD unfolding ab(3) by blast
qed

lemma lossy_reach:
  assumes "sync_reach env cfg w net s" "truthful env pool"
  shows "lossy_inv pool s"
  using assms
proof (induction rule: sync_reach.induct)
  case (sync_started s)
  then show ?case by (intro lossy_start)
next
  case (sync_ticked s)
  then show ?case by (intro keepsD [OF lossy_run_tick])
qed

subsection \<open>What readers see through an unreliable connection\<close>

text \<open>C8. No pattern of failures can make the indexer vouch for a wrong mempool: against a node that stands still,
  through a connection on which any call may fail at any time, every state that was ever visible holds only
  transactions of the node, converted from their entries, and whenever it says \<open>caught_up\<close> it holds all of them.\<close>

theorem lossy_readers_exact:
  assumes "sync_reach env cfg w net s" "truthful env pool" "g \<in> set (ss_trace s)"
  shows "(\<forall>t tx. al_get (ms_txs g) t = Some tx \<longrightarrow> (\<exists>e. pool t = Some e \<and> tx = mempool_tx_from e)) \<and>
    (ms_caught_up g \<longrightarrow> (\<forall>t. al_get (ms_txs g) t = map_option mempool_tx_from (pool t)))"
proof -
  have "never_stale pool g" using lossy_reach [OF assms(1,2)] assms(3) by (simp add: lossy_inv_def)
  then show ?thesis by (auto simp: never_stale_def mirrors_def)
qed

text \<open>A connection on which every fifth call fails, in front of a node with two transactions.\<close>

definition flaky :: "'a \<Rightarrow> nat \<Rightarrow> (rpc_error + 'a) \<times> nat" where
  "flaky a k = (if k mod 5 = 0 then Inl (HttpStatus 503 []) else Inr a, k + 1)"

definition flaky_pool :: "(txid \<times> mempool_entry) list" where
  "flaky_pool = [(Txid 4, some_entry), (Txid 9, some_entry)]"

definition flaky_env :: "nat env" where
  "flaky_env =
     \<lparr>rpc_mempool_info = flaky some_info,
      rpc_raw_mempool_txids = flaky (map fst flaky_pool),
      rpc_raw_mempool_verbose = flaky flaky_pool,
      rpc_mempool_entry = (\<lambda>t. flaky (map_of flaky_pool t)),
      rpc_tip_height = flaky 850000,
      rpc_reconnect = Pair (Inr ()),
      instant_now = Pair 100000000000,
      system_now = Pair 1700000000000000000,
      unix_now = Pair (Some 1700000000),
      sleep_for = (\<lambda>d. Pair ()),
      sleep_or_wake = (\<lambda>d. Pair ()),
      completion_order = (\<lambda>n ts. Pair ts),
      ready_now = Pair 0\<rparr>"

lemma flaky_truthful: "truthful flaky_env (map_of flaky_pool)"
  by (auto simp: truthful_def fair_order_def flaky_env_def flaky_def flaky_pool_def dom_def split: if_splits)

lemma flaky_starts: "\<exists>s. run_start flaky_env some_cfg 0 ''main'' = Some s"
proof -
  let ?s = "(run_init (0 :: nat) ''main'')\<lparr>ss_world := 2\<rparr>"
  have "wait_until_mempool_loaded flaky_env poll (run_init 0 ''main'') = Some ?s" for poll
    by (subst wait_step, subst wait_step)
      (simp add: gate_open_def gate_retry_def flaky_env_def flaky_def some_info_def unwrap_or_def run_outside run_return
        reconnect_on_error_def is_reconnectable_def run_init_def)
  moreover have "load_succeeds flaky_env ?s"
    by (simp add: load_succeeds_def bulk_resync_def flaky_env_def flaky_def run_outside run_return write_state_def change_def)
  then have "initial_bulk_load flaky_env poll ?s \<noteq> None" for poll
    using load_returns [of flaky_env 0 poll ?s] by simp
  ultimately show ?thesis by (auto simp: run_start_def)
qed

lemma lossy_readers_exact_witness:
  "\<exists>s. sync_reach flaky_env some_cfg 0 ''main'' s \<and>
    (\<forall>g. g \<in> set (ss_trace s) \<longrightarrow>
      (\<forall>t tx. al_get (ms_txs g) t = Some tx \<longrightarrow> (\<exists>e. map_of flaky_pool t = Some e \<and> tx = mempool_tx_from e)) \<and>
      (ms_caught_up g \<longrightarrow> (\<forall>t. al_get (ms_txs g) t = map_option mempool_tx_from (map_of flaky_pool t))))"
proof -
  obtain s where "run_start flaky_env some_cfg 0 ''main'' = Some s" using flaky_starts by blast
  then have "sync_reach flaky_env some_cfg 0 ''main'' s" by (rule sync_started)
  with lossy_readers_exact [OF this flaky_truthful] show ?thesis by blast
qed

end
