(* ===== verification/Rpc_Env.thy ===== *)
theory Rpc_Env
  imports Sync_Props
begin

text \<open>
  The sync loop over the real client: the implementation of the trait \<open>MempoolRpc\<close> by \<open>Rpc\<close>
  (\<open>rpc.rs\<close>) as an \<open>env\<close> of theory Sync.  The world is the world outside together with the client, which
  \<open>reconnect\<close> replaces.  The record \<open>libs\<close> holds the libraries of theory Rpc at the types the methods use;
  \<open>net\<close> and \<open>read_file\<close> depend on the world outside, and \<open>exchanged\<close> is that world after one HTTP exchange.
\<close>

record ('w, 'c) libs =
  lb_net :: "'w \<Rightarrow> 'c \<Rightarrow> http_request \<Rightarrow> ustring + http_response"
  lb_exchanged :: "'w \<Rightarrow> 'w"
  lb_envelope :: "byte list \<Rightarrow> ustring + rpc_response"
  lb_lossy :: "byte list \<Rightarrow> ustring"
  lb_decode_chain :: "json \<Rightarrow> ustring + blockchain_info"
  lb_decode_info :: "json \<Rightarrow> ustring + mempool_info"
  lb_decode_txids :: "json \<Rightarrow> ustring + txid list"
  lb_decode_verbose :: "json \<Rightarrow> ustring + (txid \<times> mempool_entry) list"
  lb_decode_entry :: "json \<Rightarrow> ustring + mempool_entry"
  lb_show_txid :: "txid \<Rightarrow> ustring"
  lb_read_file :: "'w \<Rightarrow> ustring \<Rightarrow> ustring + ustring"
  lb_build :: "nat \<Rightarrow> ustring + 'c"

text \<open>A method of the client: \<open>m\<close> on \<open>call\<close> at the world of the exchange.\<close>

definition client_call ::
  "('w, 'c) libs \<Rightarrow> (json \<Rightarrow> ustring + 'a) \<Rightarrow> ((string \<Rightarrow> json \<Rightarrow> usize \<Rightarrow> rpc_error + 'a) \<Rightarrow> rpc_error + 'b)
     \<Rightarrow> 'w \<times> 'c rpc \<Rightarrow> (rpc_error + 'b) \<times> ('w \<times> 'c rpc)" where
  "client_call lb decode m = (\<lambda>(w, rpc). (m (call (lb_net lb w) (lb_envelope lb) decode (lb_lossy lb) rpc), (lb_exchanged lb w, rpc)))"

definition along :: "('w \<Rightarrow> 'a \<times> 'w) \<Rightarrow> 'w \<times> 'c rpc \<Rightarrow> 'a \<times> ('w \<times> 'c rpc)" where
  "along f = (\<lambda>(w, rpc). let (a, w) = f w in (a, (w, rpc)))"

definition rpc_env :: "('w, 'c) libs \<Rightarrow> 'w env \<Rightarrow> ('w \<times> 'c rpc) env" where
  "rpc_env lb env =
     \<lparr>rpc_mempool_info = client_call lb (lb_decode_info lb) mempool_info_call,
      rpc_raw_mempool_txids = client_call lb (lb_decode_txids lb) raw_mempool_txids,
      rpc_raw_mempool_verbose = client_call lb (lb_decode_verbose lb) raw_mempool_verbose,
      rpc_mempool_entry = (\<lambda>t. client_call lb (lb_decode_entry lb) (\<lambda>do_call. mempool_entry_call (lb_show_txid lb) do_call t)),
      rpc_tip_height = client_call lb (lb_decode_chain lb) tip_height,
      rpc_reconnect = (\<lambda>(w, rpc). let (r, rpc) = reconnect (lb_read_file lb w) (lb_build lb) rpc in (r, (w, rpc))),
      instant_now = along (instant_now env),
      system_now = along (system_now env),
      unix_now = along (unix_now env),
      sleep_for = (\<lambda>d. along (sleep_for env d)),
      sleep_or_wake = (\<lambda>d. along (sleep_or_wake env d)),
      completion_order = (\<lambda>n ts. along (completion_order env n ts)),
      ready_now = along (ready_now env)\<rparr>"

subsection \<open>Start-up of the process\<close>

definition sync_config_of :: "config \<Rightarrow> sync_config" where
  "sync_config_of cfg =
     \<lparr>sc_poll_interval = cf_poll_interval cfg, sc_fetch_concurrency = cf_fetch_concurrency cfg,
      sc_tick_budget = cf_tick_budget cfg, sc_fee_recompute_min_interval = cf_fee_recompute_min_interval cfg\<rparr>"

text \<open>How \<open>main\<close> ends or goes on: \<open>Serving None\<close> is a start-up of the sync loop that never gets through.\<close>

datatype 's main_end = SetupFailed setup_error | ProbeFailed rpc_error | Serving "'s option"

definition probe_reconnect :: "('w, 'c) libs \<Rightarrow> 'w env \<Rightarrow> 'w \<times> 'c rpc \<Rightarrow> (setup_error + unit) \<times> ('w \<times> 'c rpc)" where
  "probe_reconnect lb env s =
     (let (r, s) = rpc_reconnect (rpc_env lb env) s in (r, snd (sleep_for (rpc_env lb env) (seconds 1) s)))"

definition main_start :: "('w, 'c) libs \<Rightarrow> 'w env \<Rightarrow> config \<Rightarrow> 'w \<Rightarrow> ('w \<times> 'c rpc) sync_state main_end" where
  "main_start lb env cfg w =
     (case connect (lb_read_file lb w) (lb_build lb) (cf_rpc cfg) of
        Inl e \<Rightarrow> SetupFailed e
      | Inr rpc \<Rightarrow>
          (case probe_network (client_call lb (lb_decode_chain lb) network) (probe_reconnect lb env) 1 (w, rpc) of
             (Inl e, _) \<Rightarrow> ProbeFailed e
           | (Inr net, s) \<Rightarrow> Serving (run_start (rpc_env lb env) (sync_config_of cfg) s net)))"

lemma main_start_reach:
  "main_start lb env cfg w = Serving (Some s) \<Longrightarrow> \<exists>s0 net. sync_reach (rpc_env lb env) (sync_config_of cfg) s0 net s"
  by (auto simp: main_start_def split: sum.splits prod.splits intro: sync_started)

subsection \<open>Properties\<close>

text \<open>C21. A rotated cookie costs one tick: when the node answers 401 or 403 to the old credential, that tick ends with \<open>caught_up\<close> false
  and with a client that carries the credential which the cookie file holds by then, so that the next
  request is sent with it.\<close>

theorem rotated_cookie_recovers:
  assumes "ss_world s = (w, rpc)" "w' = snd (sleep_or_wake env (sc_poll_interval cfg) w)"
    and "\<And>req. hq_basic_auth req = (case rpc_auth rpc of BasicAuth user pass \<Rightarrow> Some (user, pass) | NoAuth \<Rightarrow> None) \<Longrightarrow>
      \<exists>resp. lb_net lb w' (rpc_http rpc) req = Inr resp \<and> hr_status resp \<in> {401, 403}"
    and "resolve_auth (lb_read_file lb (lb_exchanged lb w')) (rpc_cfg rpc) = Inr a" "lb_build lb (rc_timeout (rpc_cfg rpc)) = Inr http"
  shows "ss_world (tick (rpc_env lb env) cfg s) = (lb_exchanged lb w', rpc\<lparr>rpc_http := http, rpc_auth := a\<rparr>) \<and>
    ss_state (tick (rpc_env lb env) cfg s) = (ss_state s)\<lparr>ms_caught_up := False\<rparr>"
proof -
  have "call (lb_net lb w') (lb_envelope lb) decode (lb_lossy lb) rpc m ps b = Inl AuthError" for decode m ps b
  proof -
    obtain resp where "lb_net lb w' (rpc_http rpc) \<lparr>hq_url = rpc_url rpc, hq_body = request_body m ps,
        hq_basic_auth = (case rpc_auth rpc of BasicAuth user pass \<Rightarrow> Some (user, pass) | NoAuth \<Rightarrow> None)\<rparr> = Inr resp"
      "hr_status resp \<in> {401, 403}"
      using assms(3) [OF http_request.select_convs(3)] by blast
    then show ?thesis by (auto simp: call_def classify_def)
  qed
  then have info: "rpc_mempool_info (rpc_env lb env) (w', rpc) = (Inl AuthError, (lb_exchanged lb w', rpc))"
    by (simp add: rpc_env_def client_call_def mempool_info_call_def)
  have sleep: "snd (sleep_or_wake (rpc_env lb env) (sc_poll_interval cfg) (w, rpc)) = (w', rpc)"
    by (simp add: rpc_env_def along_def assms(2) case_prod_beta)
  have re: "snd (rpc_reconnect (rpc_env lb env) (lb_exchanged lb w', rpc)) =
      (lb_exchanged lb w', rpc\<lparr>rpc_http := http, rpc_auth := a\<rparr>)"
    using assms(4,5) by (simp add: rpc_env_def reconnect_def)
  have "wp (run_tick (rpc_env lb env) cfg) (\<lambda>_ t. ss_world t = (lb_exchanged lb w', rpc\<lparr>rpc_http := http, rpc_auth := a\<rparr>) \<and>
      ss_state t = (ss_state s)\<lparr>ms_caught_up := False\<rparr>) s"
    by (simp add: run_tick_def steady_tick_def rpc_failed_def reconnect_on_error_def is_reconnectable_def set_synced_def
        wp_simps assms(1) sleep info re set_synced_locked_def put_state_def Let_def)
  then show ?thesis by (simp add: tick_def wp_run)
qed

definition cookie_libs :: "(unit, unit) libs" where
  "cookie_libs = \<lparr>lb_net = (\<lambda>w c req. Inr \<lparr>hr_status = if hq_basic_auth req = Some (ustr ''u'', ustr ''new'') then 200 else 401,
       hr_content_length = None, hr_chunks = []\<rparr>), lb_exchanged = (\<lambda>w. w),
     lb_envelope = (\<lambda>bs. Inl []), lb_lossy = (\<lambda>bs. []), lb_decode_chain = (\<lambda>j. Inl []), lb_decode_info = (\<lambda>j. Inl []),
     lb_decode_txids = (\<lambda>j. Inl []), lb_decode_verbose = (\<lambda>j. Inl []), lb_decode_entry = (\<lambda>j. Inl []),
     lb_show_txid = (\<lambda>t. []), lb_read_file = (\<lambda>w f. Inr (ustr ''u:new'')), lb_build = (\<lambda>d. Inr ())\<rparr>"

definition cookie_start :: "(unit \<times> unit rpc) sync_state" where
  "cookie_start = run_init ((), some_rpc) ''main''"

lemma rotated_cookie_recovers_witness:
  "ss_world (tick (rpc_env cookie_libs (calm_env [])) some_cfg cookie_start) = ((), some_rpc\<lparr>rpc_http := (), rpc_auth := BasicAuth (ustr ''u'') (ustr ''new'')\<rparr>) \<and>
   ss_state (tick (rpc_env cookie_libs (calm_env [])) some_cfg cookie_start) = (ss_state cookie_start)\<lparr>ms_caught_up := False\<rparr>"
proof -
  have auth: "resolve_auth (\<lambda>f. Inr (ustr ''u:new'')) (rpc_cfg some_rpc) = Inr (BasicAuth (ustr ''u'') (ustr ''new''))"
    by (simp add: resolve_auth_def first_line_def some_rpc_def ustr_def colon_def)
  have "ss_world (tick (rpc_env cookie_libs (calm_env [])) some_cfg cookie_start) =
      (lb_exchanged cookie_libs (), some_rpc\<lparr>rpc_http := (), rpc_auth := BasicAuth (ustr ''u'') (ustr ''new'')\<rparr>) \<and>
    ss_state (tick (rpc_env cookie_libs (calm_env [])) some_cfg cookie_start) = (ss_state cookie_start)\<lparr>ms_caught_up := False\<rparr>"
  proof (rule rotated_cookie_recovers)
    show "ss_world cookie_start = ((), some_rpc)" by (simp add: cookie_start_def run_init_def)
    fix req :: http_request assume "hq_basic_auth req = (case rpc_auth some_rpc of BasicAuth user pass \<Rightarrow> Some (user, pass) | NoAuth \<Rightarrow> None)"
    then have "hq_basic_auth req = None" by (simp add: some_rpc_def)
    then show "\<exists>resp. lb_net cookie_libs () (rpc_http some_rpc) req = Inr resp \<and> hr_status resp \<in> {401, 403}"
      by (simp add: cookie_libs_def)
  qed (use auth in \<open>simp_all add: cookie_libs_def\<close>)
  then show ?thesis by simp
qed

end
