(* ===== verification/Sim_Node.thy ===== *)
theory Sim_Node
  imports Mempool
begin

text \<open>
  The simulated node (\<open>sim/mock_node.rs\<close>): a churning mempool of linear parent-child chains behind the
  RPC surface of a real node.  The crate \<open>rand\<close>, the power function and the iteration order of
  \<open>HashMap\<close> are arguments, collected in the record \<open>rand\<close>; a hash map is an association list as in
  theory Mempool.  \<open>None\<close> stands for a computation that gives no value: a loop that never ends or a
  panic (an absent key indexed, an \<open>Amount\<close> sum past 64 bits).
\<close>

subsection \<open>Configuration and state\<close>

text \<open>A \<open>f64\<close> that may be infinite or not a number, as command-line values are.\<close>

datatype f64v = Finite f64 | PosInf | NegInf | NaN

record fee_distribution =
  fd_min_sat_vb :: u64
  fd_max_sat_vb :: u64
  fd_skew :: f64

definition fd_uniform :: "u64 \<Rightarrow> u64 \<Rightarrow> fee_distribution" where
  "fd_uniform lo hi = \<lparr>fd_min_sat_vb = lo, fd_max_sat_vb = hi, fd_skew = 1\<rparr>"

definition fd_skewed :: "u64 \<Rightarrow> u64 \<Rightarrow> f64v \<Rightarrow> fee_distribution" where
  "fd_skewed lo hi skew =
     \<lparr>fd_min_sat_vb = lo, fd_max_sat_vb = hi,
      fd_skew = (case skew of Finite s \<Rightarrow> if 0 < s then s else 1 | _ \<Rightarrow> 1)\<rparr>"

record churn_config =
  cc_arrivals_per_tick :: usize
  cc_evictions_per_tick :: usize
  cc_fee :: fee_distribution
  cc_cpfp_fraction :: f64
  cc_max_chain :: usize

record 'r mock_node =
  mn_txs :: "(txid \<times> mempool_entry) list"
  mn_children :: "(txid \<times> txid) list"
  mn_tip_height :: u64
  mn_min_fee :: u64
  mn_reloading :: bool
  mn_rng :: 'r
  mn_cfg :: churn_config

text \<open>
  \<open>rand_range lo hi\<close> draws from \<open>lo..=hi\<close>, \<open>rand_index n\<close> from \<open>0..n\<close>, \<open>rand_unit\<close> from \<open>[0, 1)\<close>, and
  \<open>hash_order\<close> lists the keys of a hash map in the order in which the map is iterated.
\<close>

record 'r rand =
  rand_txid :: "'r \<Rightarrow> txid \<times> 'r"
  rand_range :: "u64 \<Rightarrow> u64 \<Rightarrow> 'r \<Rightarrow> u64 \<times> 'r"
  rand_index :: "usize \<Rightarrow> 'r \<Rightarrow> usize \<times> 'r"
  rand_unit :: "'r \<Rightarrow> f64 \<times> 'r"
  rand_powf :: "f64 \<Rightarrow> f64 \<Rightarrow> f64"
  hash_order :: "txid list \<Rightarrow> txid list"

definition mock_keys :: "'r rand \<Rightarrow> 'r mock_node \<Rightarrow> txid list" where
  "mock_keys rand n = hash_order rand (al_keys (mn_txs n))"

text \<open>The sum of two \<open>Amount\<close>s panics past \<open>u64::MAX\<close>.\<close>

definition amount_add :: "u64 \<Rightarrow> u64 \<Rightarrow> u64 option" where
  "amount_add a b = (if unat a + unat b < 2 ^ 64 then Some (a + b) else None)"

subsection \<open>Chains\<close>

partial_function (option) ancestors_of :: "(txid \<times> mempool_entry) list \<Rightarrow> txid \<Rightarrow> txid list option" where
  "ancestors_of txs cur =
     (case al_get txs cur of
        None \<Rightarrow> Some []
      | Some ent \<Rightarrow>
          (case me_depends ent of
             [] \<Rightarrow> Some []
           | p # _ \<Rightarrow>
               if al_get txs p \<noteq> None
               then Option.bind (ancestors_of txs p) (\<lambda>out. Some (p # out))
               else Some []))"

text \<open>The descent to the leaf of a chain, in \<open>advance\<close> and \<open>mass_drop\<close>.\<close>

partial_function (option) leaf_of :: "(txid \<times> txid) list \<Rightarrow> txid \<Rightarrow> txid option" where
  "leaf_of children leaf =
     (case al_get children leaf of None \<Rightarrow> Some leaf | Some child \<Rightarrow> leaf_of children child)"

declare ancestors_of.simps [code] leaf_of.simps [code]

definition own_rate_sat_vb :: "mempool_entry \<Rightarrow> u64" where
  "own_rate_sat_vb e = ef_base (me_fees e) div max (me_vsize e) 1"

definition effective_rate :: "(txid \<times> mempool_entry) list \<Rightarrow> txid \<Rightarrow> u64 option" where
  "effective_rate txs t =
     map_option (\<lambda>e. min (own_rate_sat_vb e) (ef_ancestor (me_fees e) div max (me_ancestorsize e) 1)) (al_get txs t)"

definition adjust_one :: "u64 \<Rightarrow> u64 \<Rightarrow> bool \<Rightarrow> mempool_entry \<Rightarrow> mempool_entry option" where
  "adjust_one vsize base add e =
     (if add
      then map_option (\<lambda>d. e\<lparr>me_descendantsize := me_descendantsize e + vsize,
             me_fees := (me_fees e)\<lparr>ef_descendant := d\<rparr>\<rparr>) (amount_add (ef_descendant (me_fees e)) base)
      else Some (e\<lparr>me_descendantsize := u64_sat_sub (me_descendantsize e) vsize,
             me_fees := (me_fees e)\<lparr>ef_descendant := u64_sat_sub (ef_descendant (me_fees e)) base\<rparr>\<rparr>))"

definition adjust_at :: "u64 \<Rightarrow> u64 \<Rightarrow> bool \<Rightarrow> txid \<Rightarrow> (txid \<times> mempool_entry) list \<Rightarrow> (txid \<times> mempool_entry) list option" where
  "adjust_at vsize base add a txs =
     (case al_get txs a of
        None \<Rightarrow> Some txs
      | Some e \<Rightarrow> map_option (\<lambda>e'. AList.update a e' txs) (adjust_one vsize base add e))"

definition adjust_descendant_totals ::
  "txid \<Rightarrow> u64 \<Rightarrow> u64 \<Rightarrow> bool \<Rightarrow> (txid \<times> mempool_entry) list \<Rightarrow> (txid \<times> mempool_entry) list option" where
  "adjust_descendant_totals start vsize base add txs =
     Option.bind (ancestors_of txs start) (\<lambda>as. fold_opt (adjust_at vsize base add) (start # as) txs)"

definition remove_leaf :: "txid \<Rightarrow> 'r mock_node \<Rightarrow> 'r mock_node option" where
  "remove_leaf leaf n =
     (if al_get (mn_children n) leaf \<noteq> None then Some n
      else case al_get (mn_txs n) leaf of
        None \<Rightarrow> Some n
      | Some ent \<Rightarrow>
          let txs = AList.delete leaf (mn_txs n) in
          (case me_depends ent of
             [] \<Rightarrow> Some (n\<lparr>mn_txs := txs\<rparr>)
           | parent # _ \<Rightarrow>
               map_option (\<lambda>txs. n\<lparr>mn_txs := txs, mn_children := AList.delete parent (mn_children n)\<rparr>)
                 (adjust_descendant_totals parent (me_vsize ent) (ef_base (me_fees ent)) False txs)))"

subsection \<open>Arrivals\<close>

definition gen_standalone_entry ::
  "'r rand \<Rightarrow> u64 \<Rightarrow> 'r mock_node \<Rightarrow> (txid \<times> mempool_entry) \<times> 'r mock_node" where
  "gen_standalone_entry rand sat_vb n =
     (let (t, r) = rand_txid rand (mn_rng n);
          (vsize, r) = rand_range rand 110 100000 r;
          base = u64_sat_mul sat_vb vsize
      in ((t, \<lparr>me_vsize = vsize, me_weight = Some (vsize * 4), me_depends = [],
               me_fees = \<lparr>ef_base = base, ef_ancestor = base, ef_descendant = base\<rparr>,
               me_ancestorsize = vsize, me_descendantsize = vsize, me_time = Some 1700000000\<rparr>),
          n\<lparr>mn_rng := r\<rparr>))"

definition attach_child :: "'r rand \<Rightarrow> txid \<Rightarrow> 'r mock_node \<Rightarrow> 'r mock_node option" where
  "attach_child rand parent n =
     (let ((t, ent), n) = gen_standalone_entry rand (fd_max_sat_vb (cc_fee (mn_cfg n))) n in
      Option.bind (al_get (mn_txs n) parent) (\<lambda>p.
      Option.bind (amount_add (ef_base (me_fees ent)) (ef_ancestor (me_fees p))) (\<lambda>anc_fee.
        let ent = ent\<lparr>me_depends := [parent],
              me_ancestorsize := me_vsize ent + me_ancestorsize p,
              me_fees := (me_fees ent)\<lparr>ef_ancestor := anc_fee\<rparr>\<rparr>
        in map_option (\<lambda>txs. n\<lparr>mn_txs := txs, mn_children := AList.update parent t (mn_children n)\<rparr>)
             (adjust_descendant_totals parent (me_vsize ent) (ef_base (me_fees ent)) True
               (AList.update t ent (mn_txs n))))))"

text \<open>\<open>!children.contains_key(t) && ancestors_of(t).len() + 1 < max_chain\<close>, for the keys in turn.\<close>

fun eligible_parents :: "'r mock_node \<Rightarrow> txid list \<Rightarrow> txid list option" where
  "eligible_parents n [] = Some []"
| "eligible_parents n (t # ts) =
     (if al_get (mn_children n) t \<noteq> None then eligible_parents n ts
      else Option.bind (ancestors_of (mn_txs n) t) (\<lambda>as.
        map_option (\<lambda>rest. if length as + 1 < cc_max_chain (mn_cfg n) then t # rest else rest)
          (eligible_parents n ts)))"

text \<open>The cheapest of \<open>k\<close> random candidates, ties to the smaller txid.\<close>

fun sample_parent ::
  "'r rand \<Rightarrow> (txid \<times> mempool_entry) list \<Rightarrow> txid list \<Rightarrow> nat \<Rightarrow> (u64 \<times> txid) option \<Rightarrow> 'r
     \<Rightarrow> ((u64 \<times> txid) option \<times> 'r) option" where
  "sample_parent rand txs eligible 0 best r = Some (best, r)"
| "sample_parent rand txs eligible (Suc k) best r =
     (let (idx, r) = rand_index rand (length eligible) r in
      if length eligible \<le> idx then None
      else let t = eligible ! idx in
        Option.bind (al_get txs t) (\<lambda>e.
          let rate_t = (own_rate_sat_vb e, t);
              best = (case best of Some b \<Rightarrow> if b \<le> rate_t then Some b else Some rate_t | None \<Rightarrow> Some rate_t)
          in sample_parent rand txs eligible k best r))"

definition pick_parent :: "'r rand \<Rightarrow> 'r mock_node \<Rightarrow> (txid option \<times> 'r mock_node) option" where
  "pick_parent rand n =
     (if cc_max_chain (mn_cfg n) < 2 then Some (None, n)
      else Option.bind (eligible_parents n (mock_keys rand n)) (\<lambda>eligible.
        if eligible = [] then Some (None, n)
        else map_option (\<lambda>(best, r). (map_option snd best, n\<lparr>mn_rng := r\<rparr>))
          (sample_parent rand (mn_txs n) eligible (min (length eligible) 8) None (mn_rng n))))"

definition sample_fee_rate :: "'r rand \<Rightarrow> 'r mock_node \<Rightarrow> u64 \<times> 'r mock_node" where
  "sample_fee_rate rand n =
     (let lo = fd_min_sat_vb (cc_fee (mn_cfg n)); hi = fd_max_sat_vb (cc_fee (mn_cfg n)) in
      if hi \<le> lo then (lo, n)
      else let (u, r) = rand_unit rand (mn_rng n);
               span = u64_as_f64 (hi - lo);
               sat_vb = lo + f64_as_u64 (f64_round_int (f64_mul span (rand_powf rand u (fd_skew (cc_fee (mn_cfg n))))))
           in (min sat_vb hi, n\<lparr>mn_rng := r\<rparr>))"

definition insert_standalone :: "'r rand \<Rightarrow> 'r mock_node \<Rightarrow> 'r mock_node" where
  "insert_standalone rand n =
     (let (sat_vb, n) = sample_fee_rate rand n;
          ((t, ent), n) = gen_standalone_entry rand sat_vb n
      in n\<lparr>mn_txs := AList.update t ent (mn_txs n)\<rparr>)"

text \<open>\<open>cpfp_fraction > 0.0 && rng.gen::<f64>() < cpfp_fraction\<close>: the draw happens only for a positive fraction.\<close>

definition attach_drawn :: "'r rand \<Rightarrow> 'r mock_node \<Rightarrow> bool \<times> 'r mock_node" where
  "attach_drawn rand n =
     (if 0 < cc_cpfp_fraction (mn_cfg n)
      then let (u, r) = rand_unit rand (mn_rng n) in (u < cc_cpfp_fraction (mn_cfg n), n\<lparr>mn_rng := r\<rparr>)
      else (False, n))"

definition add_arrival :: "'r rand \<Rightarrow> 'r mock_node \<Rightarrow> 'r mock_node option" where
  "add_arrival rand n =
     (case attach_drawn rand n of
        (False, n) \<Rightarrow> Some (insert_standalone rand n)
      | (True, n) \<Rightarrow>
          Option.bind (pick_parent rand n) (\<lambda>(parent, n).
            case parent of Some p \<Rightarrow> attach_child rand p n | None \<Rightarrow> Some (insert_standalone rand n)))"

fun add_arrivals :: "'r rand \<Rightarrow> nat \<Rightarrow> 'r mock_node \<Rightarrow> 'r mock_node option" where
  "add_arrivals rand 0 n = Some n"
| "add_arrivals rand (Suc k) n = Option.bind (add_arrival rand n) (add_arrivals rand k)"

definition mock_node_new :: "'r rand \<Rightarrow> 'r \<Rightarrow> usize \<Rightarrow> churn_config \<Rightarrow> 'r mock_node option" where
  "mock_node_new rand seeded initial_size cfg =
     add_arrivals rand initial_size
       \<lparr>mn_txs = [], mn_children = [], mn_tip_height = 800000, mn_min_fee = 1000, mn_reloading = False,
        mn_rng = seeded, mn_cfg = cfg\<rparr>"

subsection \<open>Churn\<close>

text \<open>The eviction loop of \<open>advance\<close> and \<open>mass_drop\<close>: it stops early when the mempool is empty.\<close>

fun evict :: "'r rand \<Rightarrow> nat \<Rightarrow> 'r mock_node \<Rightarrow> 'r mock_node option" where
  "evict rand 0 n = Some n"
| "evict rand (Suc k) n =
     (case mock_keys rand n of
        [] \<Rightarrow> Some n
      | start # _ \<Rightarrow>
          Option.bind (leaf_of (mn_children n) start) (\<lambda>leaf.
            Option.bind (remove_leaf leaf n) (evict rand k)))"

definition advance :: "'r rand \<Rightarrow> 'r mock_node \<Rightarrow> 'r mock_node option" where
  "advance rand n =
     (let n = n\<lparr>mn_reloading := False\<rparr> in
      Option.bind (evict rand (cc_evictions_per_tick (mn_cfg n)) n) (\<lambda>n.
        add_arrivals rand (cc_arrivals_per_tick (mn_cfg n)) n))"

definition reload :: "'r mock_node \<Rightarrow> 'r mock_node" where
  "reload n = n\<lparr>mn_reloading := True\<rparr>"

definition mass_drop :: "'r rand \<Rightarrow> f64 \<Rightarrow> 'r mock_node \<Rightarrow> 'r mock_node option" where
  "mass_drop rand fraction n =
     evict rand (f64_as_nat usize_max (f64_mul (f64_round (of_nat (length (mn_txs n)))) fraction)) n"

subsection \<open>Mining\<close>

text \<open>\<open>confirm_set\<close>: the survivors whose parent is confirmed become roots.\<close>

definition rerooted :: "'r rand \<Rightarrow> txid list \<Rightarrow> 'r mock_node \<Rightarrow> txid list" where
  "rerooted rand confirmed n =
     filter (\<lambda>t. t \<notin> set confirmed \<and>
         (case al_get (mn_txs n) t of
            Some e \<Rightarrow> (case me_depends e of p # _ \<Rightarrow> p \<in> set confirmed | [] \<Rightarrow> False)
          | None \<Rightarrow> False))
       (mock_keys rand n)"

definition reroot_entry :: "mempool_entry \<Rightarrow> mempool_entry" where
  "reroot_entry e =
     e\<lparr>me_depends := [], me_ancestorsize := me_vsize e,
       me_fees := (me_fees e)\<lparr>ef_ancestor := ef_base (me_fees e)\<rparr>\<rparr>"

definition reroot_at :: "txid \<Rightarrow> (txid \<times> mempool_entry) list \<Rightarrow> (txid \<times> mempool_entry) list" where
  "reroot_at t txs = (case al_get txs t of Some e \<Rightarrow> AList.update t (reroot_entry e) txs | None \<Rightarrow> txs)"

definition repair_child :: "mempool_entry \<Rightarrow> mempool_entry \<Rightarrow> mempool_entry option" where
  "repair_child p c =
     map_option (\<lambda>a. c\<lparr>me_ancestorsize := me_vsize c + me_ancestorsize p, me_fees := (me_fees c)\<lparr>ef_ancestor := a\<rparr>\<rparr>)
       (amount_add (ef_base (me_fees c)) (ef_ancestor (me_fees p)))"

text \<open>The walk down from a new root; \<open>self.txs[&parent]\<close> panics on an absent parent.\<close>

partial_function (option) repair_below ::
  "(txid \<times> txid) list \<Rightarrow> txid \<Rightarrow> (txid \<times> mempool_entry) list \<Rightarrow> (txid \<times> mempool_entry) list option" where
  "repair_below children parent txs =
     (case al_get children parent of
        None \<Rightarrow> Some txs
      | Some child \<Rightarrow>
          Option.bind (al_get txs parent) (\<lambda>p.
          Option.bind
            (case al_get txs child of
               Some c \<Rightarrow> map_option (\<lambda>c'. AList.update child c' txs) (repair_child p c)
             | None \<Rightarrow> Some txs)
            (repair_below children child)))"

declare repair_below.simps [code]

definition confirm_set :: "'r rand \<Rightarrow> txid list \<Rightarrow> 'r mock_node \<Rightarrow> 'r mock_node option" where
  "confirm_set rand confirmed n =
     (let roots = rerooted rand confirmed n;
          txs = fold AList.delete confirmed (fold reroot_at roots (mn_txs n));
          children = fold AList.delete confirmed (mn_children n)
      in map_option (\<lambda>txs. n\<lparr>mn_txs := txs, mn_children := children\<rparr>)
           (fold_opt (repair_below children) roots txs))"

definition BLOCK_WEIGHT :: u64 where "BLOCK_WEIGHT = 4000000"

definition entry_weight :: "mempool_entry \<Rightarrow> u64" where
  "entry_weight e = (case me_weight e of Some w \<Rightarrow> w | None \<Rightarrow> me_vsize e * 4)"

text \<open>One turn of the loop over the ranked transactions: the weight used and the set confirmed so far.\<close>

definition mine_one ::
  "(txid \<times> mempool_entry) list \<Rightarrow> u64 \<times> txid \<Rightarrow> u64 \<times> txid list \<Rightarrow> (u64 \<times> txid list) option" where
  "mine_one txs = (\<lambda>(_, t) (used, confirmed).
     if t \<in> set confirmed then Some (used, confirmed)
     else Option.bind (ancestors_of txs t) (\<lambda>as.
       let pkg = t # filter (\<lambda>a. a \<notin> set confirmed) as in
       Option.bind (those (map (\<lambda>x. map_option entry_weight (al_get txs x)) pkg)) (\<lambda>ws.
         if BLOCK_WEIGHT < used + sum_list ws then Some (used, confirmed)
         else Some (used + sum_list ws, fold List.insert pkg confirmed))))"

definition ranked :: "(u64 \<times> txid) list \<Rightarrow> (u64 \<times> txid) list" where
  "ranked scored = sort_key (\<lambda>(r, t). (- uint r, t)) scored"

definition select_block :: "'r rand \<Rightarrow> 'r mock_node \<Rightarrow> (u64 \<times> txid list) option" where
  "select_block rand n =
     Option.bind (those (map (\<lambda>t. map_option (\<lambda>r. (r, t)) (effective_rate (mn_txs n) t)) (mock_keys rand n)))
       (\<lambda>scored. fold_opt (mine_one (mn_txs n)) (ranked scored) (0, []))"

definition mine_block :: "'r rand \<Rightarrow> 'r mock_node \<Rightarrow> 'r mock_node option" where
  "mine_block rand n =
     (let n = n\<lparr>mn_tip_height := mn_tip_height n + 1\<rparr> in
      Option.bind (select_block rand n) (\<lambda>(_, confirmed). confirm_set rand confirmed n))"

subsection \<open>The RPC surface\<close>

text \<open>\<open>clone_entry\<close> copies field by field; values of the model need no copy.\<close>

definition loaded_sync :: "'r mock_node \<Rightarrow> bool" where
  "loaded_sync n = (\<not> mn_reloading n)"

definition snapshot_entries :: "'r rand \<Rightarrow> 'r mock_node \<Rightarrow> (txid \<times> mempool_entry) list" where
  "snapshot_entries rand n =
     List.map_filter (\<lambda>t. map_option (Pair t) (al_get (mn_txs n) t)) (mock_keys rand n)"

definition entry_by_txid :: "'r mock_node \<Rightarrow> txid \<Rightarrow> mempool_entry option" where
  "entry_by_txid n t = al_get (mn_txs n) t"

definition mock_mempool_info :: "'r mock_node \<Rightarrow> rpc_error + mempool_info" where
  "mock_mempool_info n = Inr \<lparr>mi_loaded = Some (\<not> mn_reloading n), mi_mempoolminfee = mn_min_fee n\<rparr>"

definition mock_raw_mempool_txids :: "'r rand \<Rightarrow> 'r mock_node \<Rightarrow> rpc_error + txid list" where
  "mock_raw_mempool_txids rand n = Inr (mock_keys rand n)"

definition mock_raw_mempool_verbose :: "'r rand \<Rightarrow> 'r mock_node \<Rightarrow> rpc_error + (txid \<times> mempool_entry) list" where
  "mock_raw_mempool_verbose rand n = Inr (snapshot_entries rand n)"

definition mock_mempool_entry :: "'r mock_node \<Rightarrow> txid \<Rightarrow> rpc_error + mempool_entry option" where
  "mock_mempool_entry n t = Inr (entry_by_txid n t)"

definition mock_tip_height :: "'r mock_node \<Rightarrow> rpc_error + u64" where
  "mock_tip_height n = Inr (mn_tip_height n)"

definition mock_reconnect :: "'r mock_node \<Rightarrow> setup_error + unit" where
  "mock_reconnect n = Inr ()"

end
