(* ===== verification/Sim_Network.thy ===== *)
theory Sim_Network
  imports Sim_Node Sync
begin

text \<open>
  The simulated network (\<open>sim/network.rs\<close>): a rate limiter with one-second windows, and \<open>SimulatedRpc\<close>, which
  puts a gate (random drops, the limiter), a delay and a cap on the verbose body in front of a wrapped
  node.  The wrapped node is any \<open>env\<close> of theory Sync; the wrapper is the \<open>env\<close> over the world of the
  wrapped node and the shared limiter and generator.  Times are nanoseconds of the monotonic clock.
\<close>

subsection \<open>Profiles\<close>

record network_profile =
  np_latency :: nat
  np_req_per_sec :: "u32 option"
  np_body_cap :: "usize option"
  np_drop_rate :: f64

definition local_node :: network_profile where
  "local_node = \<lparr>np_latency = 0, np_req_per_sec = None, np_body_cap = None, np_drop_rate = 0\<rparr>"

definition getblock_remote :: network_profile where
  "getblock_remote =
     \<lparr>np_latency = 150 * 1000000, np_req_per_sec = Some 20, np_body_cap = Some (512 * 1024 * 1024), np_drop_rate = 0\<rparr>"

subsection \<open>The limiter\<close>

record limiter =
  li_window_start :: nat
  li_count :: u32

definition limiter_new :: "nat \<Rightarrow> limiter" where
  "limiter_new now = \<lparr>li_window_start = now, li_count = 0\<rparr>"

definition check_rate_limit :: "limiter \<Rightarrow> u32 \<Rightarrow> nat \<Rightarrow> bool \<times> limiter" where
  "check_rate_limit l limit now =
     (let l = (if seconds 1 \<le> now - li_window_start l then l\<lparr>li_window_start := now, li_count := 0\<rparr> else l)
      in if limit \<le> li_count l then (False, l) else (True, l\<lparr>li_count := li_count l + 1\<rparr>))"

subsection \<open>The wrapper\<close>

record 'r net_shared =
  ns_limiter :: limiter
  ns_rng :: 'r

text \<open>\<open>SimulatedRpc::new\<close>: the clock is read once, the generator has a fixed seed.\<close>

definition net_shared_new :: "'w env \<Rightarrow> 'r \<Rightarrow> 'w \<Rightarrow> 'r net_shared \<times> 'w" where
  "net_shared_new env seeded w =
     (let (now, w) = instant_now env w in (\<lparr>ns_limiter = limiter_new now, ns_rng = seeded\<rparr>, w))"

text \<open>\<open>drop_rate > 0.0 && rng.gen::<f64>() < drop_rate\<close>, with the generator afterwards.\<close>

definition drops :: "('r \<Rightarrow> f64 \<times> 'r) \<Rightarrow> network_profile \<Rightarrow> 'r net_shared \<Rightarrow> bool \<times> 'r net_shared" where
  "drops draw p sh =
     (if 0 < np_drop_rate p
      then let (u, r) = draw (ns_rng sh) in (u < np_drop_rate p, sh\<lparr>ns_rng := r\<rparr>)
      else (False, sh))"

definition gate ::
  "('r \<Rightarrow> f64 \<times> 'r) \<Rightarrow> network_profile \<Rightarrow> 'w env \<Rightarrow> 'r net_shared \<times> 'w \<Rightarrow> (rpc_error + unit) \<times> ('r net_shared \<times> 'w)" where
  "gate draw p env = (\<lambda>(sh, w).
     let (dropped, sh) = drops draw p sh in
     if dropped then (Inl (HttpStatus 503 (ustr ''simulated transport drop'')), (sh, w))
     else case np_req_per_sec p of
       None \<Rightarrow> (Inr (), (sh, w))
     | Some limit \<Rightarrow>
         let (now, w) = instant_now env w;
             (ok, l) = check_rate_limit (ns_limiter sh) limit now
         in (if ok then Inr () else Inl (HttpStatus 429 []), (sh\<lparr>ns_limiter := l\<rparr>, w)))"

definition delay :: "network_profile \<Rightarrow> 'w env \<Rightarrow> 'w \<Rightarrow> 'w" where
  "delay p env w = (if 0 < np_latency p then snd (sleep_for env (np_latency p) w) else w)"

text \<open>\<open>self.gate()?; self.delay().await; self.inner.f().await\<close>.\<close>

definition gated ::
  "('r \<Rightarrow> f64 \<times> 'r) \<Rightarrow> network_profile \<Rightarrow> 'w env \<Rightarrow> ('w \<Rightarrow> (rpc_error + 'a) \<times> 'w)
     \<Rightarrow> 'r net_shared \<times> 'w \<Rightarrow> (rpc_error + 'a) \<times> ('r net_shared \<times> 'w)" where
  "gated draw p env f s =
     (case gate draw p env s of
        (Inl e, s) \<Rightarrow> (Inl e, s)
      | (Inr _, (sh, w)) \<Rightarrow> let (a, w) = f (delay p env w) in (a, (sh, w)))"

definition cap_body ::
  "network_profile \<Rightarrow> rpc_error + (txid \<times> mempool_entry) list \<Rightarrow> rpc_error + (txid \<times> mempool_entry) list" where
  "cap_body p r =
     (case r of
        Inl e \<Rightarrow> Inl e
      | Inr entries \<Rightarrow>
          (case np_body_cap p of
             Some cap \<Rightarrow> if cap < usize_sat_mul (length entries) 180 then Inl (BodyTooLarge cap) else Inr entries
           | None \<Rightarrow> Inr entries))"

text \<open>A call that does not go through the gate, on the world of the wrapped node.\<close>

definition beside :: "('w \<Rightarrow> 'a \<times> 'w) \<Rightarrow> 's \<times> 'w \<Rightarrow> 'a \<times> ('s \<times> 'w)" where
  "beside f = (\<lambda>(sh, w). let (a, w) = f w in (a, (sh, w)))"

definition sim_env :: "('r \<Rightarrow> f64 \<times> 'r) \<Rightarrow> network_profile \<Rightarrow> 'w env \<Rightarrow> ('r net_shared \<times> 'w) env" where
  "sim_env draw p env =
     \<lparr>rpc_mempool_info = gated draw p env (rpc_mempool_info env),
      rpc_raw_mempool_txids = gated draw p env (rpc_raw_mempool_txids env),
      rpc_raw_mempool_verbose = (\<lambda>s. let (r, s) = gated draw p env (rpc_raw_mempool_verbose env) s in (cap_body p r, s)),
      rpc_mempool_entry = (\<lambda>t. gated draw p env (rpc_mempool_entry env t)),
      rpc_tip_height = gated draw p env (rpc_tip_height env),
      rpc_reconnect = beside (rpc_reconnect env),
      instant_now = beside (instant_now env),
      system_now = beside (system_now env),
      unix_now = beside (unix_now env),
      sleep_for = (\<lambda>d. beside (sleep_for env d)),
      sleep_or_wake = (\<lambda>d. beside (sleep_or_wake env d)),
      completion_order = (\<lambda>n ts. beside (completion_order env n ts)),
      ready_now = beside (ready_now env)\<rparr>"

text \<open>The simulated node as the RPC side of an \<open>env\<close>, between two of its ticks.\<close>

definition mock_env :: "'r rand \<Rightarrow> 'r mock_node \<Rightarrow> 'w env \<Rightarrow> 'w env" where
  "mock_env rand n env =
     env\<lparr>rpc_mempool_info := Pair (mock_mempool_info n),
         rpc_raw_mempool_txids := Pair (mock_raw_mempool_txids rand n),
         rpc_raw_mempool_verbose := Pair (mock_raw_mempool_verbose rand n),
         rpc_mempool_entry := (\<lambda>t. Pair (mock_mempool_entry n t)),
         rpc_tip_height := Pair (mock_tip_height n),
         rpc_reconnect := Pair (mock_reconnect n)\<rparr>"

subsection \<open>The budget of the limiter\<close>

text \<open>The decisions of the limiter on a sequence of calls.\<close>

fun grants :: "limiter \<Rightarrow> u32 \<Rightarrow> nat list \<Rightarrow> (nat \<times> bool) list" where
  "grants l limit [] = []"
| "grants l limit (now # ts) = (case check_rate_limit l limit now of (ok, l') \<Rightarrow> (now, ok) # grants l' limit ts)"

definition granted :: "(nat \<times> bool) list \<Rightarrow> nat" where
  "granted gs = length (filter snd gs)"

lemma granted_simps [simp]: "granted [] = 0" "granted ((t, ok) # gs) = (if ok then Suc (granted gs) else granted gs)"
  "granted (gs @ hs) = granted gs + granted hs"
  by (simp_all add: granted_def)

lemma grants_append: "\<exists>l'. grants l limit (ts @ us) = grants l limit ts @ grants l' limit us"
  by (induction ts arbitrary: l) (auto split: prod.split)

lemma map_fst_grants [simp]: "map fst (grants l limit ts) = ts"
  by (induction ts arbitrary: l) (auto split: prod.split)

lemma unat_less_Suc: "(a :: u32) < b \<Longrightarrow> unat (a + 1) = Suc (unat a)"
  using unat_u32_lt [of b] by (simp add: word_less_nat_alt unat_word_ariths)

text \<open>Within one window exactly the budget that is left is granted.\<close>

lemma grants_window:
  assumes "\<And>t. t \<in> set ts \<Longrightarrow> t < li_window_start l + seconds 1" "li_count l \<le> limit"
  shows "granted (grants l limit ts) = min (length ts) (unat limit - unat (li_count l))"
  using assms
proof (induction ts arbitrary: l)
  case (Cons t ts)
  have "t < li_window_start l + seconds 1" by (rule Cons.prems(1)) simp
  then have here: "\<not> seconds 1 \<le> t - li_window_start l" by (simp add: seconds_def)
  show ?case
  proof (cases "limit \<le> li_count l")
    case True
    then have run: "check_rate_limit l limit t = (False, l)" using here by (simp add: check_rate_limit_def)
    have "granted (grants l limit ts) = min (length ts) (unat limit - unat (li_count l))" using Cons by simp
    then show ?thesis using True run by (simp add: word_le_nat_alt)
  next
    case False
    let ?l = "l\<lparr>li_count := li_count l + 1\<rparr>"
    have run: "check_rate_limit l limit t = (True, ?l)" using False here by (simp add: check_rate_limit_def)
    have c: "unat (li_count l + 1) = Suc (unat (li_count l))" "unat (li_count l) < unat limit"
      using False unat_less_Suc [of "li_count l" limit] by (simp_all add: not_le word_less_nat_alt)
    have "granted (grants ?l limit ts) = min (length ts) (unat limit - unat (li_count l + 1))"
      using Cons.IH [of ?l] Cons.prems c by (simp add: word_le_nat_alt)
    then show ?thesis using run c by simp
  qed
qed simp

text \<open>A second that starts anywhere meets at most two windows.\<close>

lemma grants_second:
  assumes "sorted ts" "\<And>t. t \<in> set ts \<Longrightarrow> a \<le> t \<and> t < a + seconds 1" "li_count l \<le> limit"
  shows "granted (grants l limit ts) \<le> (unat limit - unat (li_count l)) + unat limit"
  using assms
proof (induction ts arbitrary: l)
  case (Cons t ts)
  have later: "t \<le> u" "u < a + seconds 1" "a \<le> t" if "u \<in> set ts" for u using Cons.prems(1,2) that by auto
  show ?case
  proof (cases "seconds 1 \<le> t - li_window_start l")
    case True
    define l0 where "l0 = l\<lparr>li_window_start := t, li_count := 0\<rparr>"
    have "grants l limit (t # ts) = grants l0 limit (t # ts)" using True by (simp add: check_rate_limit_def l0_def)
    moreover have "u < li_window_start l0 + seconds 1" if "u \<in> set (t # ts)" for u
      using that later [of u] by (auto simp: l0_def seconds_def)
    moreover have "li_count l0 \<le> limit" "unat (li_count l0) = 0" by (simp_all add: l0_def)
    ultimately have "granted (grants l limit (t # ts)) \<le> unat limit" using grants_window [of "t # ts" l0 limit] by simp
    then show ?thesis by simp
  next
    case False
    show ?thesis
    proof (cases "limit \<le> li_count l")
      case True
      then have "check_rate_limit l limit t = (False, l)" using False by (simp add: check_rate_limit_def)
      then show ?thesis using Cons by simp
    next
      case free: False
      let ?l = "l\<lparr>li_count := li_count l + 1\<rparr>"
      have run: "check_rate_limit l limit t = (True, ?l)" using False free by (simp add: check_rate_limit_def)
      have c: "unat (li_count l + 1) = Suc (unat (li_count l))" "unat (li_count l) < unat limit"
        using free unat_less_Suc [of "li_count l" limit] by (simp_all add: not_le word_less_nat_alt)
      have "granted (grants ?l limit ts) \<le> (unat limit - unat (li_count ?l)) + unat limit"
        using Cons.prems c by (intro Cons.IH) (auto simp: word_le_nat_alt)
      then show ?thesis using run c by simp
    qed
  qed
qed simp

lemma check_count_le: "li_count l \<le> limit \<Longrightarrow> li_count (snd (check_rate_limit l limit now)) \<le> limit"
  using unat_less_Suc [of "li_count l" limit] unat_less_Suc [of 0 limit]
  by (auto simp: check_rate_limit_def Let_def not_le word_le_nat_alt word_less_nat_alt)

end
