(* ===== verification/Sim_Server.thy ===== *)
theory Sim_Server
  imports Sim_Network
begin

text \<open>
  The simulation server (\<open>sim/server.rs\<close>): a simulated node behind the JSON-RPC methods of a real one, with
  the limiter and the latency of a profile, the background task that churns the node and mines blocks,
  and the entry point that turns command-line values into a configuration.  The record \<open>wire\<close> holds what
  the crate \<open>bitcoin\<close> does with ids and amounts; axum and tokio carry requests and responses and are not
  modelled; an object of JSON is its list of fields, whose order no reader looks at.
\<close>

subsection \<open>Requests and responses\<close>

record wire =
  wr_show_txid :: "txid \<Rightarrow> ustring"
  wr_parse_txid :: "ustring \<Rightarrow> txid option"
  wr_to_btc :: "u64 \<Rightarrow> f64"

record json_rpc_request =
  jq_method :: ustring
  jq_params :: "json list"

datatype response = EmptyStatus nat | JsonBody json

definition json_obj :: "(string \<times> json) list \<Rightarrow> json" where
  "json_obj fs = JObject (map (\<lambda>(k, v). (ustr k, v)) fs)"

definition ok_response :: "json \<Rightarrow> response" where
  "ok_response result = JsonBody (json_obj [(''result'', result), (''error'', JNull), (''id'', JNum 0)])"

definition error_response :: "int \<Rightarrow> ustring \<Rightarrow> response" where
  "error_response code message = JsonBody (json_obj
     [(''result'', JNull), (''error'', json_obj [(''code'', JNum code), (''message'', JString message)]), (''id'', JNum 0)])"

definition json_u64 :: "u64 \<Rightarrow> json" where "json_u64 n = JNum (uint n)"

definition verbose_entry_json :: "wire \<Rightarrow> mempool_entry \<Rightarrow> json" where
  "verbose_entry_json w e = json_obj
     [(''vsize'', json_u64 (me_vsize e)),
      (''weight'', case me_weight e of Some n \<Rightarrow> json_u64 n | None \<Rightarrow> JNull),
      (''depends'', JArray (map (\<lambda>d. JString (wr_show_txid w d)) (me_depends e))),
      (''fees'', json_obj
         [(''base'', JFloat (wr_to_btc w (ef_base (me_fees e)))),
          (''ancestor'', JFloat (wr_to_btc w (ef_ancestor (me_fees e)))),
          (''descendant'', JFloat (wr_to_btc w (ef_descendant (me_fees e))))]),
      (''ancestorsize'', json_u64 (me_ancestorsize e)),
      (''descendantsize'', json_u64 (me_descendantsize e))]"

subsection \<open>Dispatch\<close>

definition json_as_bool :: "json \<Rightarrow> bool option" where
  "json_as_bool j = (case j of JBool b \<Rightarrow> Some b | _ \<Rightarrow> None)"

definition json_as_str :: "json \<Rightarrow> ustring option" where
  "json_as_str j = (case j of JString s \<Rightarrow> Some s | _ \<Rightarrow> None)"

definition json_first :: "json list \<Rightarrow> json option" where
  "json_first js = (case js of j # _ \<Rightarrow> Some j | [] \<Rightarrow> None)"

text \<open>\<open>collect\<close> into a \<open>serde_json::Map\<close>: the last value of a key wins.\<close>

definition json_map :: "(ustring \<times> json) list \<Rightarrow> json" where
  "json_map kvs = JObject (fold (\<lambda>(k, v). AList.update k v) kvs [])"

definition dispatch :: "'r rand \<Rightarrow> wire \<Rightarrow> 'r mock_node \<Rightarrow> ustring \<Rightarrow> json list \<Rightarrow> response" where
  "dispatch rand w n method params =
     (if method = ustr ''getblockchaininfo'' then
        ok_response (json_obj [(''chain'', JString (ustr ''main'')), (''blocks'', json_u64 (mn_tip_height n))])
      else if method = ustr ''getmempoolinfo'' then
        ok_response (json_obj [(''loaded'', JBool (loaded_sync n)), (''mempoolminfee'', JFloat (f64_round (1 / 100000)))])
      else if method = ustr ''getrawmempool'' then
        (let verbose = unwrap_or (Option.bind (json_first params) json_as_bool) False;
             entries = snapshot_entries rand n
         in if verbose
            then ok_response (json_map (map (\<lambda>(t, e). (wr_show_txid w t, verbose_entry_json w e)) entries))
            else ok_response (JArray (map (\<lambda>(t, _). JString (wr_show_txid w t)) entries)))
      else if method = ustr ''getmempoolentry'' then
        (let txid_str = unwrap_or (Option.bind (json_first params) json_as_str) [] in
         case Option.bind (wr_parse_txid w txid_str) (entry_by_txid n) of
           Some e \<Rightarrow> ok_response (verbose_entry_json w e)
         | None \<Rightarrow> error_response (- 5) (ustr ''Transaction not in mempool''))
      else error_response (- 32601) (ustr ''Method not found: '' @ method))"

record 'r server_state =
  sv_node :: "'r mock_node"
  sv_limiter :: limiter
  sv_profile :: network_profile

text \<open>
  One request at time \<open>now\<close>.  While the handler sleeps, other requests and the churn task go on: \<open>wait d\<close>
  is what they make of the shared state in that time.
\<close>

definition handle_rpc ::
  "'r rand \<Rightarrow> wire \<Rightarrow> (nat \<Rightarrow> ('r, 'm) server_state_scheme \<Rightarrow> ('r, 'm) server_state_scheme) \<Rightarrow> nat \<Rightarrow> json_rpc_request
     \<Rightarrow> ('r, 'm) server_state_scheme \<Rightarrow> response \<times> ('r, 'm) server_state_scheme" where
  "handle_rpc rand w wait now req st =
     (let (within_budget, st) =
        (case np_req_per_sec (sv_profile st) of
           Some limit \<Rightarrow> let (ok, l) = check_rate_limit (sv_limiter st) limit now in (ok, st\<lparr>sv_limiter := l\<rparr>)
         | None \<Rightarrow> (True, st))
      in if \<not> within_budget then (EmptyStatus 429, st)
         else let st = (if 0 < np_latency (sv_profile st) then wait (np_latency (sv_profile st)) st else st)
              in (dispatch rand w (sv_node st) (jq_method req) (jq_params req), st))"

subsection \<open>The background task\<close>

definition CHURN_SECS :: u64 where "CHURN_SECS = 2"

definition ticks_per_block :: "u64 \<Rightarrow> u64 \<Rightarrow> u64" where
  "ticks_per_block block_secs churn_secs =
     (if block_secs = 0 then 0 else max (block_secs div max churn_secs 1) 1)"

text \<open>The shared state and the two counters of the task.\<close>

record 'r churn_state = "'r server_state" +
  ch_tick :: u64
  ch_blocks :: u32

definition is_multiple_of :: "'a::len word \<Rightarrow> 'a word \<Rightarrow> bool" where
  "is_multiple_of a b = (if b = 0 then a = 0 else a mod b = 0)"

text \<open>One turn of the loop, under one lock of the node; \<open>0.8\<close> is the nearest \<open>f64\<close>.\<close>

definition mine_turn :: "'r rand \<Rightarrow> u32 \<Rightarrow> 'r churn_state \<Rightarrow> 'r churn_state option" where
  "mine_turn rand reload_every c =
     Option.bind (mine_block rand (sv_node c)) (\<lambda>n.
       let blocks = ch_blocks c + 1 in
       if reload_every \<noteq> 0 \<and> is_multiple_of blocks reload_every
       then map_option (\<lambda>n. c\<lparr>sv_node := reload n, ch_blocks := blocks\<rparr>) (mass_drop rand (f64_round (4 / 5)) n)
       else Some (c\<lparr>sv_node := n, ch_blocks := blocks\<rparr>))"

definition churn_turn :: "'r rand \<Rightarrow> u64 \<Rightarrow> u32 \<Rightarrow> 'r churn_state \<Rightarrow> 'r churn_state option" where
  "churn_turn rand tpb reload_every c =
     (let c = c\<lparr>ch_tick := ch_tick c + 1\<rparr> in
      Option.bind (advance rand (sv_node c)) (\<lambda>n.
        let c = c\<lparr>sv_node := n\<rparr> in
        if tpb \<noteq> 0 \<and> is_multiple_of (ch_tick c) tpb then mine_turn rand reload_every c else Some c))"

fun churn_turns :: "'r rand \<Rightarrow> u64 \<Rightarrow> u32 \<Rightarrow> nat \<Rightarrow> 'r churn_state \<Rightarrow> 'r churn_state option" where
  "churn_turns rand tpb reload_every 0 c = Some c"
| "churn_turns rand tpb reload_every (Suc k) c =
     Option.bind (churn_turn rand tpb reload_every c) (churn_turns rand tpb reload_every k)"

text \<open>\<open>spawn\<close>: the state that the handlers and the churn task start from; binding the port is tokio.\<close>

definition spawn :: "'r mock_node \<Rightarrow> network_profile \<Rightarrow> nat \<Rightarrow> 'r churn_state" where
  "spawn n p now = \<lparr>sv_node = n, sv_limiter = limiter_new now, sv_profile = p, ch_tick = 0, ch_blocks = 0\<rparr>"

subsection \<open>The command line\<close>

record sim_serve_args =
  sa_port :: nat
  sa_size :: usize
  sa_arrivals :: usize
  sa_evictions :: usize
  sa_profile :: string
  sa_block_secs :: u64
  sa_reload_every :: u32
  sa_cpfp_fraction :: f64v
  sa_max_chain :: usize
  sa_fee_skew :: f64v

definition clamp_fraction :: "f64v \<Rightarrow> f64" where
  "clamp_fraction x = (case x of NaN \<Rightarrow> 0 | Finite v \<Rightarrow> max 0 (min v 1) | PosInf \<Rightarrow> 1 | NegInf \<Rightarrow> 0)"

definition floor_skew :: "f64v \<Rightarrow> f64v" where
  "floor_skew x =
     (case x of
        NaN \<Rightarrow> Finite 3
      | Finite v \<Rightarrow> if v < f64_round (1 / 10) then Finite (f64_round (1 / 10)) else Finite v
      | PosInf \<Rightarrow> PosInf
      | NegInf \<Rightarrow> Finite (f64_round (1 / 10)))"

definition sim_churn_config :: "sim_serve_args \<Rightarrow> churn_config" where
  "sim_churn_config args =
     \<lparr>cc_arrivals_per_tick = sa_arrivals args, cc_evictions_per_tick = sa_evictions args,
      cc_fee = fd_skewed 1 500 (floor_skew (sa_fee_skew args)),
      cc_cpfp_fraction = clamp_fraction (sa_cpfp_fraction args), cc_max_chain = max (sa_max_chain args) 1\<rparr>"

definition sim_profile :: "sim_serve_args \<Rightarrow> network_profile" where
  "sim_profile args = (if sa_profile args = ''remote'' then getblock_remote else local_node)"

text \<open>\<open>run_cli\<close> up to the endless wait: the state that \<open>spawn\<close> starts from, and the ticks between two blocks.\<close>

definition run_cli :: "'r rand \<Rightarrow> 'r \<Rightarrow> nat \<Rightarrow> sim_serve_args \<Rightarrow> ('r churn_state \<times> u64) option" where
  "run_cli rand seeded now args =
     map_option (\<lambda>n. (spawn n (sim_profile args) now, ticks_per_block (sa_block_secs args) CHURN_SECS))
       (mock_node_new rand seeded (sa_size args) (sim_churn_config args))"

end
