(* ===== verification/Process.thy ===== *)
theory Process
  imports Sync_Lossy Rpc_Env Sim_Server Fees_Props
begin

text \<open>
  The process as its users see it: the choice of the entry point (\<open>main.rs\<close>) and the routes of the HTTP server
  with the JSON they answer (\<open>http.rs\<close>).  What axum answers on other paths is the argument \<open>fallback\<close>; a response
  is as in theory Sim\_Server, an empty one with a status or JSON with status 200.
\<close>

subsection \<open>Entry point\<close>

datatype entry_point = SimServe | Indexer

text \<open>The arguments of the process, its own name first, in a build with the feature \<open>simulation\<close>.\<close>

definition entry_point_of :: "ustring list \<Rightarrow> entry_point" where
  "entry_point_of args =
     (case args of _ # arg # _ \<Rightarrow> if arg = ustr ''sim-serve'' then SimServe else Indexer | _ \<Rightarrow> Indexer)"

subsection \<open>Answers\<close>

definition json_secs :: "nat option \<Rightarrow> json" where
  "json_secs x = (case x of Some n \<Rightarrow> JNum (int n) | None \<Rightarrow> JNull)"

definition health_json :: "health \<Rightarrow> json" where
  "health_json h = json_obj
     [(''caught_up'', JBool (he_caught_up h)),
      (''mempool_size'', JNum (int (he_mempool_size h))),
      (''tip_height'', json_u64 (he_tip_height h)),
      (''mempool_min_fee_sat_vb'', JFloat (he_min_fee h)),
      (''network'', JString (ustr (he_network h))),
      (''last_sync_ok'', json_secs (he_last_sync_ok h)),
      (''age_secs'', json_secs (he_age_secs h))]"

definition estimate_json :: "fee_estimate \<Rightarrow> json" where
  "estimate_json est = json_obj
     [(''next_block'', JFloat (fe_next_block est)),
      (''within_3_blocks'', JFloat (fe_within_3_blocks est)),
      (''within_6_blocks'', JFloat (fe_within_6_blocks est)),
      (''horizon'', JFloat (fe_horizon est)),
      (''relay_floor'', JFloat (fe_relay_floor est)),
      (''computed_at'', json_u64 (fe_computed_at est))]"

definition fees_answer :: "mempool_state \<Rightarrow> response" where
  "fees_answer s =
     (case fees_handler s of FeesOk est \<Rightarrow> JsonBody (estimate_json est) | ServiceUnavailable \<Rightarrow> EmptyStatus 503)"

text \<open>A GET request at the wall-clock time \<open>now\<close>.\<close>

definition router :: "(ustring \<Rightarrow> response) \<Rightarrow> int \<Rightarrow> mempool_state \<Rightarrow> ustring \<Rightarrow> response" where
  "router fallback now s path =
     (if path = ustr ''/health'' then JsonBody (health_json (health_handler now s))
      else if path = ustr ''/fees'' then fees_answer s
      else fallback path)"

text \<open>Reading a field, as a client does.\<close>

definition answer_field :: "response \<Rightarrow> string \<Rightarrow> json option" where
  "answer_field r k = (case r of JsonBody (JObject fs) \<Rightarrow> map_of fs (ustr k) | _ \<Rightarrow> None)"

subsection \<open>What a client can rely on\<close>

lemma estimated_tiers:
  assumes "estimated_from est g"
  shows "ms_caught_up g \<and> fe_relay_floor est = ms_min_fee g \<and> fe_relay_floor est \<le> fe_horizon est \<and>
    fe_horizon est \<le> fe_within_6_blocks est \<and> fe_within_6_blocks est \<le> fe_within_3_blocks est \<and>
    fe_within_3_blocks est \<le> fe_next_block est"
proof -
  obtain rws t where "est = recommended_tiers rws (ms_min_fee g) t"
    using assms by (auto simp: estimated_from_def compute_estimate_def elim!: res_map.elims)
  then show ?thesis using tiers_monotone [of rws "ms_min_fee g" t] assms by (simp add: estimated_from_def)
qed

text \<open>\<open>/fees\<close> answers as soon as the start-up is over.\<close>

lemma snapshot_length: "length (fee_snapshot txs) = length txs"
  by (simp add: fee_snapshot_def)

lemma start_serves:
  assumes "run_start env cfg w net = Some s" "length (ms_txs (ss_state s)) < 2 ^ 32"
  shows "fees_handler (ss_state s) \<noteq> ServiceUnavailable"
proof -
  obtain b where b: "s = snd (run_state (start_steady env cfg) b)" "vouched b" using assms(1) by (rule run_startE)
  then have up: "ms_caught_up (ss_state b)" by (simp add: vouched_def)
  have "wp (start_steady env cfg) (\<lambda>_ t. length (ms_txs (ss_state t)) < 2 ^ 32 \<longrightarrow> fees_handler (ss_state t) \<noteq> ServiceUnavailable) b"
  proof (cases "length (ms_txs (ss_state b)) < 2 ^ 32")
    case True
    then obtain est where "\<And>clock. compute_estimate (fee_snapshot (ms_txs (ss_state b))) (ms_min_fee (ss_state b)) clock = Some (Inr (est clock))"
      using compute_estimate_total [of "fee_snapshot (ms_txs (ss_state b))" "ms_min_fee (ss_state b)"] snapshot_length by metis
    then show ?thesis using up
      by (simp add: start_steady_def maybe_recompute_fees_def fee_throttled_def recompute_now_def wp_simps fees_handler_def
          put_state_def split: option.split)
  next
    case False
    then show ?thesis using same_viewD [OF recompute_view]
    by (auto simp: start_steady_def maybe_recompute_fees_def fee_throttled_def recompute_now_def wp_simps fees_handler_def
        put_state_def split: option.split sum.split)
  qed
  then show ?thesis using assms(2) unfolding b(1) wp_run by blast
qed

text \<open>C5. What a client of \<open>GET /fees\<close> can rely on, in every state the process ever shows: the answer is an empty 503, or
  else \<open>GET /health\<close> says \<open>caught_up: true\<close> in the same state and the answer is the JSON of an estimate with
  ordered tiers, none below the relay floor, computed from the contents of a published state that vouched for the
  mempool, at that state's minimum fee.\<close>

theorem fees_answer_vouched:
  assumes "sync_reach env cfg w net s" "g \<in> set (ss_trace s)" "router fallback now g (ustr ''/fees'') \<noteq> EmptyStatus 503"
  shows "answer_field (router fallback now g (ustr ''/health'')) ''caught_up'' = Some (JBool True) \<and>
    (\<exists>est. router fallback now g (ustr ''/fees'') = JsonBody (estimate_json est) \<and>
       fe_relay_floor est \<le> fe_horizon est \<and> fe_horizon est \<le> fe_within_6_blocks est \<and>
       fe_within_6_blocks est \<le> fe_within_3_blocks est \<and> fe_within_3_blocks est \<le> fe_next_block est \<and>
       (\<exists>g' \<in> set (ss_trace s). estimated_from est g' \<and> ms_caught_up g' \<and> fe_relay_floor est = ms_min_fee g'))"
proof -
  obtain est where est: "ms_fee_estimate g = Some est" "ms_caught_up g"
    using assms(3) by (auto simp: router_def fees_answer_def fees_handler_def split: option.splits if_splits)
  obtain g' where "g' \<in> set (ss_trace s)" "estimated_from est g'"
    using sync_reach_inv [OF assms(1)] assms(2) est(1) by (auto simp: sync_inv_def)
  moreover have "answer_field (router fallback now g (ustr ''/health'')) ''caught_up'' = Some (JBool True)"
    using est(2) by (simp add: router_def answer_field_def health_json_def json_obj_def health_handler_def)
  moreover have "router fallback now g (ustr ''/fees'') = JsonBody (estimate_json est)"
    using est by (simp add: router_def fees_answer_def fees_handler_def)
  ultimately show ?thesis using estimated_tiers by blast
qed

text \<open>A node with an empty mempool.\<close>

definition void_env :: "unit env" where
  "void_env = (tip_env [])\<lparr>rpc_mempool_entry := (\<lambda>t w. (Inr None, w))\<rparr>"

lemma fees_answer_vouched_witness:
  "\<exists>s. sync_reach void_env some_cfg () ''main'' s \<and>
    answer_field (router (\<lambda>p. EmptyStatus 404) 0 (ss_state s) (ustr ''/health'')) ''caught_up'' = Some (JBool True) \<and>
    (\<exists>est. router (\<lambda>p. EmptyStatus 404) 0 (ss_state s) (ustr ''/fees'') = JsonBody (estimate_json est) \<and>
       fe_relay_floor est \<le> fe_horizon est \<and> fe_horizon est \<le> fe_within_6_blocks est \<and>
       fe_within_6_blocks est \<le> fe_within_3_blocks est \<and> fe_within_3_blocks est \<le> fe_next_block est \<and>
       (\<exists>g' \<in> set (ss_trace s). estimated_from est g' \<and> ms_caught_up g' \<and> fe_relay_floor est = ms_min_fee g'))"
proof -
  have "gate_open void_env s" "load_succeeds void_env s" for s
    by (simp_all add: gate_open_def load_succeeds_def void_env_def tip_env_def calm_env_def some_info_def unwrap_or_def
        bulk_resync_def run_outside run_return write_state_def change_def)
  then obtain s where s: "run_start void_env some_cfg () ''main'' = Some s"
    using run_start_returns [where k = 0] by (metis funpow_0)
  then have reach: "sync_reach void_env some_cfg () ''main'' s" by (rule sync_started)
  have "truthful void_env Map.empty" by (auto simp: truthful_def fair_order_def void_env_def tip_env_def calm_env_def)
  then have "never_stale Map.empty (ss_state s)" using lossy_start [OF _ s] by (simp add: lossy_inv_def)
  then have "al_get (ms_txs (ss_state s)) t = None" for t
    unfolding never_stale_def by (cases "al_get (ms_txs (ss_state s)) t") auto
  then have empty: "ms_txs (ss_state s) = []" unfolding al_get_def map_of_eq_None_iff by (metis ex_in_conv image_is_empty set_empty)
  have "ss_state s \<in> set (ss_trace s)" using sync_reach_inv [OF reach] by (simp add: sync_inv_def)
  moreover have "router (\<lambda>p. EmptyStatus 404) 0 (ss_state s) (ustr ''/fees'') \<noteq> EmptyStatus 503"
    using start_serves [OF s] empty by (auto simp: router_def fees_answer_def split: fees_response.split)
  ultimately show ?thesis using reach fees_answer_vouched [OF reach] by blast
qed

end
