(* ===== verification/Sim_Chain.thy ===== *)
theory Sim_Chain
  imports Sim_Node
begin

text \<open>
  The abstraction of the simulated node: its mempool is a list of chains (root first), each a path of
  the \<open>children\<close> index whose entries name their predecessor in \<open>depends\<close> and carry truthful ancestor
  and descendant totals.  \<open>mock_repr n cs\<close> says that the node \<open>n\<close> represents the chains \<open>cs\<close>; the
  lemmas give the effect of the loops over a chain and of each update on this representation.
\<close>

type_synonym entry_map = "txid \<rightharpoonup> mempool_entry"

abbreviation base_of :: "mempool_entry \<Rightarrow> u64" where "base_of e \<equiv> ef_base (me_fees e)"

definition tot :: "(mempool_entry \<Rightarrow> u64) \<Rightarrow> entry_map \<Rightarrow> txid list \<Rightarrow> nat" where
  "tot f E ts = (\<Sum>t \<leftarrow> ts. case E t of Some e \<Rightarrow> unat (f e) | None \<Rightarrow> 0)"

lemma tot_simps [simp]:
  "tot f E [] = 0" "tot f E (t # ts) = (case E t of Some e \<Rightarrow> unat (f e) | None \<Rightarrow> 0) + tot f E ts"
  "tot f E (ts @ us) = tot f E ts + tot f E us"
  by (simp_all add: tot_def)

lemma tot_cong: "(\<And>t. t \<in> set ts \<Longrightarrow> map_option f (E t) = map_option f (E' t)) \<Longrightarrow> tot f E ts = tot f E' ts"
  unfolding tot_def by (rule arg_cong [where f = sum_list], rule map_cong [OF refl])
    (fastforce split: option.splits)

lemma tot_le: "(\<And>t e. t \<in> set ts \<Longrightarrow> E t = Some e \<Longrightarrow> unat (f e) \<le> b) \<Longrightarrow> tot f E ts \<le> length ts * b"
  unfolding tot_def by (rule sum_list_bound_nat) (simp split: option.split)

subsection \<open>Chains\<close>

definition chain_ok :: "entry_map \<Rightarrow> (txid \<rightharpoonup> txid) \<Rightarrow> txid list \<Rightarrow> bool" where
  "chain_ok E C xs \<longleftrightarrow> (\<forall>ys t zs. xs = ys @ t # zs \<longrightarrow>
     (\<exists>e. E t = Some e \<and> me_depends e = (if ys = [] then [] else [last ys]) \<and>
        C t = (if zs = [] then None else Some (hd zs)) \<and>
        unat (me_ancestorsize e) = tot me_vsize E (ys @ [t]) \<and>
        unat (ef_ancestor (me_fees e)) = tot base_of E (ys @ [t]) \<and>
        unat (me_descendantsize e) = tot me_vsize E (t # zs) \<and>
        unat (ef_descendant (me_fees e)) = tot base_of E (t # zs)))"

lemma chain_okD:
  assumes "chain_ok E C (ys @ t # zs)"
  obtains e where "E t = Some e" "me_depends e = (if ys = [] then [] else [last ys])"
    "C t = (if zs = [] then None else Some (hd zs))"
    "unat (me_ancestorsize e) = tot me_vsize E (ys @ [t])"
    "unat (ef_ancestor (me_fees e)) = tot base_of E (ys @ [t])"
    "unat (me_descendantsize e) = tot me_vsize E (t # zs)"
    "unat (ef_descendant (me_fees e)) = tot base_of E (t # zs)"
  using assms unfolding chain_ok_def by blast

lemma chain_ok_Nil [simp]: "chain_ok E C []"
  by (simp add: chain_ok_def)

lemma chain_ok_dom: "chain_ok E C xs \<Longrightarrow> t \<in> set xs \<Longrightarrow> E t \<noteq> None"
  by (metis chain_okD option.distinct(1) split_list)

lemma chain_ok_cong:
  assumes "\<And>t. t \<in> set xs \<Longrightarrow> E t = E' t \<and> C t = C' t" "chain_ok E C xs"
  shows "chain_ok E' C' xs"
  unfolding chain_ok_def
proof (intro allI impI)
  fix ys t zs assume xs: "xs = ys @ t # zs"
  have eq: "tot f E us = tot f E' us" if "set us \<subseteq> set xs" for f us
    using assms(1) that by (intro tot_cong) auto
  have "tot f E (ys @ [t]) = tot f E' (ys @ [t])" "tot f E (t # zs) = tot f E' (t # zs)" for f
    using eq [of "ys @ [t]"] eq [of "t # zs"] xs by auto
  moreover have "E t = E' t" "C t = C' t" using assms(1) xs by auto
  ultimately show "\<exists>e. E' t = Some e \<and> me_depends e = (if ys = [] then [] else [last ys]) \<and>
      C' t = (if zs = [] then None else Some (hd zs)) \<and>
      unat (me_ancestorsize e) = tot me_vsize E' (ys @ [t]) \<and>
      unat (ef_ancestor (me_fees e)) = tot base_of E' (ys @ [t]) \<and>
      unat (me_descendantsize e) = tot me_vsize E' (t # zs) \<and>
      unat (ef_descendant (me_fees e)) = tot base_of E' (t # zs)"
    using chain_okD [OF assms(2) [unfolded xs]] by metis
qed

subsection \<open>The loops over a chain\<close>

text \<open>Only the links upwards matter to \<open>ancestors_of\<close>.\<close>

definition up_ok :: "entry_map \<Rightarrow> txid list \<Rightarrow> bool" where
  "up_ok E xs \<longleftrightarrow> (\<forall>ys t zs. xs = ys @ t # zs \<longrightarrow>
     (\<exists>e. E t = Some e \<and> me_depends e = (if ys = [] then [] else [last ys])))"

lemma up_okD:
  assumes "up_ok E (ys @ t # zs)"
  obtains e where "E t = Some e" "me_depends e = (if ys = [] then [] else [last ys])"
  using assms unfolding up_ok_def by blast

lemma chain_ok_up: "chain_ok E C xs \<Longrightarrow> up_ok E xs"
  unfolding chain_ok_def up_ok_def by metis

lemma up_ok_prefix: "up_ok E (xs @ ys) \<Longrightarrow> up_ok E xs"
  unfolding up_ok_def by (metis append.assoc append_Cons)

lemma up_ok_cong: "up_ok E xs \<Longrightarrow> (\<And>t. t \<in> set xs \<Longrightarrow> E t = E' t) \<Longrightarrow> up_ok E' xs"
  unfolding up_ok_def by fastforce

lemma ancestors_of_chain:
  assumes "up_ok (al_get txs) (ys @ t # zs)"
  shows "ancestors_of txs t = Some (rev ys)"
  using assms
proof (induction ys arbitrary: t zs rule: rev_induct)
  case Nil
  then obtain e where "al_get txs t = Some e" "me_depends e = []" using up_okD [OF Nil] by auto
  then show ?case by (subst ancestors_of.simps) simp
next
  case (snoc p ys)
  obtain e where e: "al_get txs t = Some e" "me_depends e = [p]" using up_okD [OF snoc.prems] by auto
  have up: "up_ok (al_get txs) (ys @ p # t # zs)" using snoc.prems by simp
  then have "al_get txs p \<noteq> None" by (metis up_okD option.distinct(1))
  then show ?case using snoc.IH [OF up] by (subst ancestors_of.simps) (simp add: e)
qed

lemma leaf_of_chain:
  assumes "chain_ok E (al_get children) (ys @ t # zs)"
  shows "leaf_of children t = Some (last (t # zs))"
  using assms
proof (induction zs arbitrary: t ys)
  case Nil
  have "al_get children t = None" by (rule chain_okD [OF Nil]) simp
  then show ?case by (subst leaf_of.simps) simp
next
  case (Cons c zs)
  have "al_get children t = Some c" by (rule chain_okD [OF Cons.prems]) simp
  then show ?case using Cons.IH [of "ys @ [t]" c] Cons.prems by (subst leaf_of.simps) simp
qed

subsection \<open>The abstraction\<close>

definition fee_cap :: "churn_config \<Rightarrow> nat" where
  "fee_cap cfg = 100000 * max (unat (fd_min_sat_vb (cc_fee cfg))) (unat (fd_max_sat_vb (cc_fee cfg)))"

text \<open>The rates the configuration allows, in whole sat/vB, whichever of the two bounds is the lower one.\<close>

definition rate_allowed :: "churn_config \<Rightarrow> nat \<Rightarrow> bool" where
  "rate_allowed cfg r \<longleftrightarrow>
     min (unat (fd_min_sat_vb (cc_fee cfg))) (unat (fd_max_sat_vb (cc_fee cfg))) \<le> r \<and>
     r \<le> max (unat (fd_min_sat_vb (cc_fee cfg))) (unat (fd_max_sat_vb (cc_fee cfg)))"

definition entry_ok :: "churn_config \<Rightarrow> mempool_entry \<Rightarrow> bool" where
  "entry_ok cfg e \<longleftrightarrow> 110 \<le> unat (me_vsize e) \<and> unat (me_vsize e) \<le> 100000 \<and>
     (\<exists>r. rate_allowed cfg r \<and> unat (base_of e) = r * unat (me_vsize e)) \<and> me_weight e = Some (me_vsize e * 4)"

lemma allowed_fee: "rate_allowed cfg r \<Longrightarrow> v \<le> 100000 \<Longrightarrow> r * v \<le> fee_cap cfg"
  using mult_le_mono [of r _ v 100000] by (simp add: rate_allowed_def fee_cap_def mult.commute)

lemma entry_okD:
  assumes "entry_ok cfg e"
  shows "unat (me_vsize e) \<le> 100000" "unat (base_of e) \<le> fee_cap cfg" "me_weight e = Some (me_vsize e * 4)"
  using assms allowed_fee by (auto simp: entry_ok_def)

definition chain_cap :: "churn_config \<Rightarrow> nat" where
  "chain_cap cfg = max 1 (cc_max_chain cfg)"

text \<open>The totals of the longest chain fit 64 bits, with room for a block's weight; the skew is positive, as both
  constructors make it.\<close>

definition cfg_ok :: "churn_config \<Rightarrow> bool" where
  "cfg_ok cfg \<longleftrightarrow> 0 < fd_skew (cc_fee cfg) \<and> chain_cap cfg * (400000 + fee_cap cfg) < 2 ^ 63"

definition mock_repr :: "'r mock_node \<Rightarrow> txid list list \<Rightarrow> bool" where
  "mock_repr n cs \<longleftrightarrow> al_ok (mn_txs n) \<and> al_ok (mn_children n) \<and> distinct (concat cs) \<and>
     dom (al_get (mn_txs n)) = set (concat cs) \<and> dom (al_get (mn_children n)) \<subseteq> set (concat cs) \<and>
     (\<forall>xs \<in> set cs. chain_ok (al_get (mn_txs n)) (al_get (mn_children n)) xs \<and>
        length xs \<le> chain_cap (mn_cfg n)) \<and>
     (\<forall>t e. al_get (mn_txs n) t = Some e \<longrightarrow> entry_ok (mn_cfg n) e)"

lemma mock_reprD:
  assumes "mock_repr n cs"
  shows "al_ok (mn_txs n)" "al_ok (mn_children n)" "distinct (concat cs)"
    and "dom (al_get (mn_txs n)) = set (concat cs)" "dom (al_get (mn_children n)) \<subseteq> set (concat cs)"
    and "xs \<in> set cs \<Longrightarrow> chain_ok (al_get (mn_txs n)) (al_get (mn_children n)) xs"
    and "xs \<in> set cs \<Longrightarrow> length xs \<le> chain_cap (mn_cfg n)"
    and "al_get (mn_txs n) t = Some e \<Longrightarrow> entry_ok (mn_cfg n) e"
  using assms unfolding mock_repr_def by blast+

text \<open>The chain of a transaction, split there.\<close>

lemma mock_repr_split:
  assumes "mock_repr n cs" "al_get (mn_txs n) t \<noteq> None"
  obtains cs1 ys zs cs2 where "cs = cs1 @ (ys @ t # zs) # cs2"
proof -
  have "t \<in> set (concat cs)" using assms(2) mock_reprD(4) [OF assms(1)] by blast
  then obtain xs where xs: "xs \<in> set cs" "t \<in> set xs" by auto
  from split_list [OF xs(1)] split_list [OF xs(2)] show ?thesis using that by blast
qed

lemma chain_tot_le:
  assumes n: "mock_repr n cs" and xs: "set us \<subseteq> set (concat cs)" "length us \<le> chain_cap (mn_cfg n)"
  shows "tot me_vsize (al_get (mn_txs n)) us \<le> chain_cap (mn_cfg n) * 100000"
    and "tot base_of (al_get (mn_txs n)) us \<le> chain_cap (mn_cfg n) * fee_cap (mn_cfg n)"
proof -
  have e: "entry_ok (mn_cfg n) e" if "al_get (mn_txs n) t = Some e" for t e using mock_reprD(8) [OF n that] .
  have "tot me_vsize (al_get (mn_txs n)) us \<le> length us * 100000"
    "tot base_of (al_get (mn_txs n)) us \<le> length us * fee_cap (mn_cfg n)"
    using e by (auto intro!: tot_le dest: entry_okD)
  then show "tot me_vsize (al_get (mn_txs n)) us \<le> chain_cap (mn_cfg n) * 100000"
    "tot base_of (al_get (mn_txs n)) us \<le> chain_cap (mn_cfg n) * fee_cap (mn_cfg n)"
    using mult_le_mono1 [OF xs(2)] le_trans by blast+
qed

text \<open>Replacing one chain.\<close>

lemma mock_repr_swap:
  assumes n: "mock_repr n (cs1 @ xs # cs2)" and ok: "al_ok txs" "al_ok children"
    and out: "\<And>u. u \<notin> set xs \<Longrightarrow> u \<notin> set xs' \<Longrightarrow>
      al_get txs u = al_get (mn_txs n) u \<and> al_get children u = al_get (mn_children n) u"
    and gone: "\<And>u. u \<in> set xs \<Longrightarrow> u \<notin> set xs' \<Longrightarrow> al_get txs u = None \<and> al_get children u = None"
    and ch: "chain_ok (al_get txs) (al_get children) xs'" "length xs' \<le> chain_cap (mn_cfg n)" "distinct xs'"
    and new: "\<And>u. u \<in> set xs' \<Longrightarrow> u \<in> set xs \<or> al_get (mn_txs n) u = None"
    and e: "\<And>u e. u \<in> set xs' \<Longrightarrow> al_get txs u = Some e \<Longrightarrow> entry_ok (mn_cfg n) e"
  shows "mock_repr (n\<lparr>mn_txs := txs, mn_children := children\<rparr>) (cs1 @ xs' # cs2)"
proof -
  note d = mock_reprD [OF n]
  have dis: "set xs' \<inter> set (concat (cs1 @ cs2)) = {}"
  proof (rule ccontr)
    assume "set xs' \<inter> set (concat (cs1 @ cs2)) \<noteq> {}"
    then obtain u where u: "u \<in> set xs'" "u \<in> set (concat (cs1 @ cs2))" by blast
    then have "al_get (mn_txs n) u \<noteq> None" using d(4) by fastforce
    then have "u \<in> set xs" using new [OF u(1)] by auto
    with u(2) d(3) show False by auto
  qed
  have other: "al_get txs u = al_get (mn_txs n) u \<and> al_get children u = al_get (mn_children n) u"
    if "u \<in> set (concat (cs1 @ cs2))" for u
    using that dis d(3) by (intro out) auto
  have chains: "chain_ok (al_get txs) (al_get children) ys \<and> length ys \<le> chain_cap (mn_cfg n)"
    if "ys \<in> set cs1 \<union> set cs2" for ys
  proof -
    have ys: "ys \<in> set (cs1 @ xs # cs2)" "set ys \<subseteq> set (concat (cs1 @ cs2))" using that by auto
    have "al_get (mn_txs n) u = al_get txs u \<and> al_get (mn_children n) u = al_get children u" if "u \<in> set ys" for u
      using other [of u] subsetD [OF ys(2) that] by simp
    from chain_ok_cong [OF this d(6) [OF ys(1)]] d(7) [OF ys(1)] show ?thesis by simp
  qed
  have dom: "al_get txs u \<noteq> None \<longleftrightarrow> u \<in> set xs' \<or> u \<in> set (concat (cs1 @ cs2))" for u
  proof (cases "u \<in> set xs' \<or> u \<in> set (concat (cs1 @ cs2))")
    case True
    then show ?thesis using chain_ok_dom [OF ch(1), of u] other [of u] d(4) by fastforce
  next
    case False
    then have "al_get (mn_txs n) u = None" if "u \<notin> set xs" using that d(4) by fastforce
    with False show ?thesis using gone [of u] out [of u] by auto
  qed
  have "al_get children u = None" if "al_get txs u = None" for u
  proof (cases "u \<in> set xs")
    case True
    then show ?thesis using gone [of u] that chain_ok_dom [OF ch(1), of u] by blast
  next
    case False
    have u: "u \<notin> set xs'" "u \<notin> set (concat (cs1 @ cs2))" using that dom [of u] by simp_all
    with False have "u \<notin> set (concat (cs1 @ xs # cs2))" by simp
    then have "al_get (mn_children n) u = None" using d(5) unfolding dom_def by blast
    with out [OF False u(1)] show ?thesis by simp
  qed
  then have "dom (al_get children) \<subseteq> dom (al_get txs)" by (meson domIff subsetI)
  moreover have "dom (al_get txs) = set (concat (cs1 @ xs' # cs2))" using dom unfolding dom_def by auto
  moreover have "distinct (concat (cs1 @ xs' # cs2))" using d(3) dis ch(3) by auto
  moreover have "entry_ok (mn_cfg n) e" if "al_get txs u = Some e" for u e
  proof (cases "u \<in> set xs'")
    case False
    then have "u \<in> set (concat (cs1 @ cs2))" using that dom [of u] by simp
    then show ?thesis using other [of u] that d(8) by metis
  qed (use that e in blast)
  ultimately show ?thesis
    using ok ch(1,2) chains unfolding mock_repr_def by simp
qed

lemma mock_repr_Nil: "mock_repr n (cs1 @ [] # cs2) \<longleftrightarrow> mock_repr n (cs1 @ cs2)"
  by (auto simp: mock_repr_def)

text \<open>The node after a change of chains, its other components as before.\<close>

definition churned :: "'r mock_node \<Rightarrow> 'r mock_node \<Rightarrow> bool" where
  "churned n n' \<longleftrightarrow> mn_cfg n' = mn_cfg n \<and> mn_tip_height n' = mn_tip_height n \<and> mn_min_fee n' = mn_min_fee n \<and>
     mn_reloading n' = mn_reloading n"

lemma churned_refl [simp]: "churned n n"
  by (simp add: churned_def)

lemma churned_trans: "churned n n' \<Longrightarrow> churned n' n'' \<Longrightarrow> churned n n''"
  by (simp add: churned_def)

lemma churned_cfg: "churned n n' \<Longrightarrow> mn_cfg n' = mn_cfg n"
  by (simp add: churned_def)

subsection \<open>Descendant totals\<close>

lemma adjust_one_keeps:
  assumes "adjust_one v b add e = Some e'"
  shows "me_vsize e' = me_vsize e" "base_of e' = base_of e" "me_depends e' = me_depends e" "me_weight e' = me_weight e"
    and "me_ancestorsize e' = me_ancestorsize e" "ef_ancestor (me_fees e') = ef_ancestor (me_fees e)"
  using assms by (auto simp: adjust_one_def split: if_splits)

lemma adjust_one_entry_ok: "adjust_one v b add e = Some e' \<Longrightarrow> entry_ok cfg e' = entry_ok cfg e"
  by (simp add: entry_ok_def adjust_one_keeps)

lemma adjust_all:
  assumes "al_ok txs" "distinct as" "\<And>a. a \<in> set as \<Longrightarrow> \<exists>e e'. al_get txs a = Some e \<and> adjust_one v b add e = Some e'"
  shows "\<exists>txs'. fold_opt (adjust_at v b add) as txs = Some txs' \<and> al_ok txs' \<and>
    (\<forall>a. al_get txs' a = (if a \<in> set as then Option.bind (al_get txs a) (adjust_one v b add) else al_get txs a))"
  using assms
proof (induction as arbitrary: txs)
  case (Cons a as)
  obtain e e' where e: "al_get txs a = Some e" "adjust_one v b add e = Some e'" using Cons.prems(3) [of a] by auto
  let ?txs = "AList.update a e' txs"
  have ok: "al_ok ?txs" using Cons.prems(1) by (rule al.ok_put)
  have "\<exists>e e'. al_get ?txs x = Some e \<and> adjust_one v b add e = Some e'" if "x \<in> set as" for x
    using Cons.prems(2,3) that by (auto simp: al.get_put)
  then obtain txs' where t: "fold_opt (adjust_at v b add) as ?txs = Some txs'" "al_ok txs'"
      "\<forall>a. al_get txs' a = (if a \<in> set as then Option.bind (al_get ?txs a) (adjust_one v b add) else al_get ?txs a)"
    using Cons.IH [OF ok] Cons.prems(2) by (metis distinct.simps(2))
  have "fold_opt (adjust_at v b add) (a # as) txs = Some txs'" using e t(1) by (simp add: adjust_at_def)
  moreover have "al_get txs' x = (if x \<in> set (a # as) then Option.bind (al_get txs x) (adjust_one v b add) else al_get txs x)" for x
    using Cons.prems(2) e t(3) by (auto simp: al.get_put)
  ultimately show ?case using t(2) by blast
qed simp

text \<open>The entries of \<open>A\<close> are changed by \<open>f\<close>, all others are kept.\<close>

definition adjusted :: "(mempool_entry \<Rightarrow> mempool_entry option) \<Rightarrow> txid set \<Rightarrow> entry_map \<Rightarrow> entry_map \<Rightarrow> bool" where
  "adjusted f A E E' \<longleftrightarrow>
     (\<forall>a. if a \<in> A then \<exists>e e'. E a = Some e \<and> f e = Some e' \<and> E' a = Some e' else E' a = E a)"

lemma adjustedD:
  assumes "adjusted f A E E'"
  shows "a \<in> A \<Longrightarrow> \<exists>e e'. E a = Some e \<and> f e = Some e' \<and> E' a = Some e'" and "a \<notin> A \<Longrightarrow> E' a = E a"
  using assms unfolding adjusted_def by metis+

text \<open>The chain up to \<open>p\<close> is adjusted, nothing else.\<close>

lemma adjust_up:
  assumes "al_ok txs" "up_ok (al_get txs) (ys @ [p])" "distinct (ys @ [p])"
    and "\<And>a e. a \<in> set (ys @ [p]) \<Longrightarrow> al_get txs a = Some e \<Longrightarrow> adjust_one v b add e \<noteq> None"
  shows "\<exists>txs'. adjust_descendant_totals p v b add txs = Some txs' \<and> al_ok txs' \<and>
    adjusted (adjust_one v b add) (set (ys @ [p])) (al_get txs) (al_get txs')"
proof -
  have anc: "ancestors_of txs p = Some (rev ys)" using ancestors_of_chain [of txs ys p "[]"] assms(2) by simp
  have set: "set (p # rev ys) = set (ys @ [p])" "distinct (p # rev ys)" using assms(3) by auto
  have here: "\<exists>e e'. al_get txs a = Some e \<and> adjust_one v b add e = Some e'" if a: "a \<in> set (ys @ [p])" for a
  proof -
    obtain us ws where "ys @ [p] = us @ a # ws" using split_list [OF a] by blast
    then obtain e where "al_get txs a = Some e" using assms(2) up_okD by metis
    then show ?thesis using assms(4) [OF a] by auto
  qed
  obtain txs' where t: "fold_opt (adjust_at v b add) (p # rev ys) txs = Some txs'" "al_ok txs'"
      "\<forall>a. al_get txs' a = (if a \<in> set (p # rev ys) then Option.bind (al_get txs a) (adjust_one v b add) else al_get txs a)"
    using adjust_all [OF assms(1) set(2), where v = v and b = b and add = add] here unfolding set(1) by blast
  have "adjust_descendant_totals p v b add txs = Some txs'"
    unfolding adjust_descendant_totals_def anc by (simp add: t(1) del: fold_opt.simps)
  moreover have "adjusted (adjust_one v b add) (set (ys @ [p])) (al_get txs) (al_get txs')"
    unfolding adjusted_def using here t(3) set(1) by (metis bind.bind_lunit)
  ultimately show ?thesis using t(2) by blast
qed

subsection \<open>Removing a leaf\<close>

lemma tot_adjusted:
  assumes "\<And>a. a \<in> set us \<Longrightarrow> \<exists>e e'. E a = Some e \<and> adjust_one v b add e = Some e' \<and> E' a = Some e'"
    and "f = me_vsize \<or> f = base_of"
  shows "tot f E' us = tot f E us"
proof (rule tot_cong)
  fix t assume "t \<in> set us"
  then show "map_option f (E' t) = map_option f (E t)" using assms adjust_one_keeps(1,2) by fastforce
qed

lemma chain_unlink:
  assumes ch: "chain_ok E C ((zs @ [p]) @ [t])" and dis: "distinct ((zs @ [p]) @ [t])" and e: "E t = Some e"
    and adj: "adjusted (adjust_one (me_vsize e) (base_of e) False) (set (zs @ [p])) (E(t := None)) E'"
    and C': "\<And>a. C' a = (if a = p then None else C a)"
  shows "chain_ok E' C' (zs @ [p])"
  unfolding chain_ok_def
proof (intro allI impI)
  have here: "\<exists>e0 e1. E a = Some e0 \<and> adjust_one (me_vsize e) (base_of e) False e0 = Some e1 \<and> E' a = Some e1"
    if "a \<in> set (zs @ [p])" for a
    using adjustedD(1) [OF adj that] by (auto split: if_splits)
  fix us u ws assume split: "zs @ [p] = us @ u # ws"
  have tot: "tot f E' (us @ [u]) = tot f E (us @ [u])" "tot f E' (u # ws) = tot f E (u # ws)"
    if "f = me_vsize \<or> f = base_of" for f
    using here that split by (intro tot_adjusted; fastforce)+
  obtain e0 where e0: "E u = Some e0" "me_depends e0 = (if us = [] then [] else [last us])"
      "C u = Some (hd (ws @ [t]))" "unat (me_ancestorsize e0) = tot me_vsize E (us @ [u])"
      "unat (ef_ancestor (me_fees e0)) = tot base_of E (us @ [u])"
      "unat (me_descendantsize e0) = tot me_vsize E (u # ws @ [t])"
      "unat (ef_descendant (me_fees e0)) = tot base_of E (u # ws @ [t])"
    using chain_okD [of E C us u "ws @ [t]"] ch split by auto
  obtain e1 where e1: "adjust_one (me_vsize e) (base_of e) False e0 = Some e1" "E' u = Some e1"
    using here [of u] e0(1) split by (metis in_set_conv_decomp option.inject)
  have "C' u = (if ws = [] then None else Some (hd ws))"
  proof (cases ws rule: rev_cases)
    case Nil
    then show ?thesis using split by (simp add: C')
  next
    case (snoc ws' x)
    then have "u \<noteq> p" using split dis by auto
    then show ?thesis using snoc e0(3) by (simp add: C' hd_append)
  qed
  moreover have "unat (me_descendantsize e1) = tot me_vsize E (u # ws)"
      "unat (ef_descendant (me_fees e1)) = tot base_of E (u # ws)"
    using e1(1) e0(6,7) e by (auto simp: adjust_one_def unat_u64_sat_sub)
  ultimately show "\<exists>e. E' u = Some e \<and> me_depends e = (if us = [] then [] else [last us]) \<and>
      C' u = (if ws = [] then None else Some (hd ws)) \<and>
      unat (me_ancestorsize e) = tot me_vsize E' (us @ [u]) \<and>
      unat (ef_ancestor (me_fees e)) = tot base_of E' (us @ [u]) \<and>
      unat (me_descendantsize e) = tot me_vsize E' (u # ws) \<and>
      unat (ef_descendant (me_fees e)) = tot base_of E' (u # ws)"
    using e0 e1 adjust_one_keeps [OF e1(1)] tot [of me_vsize] tot [of base_of] by simp
qed

lemma remove_leaf_repr:
  assumes n: "mock_repr n (cs1 @ (ys @ [t]) # cs2)"
  shows "\<exists>n'. remove_leaf t n = Some n' \<and> mock_repr n' (cs1 @ ys # cs2) \<and> churned n n'"
proof -
  note d = mock_reprD [OF n]
  let ?E = "al_get (mn_txs n)" and ?C = "al_get (mn_children n)"
  have ch: "chain_ok ?E ?C (ys @ [t])" and len: "length (ys @ [t]) \<le> chain_cap (mn_cfg n)"
    using d(6,7) [of "ys @ [t]"] by simp_all
  have dis: "distinct (ys @ [t])" using d(3) by simp
  obtain e where e: "?E t = Some e" "me_depends e = (if ys = [] then [] else [last ys])" "?C t = None"
    using chain_okD [OF ch] by auto
  let ?txs = "AList.delete t (mn_txs n)"
  have ok1: "al_ok ?txs" using d(1) by (rule al.ok_del)
  have get1: "al_get ?txs a = (if a = t then None else ?E a)" for a using d(1) by (rule al.get_del)
  show ?thesis
  proof (cases ys rule: rev_cases)
    case Nil
    have "mock_repr (n\<lparr>mn_txs := ?txs, mn_children := mn_children n\<rparr>) (cs1 @ [] # cs2)"
      using Nil e(3) by (intro mock_repr_swap [OF n ok1 d(2)]) (auto simp: get1)
    moreover have "remove_leaf t n = Some (n\<lparr>mn_txs := ?txs, mn_children := mn_children n\<rparr>)"
      using e Nil by (simp add: remove_leaf_def)
    ultimately show ?thesis using Nil by (simp add: churned_def)
  next
    case (snoc zs p)
    let ?children = "AList.delete p (mn_children n)"
    have getc: "al_get ?children a = (if a = p then None else ?C a)" for a using d(2) by (rule al.get_del)
    have up: "up_ok (al_get ?txs) (zs @ [p])"
      using up_ok_prefix [OF chain_ok_up [OF ch]] unfolding snoc by (rule up_ok_cong) (use dis in \<open>auto simp: get1 snoc\<close>)
    have del: "al_get ?txs = ?E(t := None)" by (rule ext) (simp add: get1)
    obtain txs' where txs': "adjust_descendant_totals p (me_vsize e) (base_of e) False ?txs = Some txs'" "al_ok txs'"
        and adj: "adjusted (adjust_one (me_vsize e) (base_of e) False) (set (zs @ [p])) (?E(t := None)) (al_get txs')"
      using adjust_up [OF ok1 up, where v = "me_vsize e" and b = "base_of e" and add = False] dis
      unfolding snoc del by (auto simp: adjust_one_def)
    have chain: "chain_ok (al_get txs') (al_get ?children) (zs @ [p])"
      by (rule chain_unlink [OF ch [unfolded snoc] dis [unfolded snoc] e(1) adj getc])
    have "mock_repr (n\<lparr>mn_txs := txs', mn_children := ?children\<rparr>) (cs1 @ (zs @ [p]) # cs2)"
    proof (rule mock_repr_swap [OF n txs'(2) al.ok_del [OF d(2)] _ _ chain])
      show "length (zs @ [p]) \<le> chain_cap (mn_cfg n)" using len snoc by simp
      show "distinct (zs @ [p])" using dis snoc by simp
      show "al_get txs' u = ?E u \<and> al_get ?children u = ?C u" if "u \<notin> set (ys @ [t])" "u \<notin> set (zs @ [p])" for u
        using that adjustedD(2) [OF adj that(2)] by (simp add: getc snoc)
      show "al_get txs' u = None \<and> al_get ?children u = None" if "u \<in> set (ys @ [t])" "u \<notin> set (zs @ [p])" for u
        using that adjustedD(2) [OF adj that(2)] e(3) by (auto simp: getc snoc)
      show "entry_ok (mn_cfg n) e'" if "u \<in> set (zs @ [p])" "al_get txs' u = Some e'" for u e'
        using adjustedD(1) [OF adj that(1)] that(2) d(8) by (auto simp: adjust_one_entry_ok split: if_splits)
    qed (auto simp: snoc)
    moreover have "remove_leaf t n = Some (n\<lparr>mn_txs := txs', mn_children := ?children\<rparr>)"
      using e txs'(1) snoc by (simp add: remove_leaf_def)
    ultimately show ?thesis using snoc by (simp add: churned_def)
  qed
qed

subsection \<open>Attaching a child\<close>

lemma unat_add_u64: "unat a + unat b < 2 ^ 64 \<Longrightarrow> unat (a + b :: u64) = unat a + unat b"
  by (simp add: unat_word_ariths)

lemma amount_add_Some: "amount_add a b = Some c \<Longrightarrow> unat c = unat a + unat b"
  by (auto simp: amount_add_def unat_add_u64 split: if_splits)

lemma chain_link:
  assumes ch: "chain_ok E C (ys @ [p])" and dis: "distinct ((ys @ [p]) @ [t])" and e: "E' t = Some e" "me_depends e = [p]"
    and anc: "unat (me_ancestorsize e) = tot me_vsize E (ys @ [p]) + unat (me_vsize e)"
      "unat (ef_ancestor (me_fees e)) = tot base_of E (ys @ [p]) + unat (base_of e)"
    and desc: "me_descendantsize e = me_vsize e" "ef_descendant (me_fees e) = base_of e"
    and adj: "adjusted (adjust_one (me_vsize e) (base_of e) True) (set (ys @ [p])) (E(t \<mapsto> e)) E'"
    and C': "\<And>a. C' a = (if a = p then Some t else if a = t then None else C a)"
    and fits: "tot me_vsize E (ys @ [p]) + unat (me_vsize e) < 2 ^ 64"
  shows "chain_ok E' C' ((ys @ [p]) @ [t])"
  unfolding chain_ok_def
proof (intro allI impI)
  have here: "\<exists>e0 e1. E a = Some e0 \<and> adjust_one (me_vsize e) (base_of e) True e0 = Some e1 \<and> E' a = Some e1"
    if "a \<in> set (ys @ [p])" for a
    using adjustedD(1) [OF adj that] that dis by (auto split: if_splits)
  fix us u ws assume split: "(ys @ [p]) @ [t] = us @ u # ws"
  have tot: "tot f E' as = tot f E as" if "set as \<subseteq> set (ys @ [p])" "f = me_vsize \<or> f = base_of" for f as
    by (rule tot_adjusted [OF here that(2)]) (use that(1) in blast)
  note tot' = tot [OF _ disjI1 [OF refl]] tot [OF _ disjI2 [OF refl]]
  show "\<exists>e. E' u = Some e \<and> me_depends e = (if us = [] then [] else [last us]) \<and>
      C' u = (if ws = [] then None else Some (hd ws)) \<and>
      unat (me_ancestorsize e) = tot me_vsize E' (us @ [u]) \<and>
      unat (ef_ancestor (me_fees e)) = tot base_of E' (us @ [u]) \<and>
      unat (me_descendantsize e) = tot me_vsize E' (u # ws) \<and>
      unat (ef_descendant (me_fees e)) = tot base_of E' (u # ws)"
  proof (cases ws rule: rev_cases)
    case Nil
    then have u: "us = ys @ [p]" "u = t" using split by simp_all
    have "C' t = None" using dis by (auto simp: C')
    moreover have "tot me_vsize E' (ys @ [p]) = tot me_vsize E (ys @ [p])" "tot base_of E' (ys @ [p]) = tot base_of E (ys @ [p])"
      by (rule tot'; simp)+
    ultimately show ?thesis using e anc desc Nil by (simp add: u del: tot_simps(3)) (simp only: tot_simps, simp add: e)
  next
    case (snoc ws' x)
    then have x: "x = t" "ys @ [p] = us @ u # ws'" using split by auto
    obtain e0 where e0: "E u = Some e0" "me_depends e0 = (if us = [] then [] else [last us])"
        "C u = (if ws' = [] then None else Some (hd ws'))" "unat (me_ancestorsize e0) = tot me_vsize E (us @ [u])"
        "unat (ef_ancestor (me_fees e0)) = tot base_of E (us @ [u])"
        "unat (me_descendantsize e0) = tot me_vsize E (u # ws')" "unat (ef_descendant (me_fees e0)) = tot base_of E (u # ws')"
      by (rule chain_okD [OF ch [unfolded x(2)]])
    have "u \<in> set (ys @ [p])" "set us \<subseteq> set (ys @ [p])" "set ws' \<subseteq> set (ys @ [p])" using x(2) by auto
    then obtain e1 where e1: "adjust_one (me_vsize e) (base_of e) True e0 = Some e1" "E' u = Some e1"
      and sub: "set us \<subseteq> set (ys @ [p])" "set ws' \<subseteq> set (ys @ [p])" using here [of u] e0(1) by auto
    have "C' u = Some (hd ws)"
    proof (cases ws' rule: rev_cases)
      case Nil
      then show ?thesis using x snoc by (simp add: C')
    next
      case (snoc zs z)
      then have "u \<noteq> p" "u \<noteq> t" using x(2) dis by auto
      then show ?thesis using snoc x e0(3) \<open>ws = ws' @ [x]\<close> by (simp add: C' hd_append)
    qed
    moreover have "tot me_vsize E (u # ws') \<le> tot me_vsize E (ys @ [p])" unfolding x(2) by simp
    then have "unat (me_descendantsize e1) = tot me_vsize E (u # ws') + unat (me_vsize e)"
      using e1(1) e0(6) fits unat_add_u64 [of "me_descendantsize e0" "me_vsize e"] by (auto simp: adjust_one_def)
    moreover have "unat (ef_descendant (me_fees e1)) = tot base_of E (u # ws') + unat (base_of e)"
      using e1(1) e0(7) amount_add_Some by (auto simp: adjust_one_def)
    ultimately show ?thesis
      using e0 e1 adjust_one_keeps [OF e1(1)] tot' [OF sub(1)] tot' [OF sub(2)] e(1) by (simp add: snoc x)
  qed
qed

end
