(* ===== verification/Sim_Churn.thy ===== *)
theory Sim_Churn
  imports Sim_Chain
begin

text \<open>
  Churn on the simulated node keeps the representation by chains (theory Sim\_Chain): an arrival adds a
  chain of one transaction or extends a chain at its leaf, an eviction removes a leaf.  What is assumed
  of the random numbers is \<open>rand_ok\<close>, the documented ranges (a power of a number below 1 is taken to be at
  most 2, since the precision of \<open>powf\<close> is not specified), and \<open>fresh_arrival\<close>: the 256-bit id that
  is drawn is not one already in the mempool.
\<close>

definition rand_ok :: "'r rand \<Rightarrow> bool" where
  "rand_ok rand \<longleftrightarrow>
     (\<forall>lo hi r. lo \<le> hi \<longrightarrow> lo \<le> fst (rand_range rand lo hi r) \<and> fst (rand_range rand lo hi r) \<le> hi) \<and>
     (\<forall>k r. 0 < k \<longrightarrow> fst (rand_index rand k r) < k) \<and>
     (\<forall>r. 0 \<le> fst (rand_unit rand r) \<and> fst (rand_unit rand r) < 1) \<and>
     (\<forall>x y. 0 \<le> x \<longrightarrow> x < 1 \<longrightarrow> 0 < y \<longrightarrow> 0 \<le> rand_powf rand x y \<and> rand_powf rand x y \<le> 2) \<and>
     (\<forall>ks. mset (hash_order rand ks) = mset ks)"

lemma rand_okD:
  assumes "rand_ok rand"
  shows "lo \<le> hi \<Longrightarrow> fst (rand_range rand lo hi r) \<le> hi" and "0 < k \<Longrightarrow> fst (rand_index rand k r) < k"
    and "mset (hash_order rand ks) = mset ks" and "lo \<le> hi \<Longrightarrow> lo \<le> fst (rand_range rand lo hi r)"
    and "0 \<le> fst (rand_unit rand r)" and "fst (rand_unit rand r) < 1"
    and "0 \<le> x \<Longrightarrow> x < 1 \<Longrightarrow> 0 < y \<Longrightarrow> 0 \<le> rand_powf rand x y"
    and "0 \<le> x \<Longrightarrow> x < 1 \<Longrightarrow> 0 < y \<Longrightarrow> rand_powf rand x y \<le> 2"
  using assms unfolding rand_ok_def by blast+

lemma set_mock_keys: "rand_ok rand \<Longrightarrow> set (mock_keys rand n) = dom (al_get (mn_txs n))"
  using mset_eq_setD [OF rand_okD(3), of rand "al_keys (mn_txs n)"] al.set_keys [of "mn_txs n"]
  by (auto simp: mock_keys_def dom_def)

lemma mock_keys_distinct: "rand_ok rand \<Longrightarrow> al_ok (mn_txs n) \<Longrightarrow> distinct (mock_keys rand n)"
  using mset_eq_imp_distinct_iff [OF rand_okD(3), of rand "al_keys (mn_txs n)"] al.distinct_keys [of "mn_txs n"]
  by (simp add: mock_keys_def)

lemma mock_repr_length: "mock_repr n cs \<Longrightarrow> length (mn_txs n) = length (concat cs)"
  using al.length_keys [of "mn_txs n"] distinct_card [of "concat cs"]
  by (simp add: mock_repr_def dom_def al_keys_def)

lemma mock_repr_cong:
  assumes "mn_txs n' = mn_txs n" "mn_children n' = mn_children n" "mn_cfg n' = mn_cfg n"
  shows "mock_repr n' cs = mock_repr n cs"
  using assms by (simp add: mock_repr_def)

subsection \<open>New entries\<close>

text \<open>The bounds of a configuration that fits.\<close>

lemma cfg_ok_rates:
  assumes "cfg_ok cfg"
  shows "fee_cap cfg < 2 ^ 63" "unat (fd_min_sat_vb (cc_fee cfg)) < 2 ^ 47" "unat (fd_max_sat_vb (cc_fee cfg)) < 2 ^ 47"
proof -
  have "1 * (400000 + fee_cap cfg) \<le> chain_cap cfg * (400000 + fee_cap cfg)" by (rule mult_le_mono1) (simp add: chain_cap_def)
  also have "\<dots> < 2 ^ 63" using assms by (simp add: cfg_ok_def)
  finally show cap: "fee_cap cfg < 2 ^ 63" by simp
  then show "unat (fd_min_sat_vb (cc_fee cfg)) < 2 ^ 47" "unat (fd_max_sat_vb (cc_fee cfg)) < 2 ^ 47"
    by (simp_all add: fee_cap_def max_def split: if_splits)
qed

lemma gen_standalone:
  assumes rand: "rand_ok rand" and cfg: "cfg_ok cfg" and fee: "rate_allowed cfg (unat sat_vb)"
  obtains v b r where "gen_standalone_entry rand sat_vb n =
      ((fst (rand_txid rand (mn_rng n)), \<lparr>me_vsize = v, me_weight = Some (v * 4), me_depends = [],
         me_fees = \<lparr>ef_base = b, ef_ancestor = b, ef_descendant = b\<rparr>, me_ancestorsize = v, me_descendantsize = v,
         me_time = Some 1700000000\<rparr>), n\<lparr>mn_rng := r\<rparr>)"
    "110 \<le> unat v" "unat v \<le> 100000" "unat b = unat sat_vb * unat v"
proof -
  let ?d = "rand_txid rand (mn_rng n)"
  let ?v = "fst (rand_range rand 110 100000 (snd ?d))"
  have v: "110 \<le> unat ?v" "unat ?v \<le> 100000"
    using rand_okD(1) [OF rand, of 110 100000 "snd ?d"] rand_okD(4) [OF rand, of 110 100000 "snd ?d"]
    by (simp_all add: word_le_nat_alt)
  have "unat sat_vb * unat ?v < 2 ^ 63" using allowed_fee [OF fee v(2)] cfg_ok_rates(1) [OF cfg] by simp
  then have "unat (u64_sat_mul sat_vb ?v) = unat sat_vb * unat ?v" by (simp add: unat_u64_sat_mul)
  with v show ?thesis by (rule_tac that) (simp_all add: gen_standalone_entry_def Let_def split_def)
qed

subsection \<open>Arrivals\<close>

text \<open>The product of the span and the power, rounded to an integer, does not carry the rate past 64 bits.\<close>

lemma sampled_offset:
  assumes "0 \<le> p" "p \<le> 2" "unat d < 2 ^ 47"
  shows "unat (f64_as_u64 (f64_round_int (f64_mul (u64_as_f64 d) p))) \<le> 2 ^ 48"
proof -
  have "uint d < 2 ^ 47" using assms(3) by (metis nat_less_numeral_power_cancel_iff unat_eq_nat_uint)
  then have "u64_as_f64 d = of_int (uint d)" by (intro u64_as_f64_exact) simp
  moreover have "of_int (uint d) \<le> (of_int (2 ^ 47) :: rat)"
    using \<open>uint d < 2 ^ 47\<close> unfolding of_int_le_iff by simp
  ultimately have d: "0 \<le> u64_as_f64 d" "u64_as_f64 d \<le> 2 ^ 47" by (simp_all del: of_int_uint)
  then have span: "0 \<le> u64_as_f64 d * p" "u64_as_f64 d * p \<le> 2 powi 48"
    using assms(1,2) mult_mono [OF d(2) assms(2)] by (simp_all add: power_int_def)
  define y where "y = f64_mul (u64_as_f64 d) p"
  have y: "0 \<le> y" "y \<le> 2 ^ 48"
    using span f64_round_nonneg [OF span(1)] f64_round_mono [OF span] f64_round_exact [of 1 48]
    by (simp_all add: y_def f64_mul_def power_int_def)
  then have "\<lfloor>y + 1 / 2\<rfloor> \<le> 2 ^ 48" by (simp add: floor_le_iff)
  then have "f64_round_int y \<le> 2 ^ 48" using y(1) of_int_le_iff [of "\<lfloor>y + 1 / 2\<rfloor>" "2 ^ 48", where 'a = rat]
    by (simp add: f64_round_int_def sgn_if)
  then have "\<lfloor>f64_round_int y\<rfloor> \<le> 2 ^ 48" by (simp add: floor_le_iff)
  then have "f64_as_nat (2 ^ 64 - 1) (f64_round_int y) \<le> 2 ^ 48" by (simp add: f64_as_nat_def nat_le_iff)
  then show ?thesis unfolding y_def [symmetric] f64_as_u64_def by (simp add: unsigned_of_nat take_bit_nat_eq_self)
qed

lemma sample_fee_rate_spec:
  assumes rand: "rand_ok rand" and cfg: "cfg_ok (mn_cfg n)"
  obtains sat_vb r where "sample_fee_rate rand n = (sat_vb, n\<lparr>mn_rng := r\<rparr>)" "rate_allowed (mn_cfg n) (unat sat_vb)"
proof (cases "fd_max_sat_vb (cc_fee (mn_cfg n)) \<le> fd_min_sat_vb (cc_fee (mn_cfg n))")
  case True
  then have "sample_fee_rate rand n = (fd_min_sat_vb (cc_fee (mn_cfg n)), n\<lparr>mn_rng := mn_rng n\<rparr>)"
    by (simp add: sample_fee_rate_def)
  then show ?thesis by (rule that) (simp add: rate_allowed_def)
next
  case False
  let ?lo = "fd_min_sat_vb (cc_fee (mn_cfg n))" and ?hi = "fd_max_sat_vb (cc_fee (mn_cfg n))"
  let ?u = "fst (rand_unit rand (mn_rng n))"
  let ?x = "f64_as_u64 (f64_round_int (f64_mul (u64_as_f64 (?hi - ?lo)) (rand_powf rand ?u (fd_skew (cc_fee (mn_cfg n))))))"
  have lt: "?lo < ?hi" using False by simp
  have skew: "0 < fd_skew (cc_fee (mn_cfg n))" using cfg by (simp add: cfg_ok_def)
  have "unat (?hi - ?lo) \<le> unat ?hi" using lt by (simp add: unat_sub)
  then have "unat (?hi - ?lo) < 2 ^ 47" using cfg_ok_rates(3) [OF cfg] by simp
  then have x: "unat ?x \<le> 2 ^ 48"
    by (intro sampled_offset rand_okD(5,6,7,8) [OF rand] skew)
  then have "unat (?lo + ?x) = unat ?lo + unat ?x"
    using cfg_ok_rates(2) [OF cfg] by (intro unat_add_u64) simp
  then have "rate_allowed (mn_cfg n) (unat (min (?lo + ?x) ?hi))"
    using lt by (auto simp: rate_allowed_def min_def max_def word_le_nat_alt word_less_nat_alt)
  moreover have "sample_fee_rate rand n = (min (?lo + ?x) ?hi, n\<lparr>mn_rng := snd (rand_unit rand (mn_rng n))\<rparr>)"
    using False by (simp add: sample_fee_rate_def Let_def split_def)
  ultimately show ?thesis using that by blast
qed

lemma insert_standalone_repr:
  assumes n: "mock_repr n cs" and cfg: "cfg_ok (mn_cfg n)" and rand: "rand_ok rand"
    and fresh: "al_get (mn_txs n) (fst (rand_txid rand (mn_rng (snd (sample_fee_rate rand n))))) = None"
  shows "\<exists>t. mock_repr (insert_standalone rand n) (cs @ [[t]]) \<and> churned n (insert_standalone rand n)"
proof -
  obtain sat_vb r1 where s: "sample_fee_rate rand n = (sat_vb, n\<lparr>mn_rng := r1\<rparr>)" "rate_allowed (mn_cfg n) (unat sat_vb)"
    by (rule sample_fee_rate_spec [OF rand cfg])
  obtain v b r where g: "gen_standalone_entry rand sat_vb (n\<lparr>mn_rng := r1\<rparr>) =
      ((fst (rand_txid rand r1), \<lparr>me_vsize = v, me_weight = Some (v * 4), me_depends = [],
         me_fees = \<lparr>ef_base = b, ef_ancestor = b, ef_descendant = b\<rparr>, me_ancestorsize = v, me_descendantsize = v,
         me_time = Some 1700000000\<rparr>), n\<lparr>mn_rng := r\<rparr>)" "110 \<le> unat v" "unat v \<le> 100000" "unat b = unat sat_vb * unat v"
    using gen_standalone [OF rand cfg s(2), of "n\<lparr>mn_rng := r1\<rparr>"] by auto
  let ?t = "fst (rand_txid rand r1)"
  let ?e = "\<lparr>me_vsize = v, me_weight = Some (v * 4), me_depends = [],
         me_fees = \<lparr>ef_base = b, ef_ancestor = b, ef_descendant = b\<rparr>, me_ancestorsize = v, me_descendantsize = v,
         me_time = Some 1700000000\<rparr>"
  note d = mock_reprD [OF n]
  have new: "al_get (mn_txs n) ?t = None" using fresh by (simp add: s(1))
  then have nochild: "al_get (mn_children n) ?t = None" using d(4,5) by (metis domIff subsetD)
  have "mock_repr (n\<lparr>mn_txs := AList.update ?t ?e (mn_txs n), mn_children := mn_children n\<rparr>) (cs @ [?t] # [])"
  proof (rule mock_repr_swap [where xs = "[]"])
    show "mock_repr n (cs @ [] # [])" using n mock_repr_Nil [of n cs "[]"] by simp
    show "chain_ok (al_get (AList.update ?t ?e (mn_txs n))) (al_get (mn_children n)) [?t]"
      using nochild by (auto simp: chain_ok_def al.get_put Cons_eq_append_conv)
  qed (use d(1,2) new g(2-4) s(2) in \<open>auto simp: al.ok_put al.get_put chain_cap_def entry_ok_def\<close>)
  moreover have "insert_standalone rand n = n\<lparr>mn_txs := AList.update ?t ?e (mn_txs n), mn_rng := r\<rparr>"
    by (simp add: insert_standalone_def s(1) g(1))
  ultimately show ?thesis by (auto simp: churned_def mock_repr_def)
qed

lemma cfg_ok_fits:
  assumes "cfg_ok cfg" "a \<le> chain_cap cfg * 100000" "b \<le> chain_cap cfg * fee_cap cfg" "v \<le> 100000" "f \<le> fee_cap cfg"
  shows "a + v < 2 ^ 64" "b + f < 2 ^ 64"
proof -
  have one: "1 \<le> chain_cap cfg" by (simp add: chain_cap_def)
  then have v: "v \<le> chain_cap cfg * 400000" using assms(4) mult_le_mono [OF one, of v 400000] by simp
  have "1 * fee_cap cfg \<le> chain_cap cfg * fee_cap cfg" by (rule mult_le_mono1 [OF one])
  with assms(5) have f: "f \<le> chain_cap cfg * fee_cap cfg" by linarith
  have c: "chain_cap cfg * 400000 + chain_cap cfg * fee_cap cfg < 2 ^ 63"
    using assms(1) by (simp add: cfg_ok_def distrib_left)
  then show "a + v < 2 ^ 64" "b + f < 2 ^ 64" using assms(2,3) v f by simp_all
qed

lemma mock_repr_absent:
  assumes "mock_repr n cs" "al_get (mn_txs n) t = None"
  shows "t \<notin> set (concat cs)" "al_get (mn_children n) t = None"
  using mock_reprD(4,5) [OF assms(1)] assms(2) by (metis domIff, metis domIff subsetD)

lemma adjust_up_add:
  assumes ok: "al_ok txs" and ch: "chain_ok E C (ys @ [p])" and dis: "distinct (ys @ [p])"
    and same: "\<And>a. a \<in> set (ys @ [p]) \<Longrightarrow> al_get txs a = E a"
    and fits: "\<And>us. set us \<subseteq> set (ys @ [p]) \<Longrightarrow> length us \<le> length (ys @ [p]) \<Longrightarrow> tot base_of E us + unat b < 2 ^ 64"
  shows "\<exists>txs'. adjust_descendant_totals p v b True txs = Some txs' \<and> al_ok txs' \<and>
    adjusted (adjust_one v b True) (set (ys @ [p])) (al_get txs) (al_get txs')"
proof (rule adjust_up [OF ok _ dis])
  show "up_ok (al_get txs) (ys @ [p])" using chain_ok_up [OF ch] by (rule up_ok_cong) (simp add: same)
  fix a e assume a: "a \<in> set (ys @ [p])" "al_get txs a = Some e"
  obtain us ws where split: "ys @ [p] = us @ a # ws" using split_list [OF a(1)] by blast
  then have "unat (ef_descendant (me_fees e)) = tot base_of E (a # ws)"
    using a same [OF a(1)] chain_okD [OF ch [unfolded split]] by (metis option.inject)
  moreover have "set (a # ws) \<subseteq> set (ys @ [p])" "length (a # ws) \<le> length (ys @ [p])" unfolding split by auto
  ultimately show "adjust_one v b True e \<noteq> None" using fits [of "a # ws"] by (simp add: adjust_one_def amount_add_def)
qed

lemma attach_child_repr:
  assumes n: "mock_repr n (cs1 @ (ys @ [p]) # cs2)" and cfg: "cfg_ok (mn_cfg n)" and rand: "rand_ok rand"
    and len: "length ys + 1 < cc_max_chain (mn_cfg n)"
    and fresh: "al_get (mn_txs n) (fst (rand_txid rand (mn_rng n))) = None"
  shows "\<exists>n' t. attach_child rand p n = Some n' \<and> mock_repr n' (cs1 @ ((ys @ [p]) @ [t]) # cs2) \<and> churned n n'"
proof -
  note d = mock_reprD [OF n]
  let ?E = "al_get (mn_txs n)" and ?C = "al_get (mn_children n)" and ?t = "fst (rand_txid rand (mn_rng n))"
  have ch: "chain_ok ?E ?C (ys @ [p])" using d(6) by simp
  have dis: "distinct (ys @ [p])" using d(3) by simp
  have new: "?t \<notin> set (ys @ [p])" "?C ?t = None" using mock_repr_absent [OF n fresh] by simp_all
  have allowed: "rate_allowed (mn_cfg n) (unat (fd_max_sat_vb (cc_fee (mn_cfg n))))" by (simp add: rate_allowed_def)
  then obtain v b r where g: "gen_standalone_entry rand (fd_max_sat_vb (cc_fee (mn_cfg n))) n =
      ((?t, \<lparr>me_vsize = v, me_weight = Some (v * 4), me_depends = [],
         me_fees = \<lparr>ef_base = b, ef_ancestor = b, ef_descendant = b\<rparr>, me_ancestorsize = v, me_descendantsize = v,
         me_time = Some 1700000000\<rparr>), n\<lparr>mn_rng := r\<rparr>)" "110 \<le> unat v" "unat v \<le> 100000"
      "unat b = unat (fd_max_sat_vb (cc_fee (mn_cfg n))) * unat v"
    by (rule gen_standalone [OF rand cfg])
  have fee: "unat b \<le> fee_cap (mn_cfg n)" using allowed_fee [OF allowed g(3)] g(4) by simp
  have fits: "tot me_vsize ?E us + unat v < 2 ^ 64" "tot base_of ?E us + unat b < 2 ^ 64"
    if "set us \<subseteq> set (ys @ [p])" "length us \<le> length (ys @ [p])" for us
  proof -
    have "set us \<subseteq> set (concat (cs1 @ (ys @ [p]) # cs2))" "length us \<le> chain_cap (mn_cfg n)"
      using that d(7) [of "ys @ [p]"] by auto
    from cfg_ok_fits [OF cfg chain_tot_le [OF n this] g(3) fee]
    show "tot me_vsize ?E us + unat v < 2 ^ 64" "tot base_of ?E us + unat b < 2 ^ 64" .
  qed
  obtain e where e: "?E p = Some e" "unat (me_ancestorsize e) = tot me_vsize ?E (ys @ [p])"
      "unat (ef_ancestor (me_fees e)) = tot base_of ?E (ys @ [p])"
    using chain_okD [OF ch] by metis
  define anc where "anc = b + ef_ancestor (me_fees e)"
  have anc: "amount_add b (ef_ancestor (me_fees e)) = Some anc" "unat anc = tot base_of ?E (ys @ [p]) + unat b"
    "unat (v + me_ancestorsize e) = tot me_vsize ?E (ys @ [p]) + unat v"
    using fits [of "ys @ [p]"] e unat_add_u64 [of b "ef_ancestor (me_fees e)"] unat_add_u64 [of v "me_ancestorsize e"]
    by (simp_all add: amount_add_def anc_def add.commute del: tot_simps)
  define child where "child = \<lparr>me_vsize = v, me_weight = Some (v * 4), me_depends = [p],
         me_fees = \<lparr>ef_base = b, ef_ancestor = anc, ef_descendant = b\<rparr>, me_ancestorsize = v + me_ancestorsize e,
         me_descendantsize = v, me_time = Some 1700000000\<rparr>"
  let ?txs = "AList.update ?t child (mn_txs n)" and ?children = "AList.update p ?t (mn_children n)"
  have same: "al_get ?txs a = ?E a" if "a \<in> set (ys @ [p])" for a using that new(1) by (auto simp: al.get_put)
  obtain txs' where txs': "adjust_descendant_totals p v b True ?txs = Some txs'" "al_ok txs'"
      and adj': "adjusted (adjust_one v b True) (set (ys @ [p])) (al_get ?txs) (al_get txs')"
    using adjust_up_add [OF al.ok_put [OF d(1)] ch dis same fits(2)] by blast
  have "al_get ?txs = ?E(?t \<mapsto> child)" by (rule ext) (simp add: al.get_put)
  with adj' have adj: "adjusted (adjust_one (me_vsize child) (base_of child) True) (set (ys @ [p])) (?E(?t \<mapsto> child)) (al_get txs')"
    by (simp add: child_def)
  have t: "al_get txs' ?t = Some child" using adjustedD(2) [OF adj new(1)] by simp
  have chain: "chain_ok (al_get txs') (al_get ?children) ((ys @ [p]) @ [?t])"
  proof (rule chain_link [OF ch _ t _ _ _ _ _ adj])
    show "al_get ?children a = (if a = p then Some ?t else if a = ?t then None else ?C a)" for a
      using new(2) by (simp add: al.get_put)
    show "distinct ((ys @ [p]) @ [?t])" using dis new(1) by auto
  qed (use anc fits(1) [of "ys @ [p]"] in \<open>simp_all add: child_def\<close>)
  have "mock_repr (n\<lparr>mn_txs := txs', mn_children := ?children\<rparr>) (cs1 @ ((ys @ [p]) @ [?t]) # cs2)"
  proof (rule mock_repr_swap [OF n txs'(2) al.ok_put [OF d(2)] _ _ chain])
    show "length ((ys @ [p]) @ [?t]) \<le> chain_cap (mn_cfg n)" using len by (simp add: chain_cap_def)
    show "distinct ((ys @ [p]) @ [?t])" using dis new(1) by auto
    show "al_get txs' u = ?E u \<and> al_get ?children u = ?C u" if "u \<notin> set (ys @ [p])" "u \<notin> set ((ys @ [p]) @ [?t])" for u
      using that adjustedD(2) [OF adj that(1)] by (simp add: al.get_put)
    show "entry_ok (mn_cfg n) e'" if u: "u \<in> set ((ys @ [p]) @ [?t])" "al_get txs' u = Some e'" for u e'
    proof (cases "u = ?t")
      case True
      then have "e' = child" using u(2) t by simp
      then show ?thesis using g(2-4) allowed by (auto simp: entry_ok_def child_def)
    next
      case False
      then have "u \<in> set (ys @ [p])" using u(1) by simp
      from adjustedD(1) [OF adj this] obtain e0 where
        "?E u = Some e0" "adjust_one (me_vsize child) (base_of child) True e0 = Some e'"
        using u(2) False by auto
      then show ?thesis using d(8) by (simp add: adjust_one_entry_ok)
    qed
  qed (use fresh in auto)
  moreover have "attach_child rand p n = Some (n\<lparr>mn_txs := txs', mn_children := ?children, mn_rng := r\<rparr>)"
    using txs'(1) by (simp add: attach_child_def g(1) e(1) anc(1) child_def)
  ultimately show ?thesis by (auto simp: churned_def mock_repr_def)
qed

subsection \<open>Choosing a parent\<close>

lemma eligible_parents_spec:
  assumes n: "mock_repr n cs" and ks: "set ks \<subseteq> dom (al_get (mn_txs n))"
  shows "\<exists>ps. eligible_parents n ks = Some ps \<and> (\<forall>p \<in> set ps. \<exists>cs1 ys cs2. cs = cs1 @ (ys @ [p]) # cs2 \<and>
    length ys + 1 < cc_max_chain (mn_cfg n))"
  using ks
proof (induction ks)
  case (Cons t ks)
  then obtain ps where ps: "eligible_parents n ks = Some ps"
      "\<forall>p \<in> set ps. \<exists>cs1 ys cs2. cs = cs1 @ (ys @ [p]) # cs2 \<and> length ys + 1 < cc_max_chain (mn_cfg n)" by auto
  obtain cs1 ys zs cs2 where split: "cs = cs1 @ (ys @ t # zs) # cs2"
    using mock_repr_split [OF n] Cons.prems by (metis domIff list.set_intros(1) subsetD)
  have ch: "chain_ok (al_get (mn_txs n)) (al_get (mn_children n)) (ys @ t # zs)" using mock_reprD(6) [OF n] split by simp
  then have "ancestors_of (mn_txs n) t = Some (rev ys)" by (rule ancestors_of_chain [OF chain_ok_up])
  moreover have "zs = []" if "al_get (mn_children n) t = None" using that chain_okD [OF ch] by (metis option.distinct(1))
  ultimately show ?case using ps split by (cases "al_get (mn_children n) t") (auto simp: less_diff_conv)
qed simp

lemma eligible_parents_complete:
  assumes "mock_repr n cs" "eligible_parents n ks = Some ps" "ys \<in> set cs" "ys \<noteq> []" "length ys < cc_max_chain (mn_cfg n)"
    and "last ys \<in> set ks"
  shows "last ys \<in> set ps"
  using assms(2,6)
proof (induction ks arbitrary: ps)
  case (Cons t ks)
  obtain zs where zs: "ys = zs @ [last ys]" using assms(4) by (metis append_butlast_last_id)
  have ch: "chain_ok (al_get (mn_txs n)) (al_get (mn_children n)) (zs @ [last ys])" using mock_reprD(6) [OF assms(1,3)] zs by simp
  then have "ancestors_of (mn_txs n) (last ys) = Some (rev zs)" by (rule ancestors_of_chain [OF chain_ok_up])
  moreover have "al_get (mn_children n) (last ys) = None" using chain_okD [OF ch] by auto
  moreover have "length zs + 1 < cc_max_chain (mn_cfg n)" using assms(5) zs by (metis length_append_singleton Suc_eq_plus1)
  ultimately show ?case using Cons by (cases "t = last ys") (auto simp: bind_eq_Some_conv split: if_splits)
qed simp

lemma sample_parent_spec:
  assumes rand: "rand_ok rand" and es: "es \<noteq> []" "\<And>t. t \<in> set es \<Longrightarrow> al_get txs t \<noteq> None"
    and best: "\<And>b. best = Some b \<Longrightarrow> snd b \<in> set es"
  shows "\<exists>best' r'. sample_parent rand txs es k best r = Some (best', r') \<and>
    (\<forall>b. best' = Some b \<longrightarrow> snd b \<in> set es) \<and> (0 < k \<or> best \<noteq> None \<longrightarrow> best' \<noteq> None)"
  using best
proof (induction k arbitrary: best r)
  case (Suc k)
  obtain i r' where i: "rand_index rand (length es) r = (i, r')" by force
  then have lt: "i < length es" using rand_okD(2) [OF rand, of "length es" r] es(1) by simp
  then obtain e where e: "al_get txs (es ! i) = Some e" using es(2) [of "es ! i"] by auto
  define c where "c = (own_rate_sat_vb e, es ! i)"
  define best' where "best' = (case best of Some b \<Rightarrow> if b \<le> c then Some b else Some c | None \<Rightarrow> Some c)"
  have "snd a \<in> set es" if "best' = Some a" for a
    using that Suc.prems nth_mem [OF lt] by (auto simp: best'_def c_def split: option.splits if_splits)
  from Suc.IH [OF this] have "\<exists>best'' r''. sample_parent rand txs es k best' r' = Some (best'', r'') \<and>
    (\<forall>b. best'' = Some b \<longrightarrow> snd b \<in> set es) \<and> (0 < k \<or> best' \<noteq> None \<longrightarrow> best'' \<noteq> None)" .
  moreover have "best' \<noteq> None" by (auto simp: best'_def split: option.splits)
  moreover have "sample_parent rand txs es (Suc k) best r = sample_parent rand txs es k best' r'"
    unfolding best'_def c_def using lt e by (simp add: i Let_def)
  ultimately show ?case by simp
qed fastforce

text \<open>A chain that can take another child.\<close>

definition extendable :: "nat \<Rightarrow> txid list list \<Rightarrow> bool" where
  "extendable m cs \<longleftrightarrow> (\<exists>ys \<in> set cs. ys \<noteq> [] \<and> length ys < m)"

lemma pick_parent_spec:
  assumes n: "mock_repr n cs" and rand: "rand_ok rand"
  shows "\<exists>parent r. pick_parent rand n = Some (parent, n\<lparr>mn_rng := r\<rparr>) \<and>
    (\<forall>p. parent = Some p \<longrightarrow> (\<exists>cs1 ys cs2. cs = cs1 @ (ys @ [p]) # cs2 \<and> length ys + 1 < cc_max_chain (mn_cfg n))) \<and>
    (extendable (cc_max_chain (mn_cfg n)) cs \<longrightarrow> parent \<noteq> None)"
proof (cases "cc_max_chain (mn_cfg n) < 2")
  case True
  then have "pick_parent rand n = Some (None, n\<lparr>mn_rng := mn_rng n\<rparr>)" by (simp add: pick_parent_def)
  moreover have "\<not> extendable (cc_max_chain (mn_cfg n)) cs" using True by (auto simp: extendable_def less_Suc_eq numeral_2_eq_2)
  ultimately show ?thesis by blast
next
  case False
  obtain es where es: "eligible_parents n (mock_keys rand n) = Some es"
      "\<forall>p \<in> set es. \<exists>cs1 ys cs2. cs = cs1 @ (ys @ [p]) # cs2 \<and> length ys + 1 < cc_max_chain (mn_cfg n)"
    using eligible_parents_spec [OF n, of "mock_keys rand n"] set_mock_keys [OF rand] by auto
  have complete: "es \<noteq> []" if ext: "extendable (cc_max_chain (mn_cfg n)) cs"
  proof -
    obtain ys where ys: "ys \<in> set cs" "ys \<noteq> []" "length ys < cc_max_chain (mn_cfg n)" using ext by (auto simp: extendable_def)
    then have "last ys \<in> set (concat cs)" using last_in_set by fastforce
    then have "last ys \<in> set (mock_keys rand n)" using set_mock_keys [OF rand] mock_reprD(4) [OF n] by simp
    then show ?thesis using eligible_parents_complete [OF n es(1) ys] by auto
  qed
  show ?thesis
  proof (cases "es = []")
    case True
    then have "pick_parent rand n = Some (None, n\<lparr>mn_rng := mn_rng n\<rparr>)" using False es(1) by (simp add: pick_parent_def)
    then show ?thesis using complete True by blast
  next
    case nonempty: False
    have present: "al_get (mn_txs n) t \<noteq> None" if "t \<in> set es" for t
      using es(2) that mock_repr_absent(1) [OF n] by fastforce
    have "\<exists>best r. sample_parent rand (mn_txs n) es (min (length es) 8) None (mn_rng n) = Some (best, r) \<and>
        (\<forall>b. best = Some b \<longrightarrow> snd b \<in> set es) \<and> (0 < min (length es) 8 \<or> (None :: (u64 \<times> txid) option) \<noteq> None \<longrightarrow> best \<noteq> None)"
      by (rule sample_parent_spec [OF rand nonempty present]) simp_all
    moreover have "0 < min (length es) 8" using nonempty by simp
    ultimately obtain best r where s: "sample_parent rand (mn_txs n) es (min (length es) 8) None (mn_rng n) = Some (best, r)"
        "\<forall>b. best = Some b \<longrightarrow> snd b \<in> set es" "best \<noteq> None" by blast
    obtain b where b: "best = Some b" using s(3) by blast
    have "pick_parent rand n = Some (Some (snd b), n\<lparr>mn_rng := r\<rparr>)"
      using False es(1) nonempty s(1) b by (simp add: pick_parent_def)
    moreover have "\<exists>cs1 ys cs2. cs = cs1 @ (ys @ [snd b]) # cs2 \<and> length ys + 1 < cc_max_chain (mn_cfg n)"
      using es(2) s(2) b by blast
    ultimately show ?thesis by (intro exI [of _ "Some (snd b)"] exI [of _ r]) simp
  qed
qed

subsection \<open>One arrival\<close>

text \<open>The random state from which an arrival draws its id, and that id being new.\<close>

definition arrival_rng :: "'r rand \<Rightarrow> 'r mock_node \<Rightarrow> 'r option" where
  "arrival_rng rand n =
     (case attach_drawn rand n of
        (False, n) \<Rightarrow> Some (mn_rng (snd (sample_fee_rate rand n)))
      | (True, n) \<Rightarrow> map_option (\<lambda>(parent, n).
          case parent of Some _ \<Rightarrow> mn_rng n | None \<Rightarrow> mn_rng (snd (sample_fee_rate rand n))) (pick_parent rand n))"

definition fresh_arrival :: "'r rand \<Rightarrow> 'r mock_node \<Rightarrow> bool" where
  "fresh_arrival rand n =
     (case arrival_rng rand n of Some r \<Rightarrow> al_get (mn_txs n) (fst (rand_txid rand r)) = None | None \<Rightarrow> True)"

text \<open>An arrival starts a chain or extends one; with a certain draw it extends one whenever it can.\<close>

definition grown :: "nat \<Rightarrow> txid list list \<Rightarrow> txid list list \<Rightarrow> bool" where
  "grown m cs cs' \<longleftrightarrow> (\<exists>t. cs' = cs @ [[t]]) \<or>
     (\<exists>cs1 ys cs2 t. cs = cs1 @ ys # cs2 \<and> ys \<noteq> [] \<and> length ys < m \<and> cs' = cs1 @ (ys @ [t]) # cs2)"

definition eager :: "'r rand \<Rightarrow> churn_config \<Rightarrow> bool" where
  "eager rand cfg \<longleftrightarrow> 0 < cc_cpfp_fraction cfg \<and> (\<forall>r. fst (rand_unit rand r) < cc_cpfp_fraction cfg)"

lemma grown_length: "grown m cs cs' \<Longrightarrow> length (concat cs') = Suc (length (concat cs))"
  by (auto simp: grown_def)

lemma add_arrival_grows:
  assumes n: "mock_repr n cs" and cfg: "cfg_ok (mn_cfg n)" and rand: "rand_ok rand" and fresh: "fresh_arrival rand n"
  shows "\<exists>n' cs'. add_arrival rand n = Some n' \<and> mock_repr n' cs' \<and> churned n n' \<and>
    grown (cc_max_chain (mn_cfg n)) cs cs' \<and>
    (eager rand (mn_cfg n) \<and> extendable (cc_max_chain (mn_cfg n)) cs \<longrightarrow> length cs' = length cs)"
proof -
  have "\<exists>b r. attach_drawn rand n = (b, n\<lparr>mn_rng := r\<rparr>) \<and> (eager rand (mn_cfg n) \<longrightarrow> b)"
  proof (cases "0 < cc_cpfp_fraction (mn_cfg n)")
    case True
    then show ?thesis by (auto simp: attach_drawn_def split_def Let_def eager_def intro!: exI)
  next
    case False
    then have "attach_drawn rand n = (False, n\<lparr>mn_rng := mn_rng n\<rparr>)" by (simp add: attach_drawn_def)
    moreover have "\<not> eager rand (mn_cfg n)" using False by (simp add: eager_def)
    ultimately show ?thesis by blast
  qed
  then obtain b r where b: "attach_drawn rand n = (b, n\<lparr>mn_rng := r\<rparr>)" "eager rand (mn_cfg n) \<longrightarrow> b" by blast
  let ?n = "n\<lparr>mn_rng := r\<rparr>"
  have standalone: "\<exists>n' t. Some (insert_standalone rand m) = Some n' \<and> mock_repr n' (cs @ [[t]]) \<and> churned n n'"
    if m: "m = n\<lparr>mn_rng := x\<rparr>" "al_get (mn_txs m) (fst (rand_txid rand (mn_rng (snd (sample_fee_rate rand m))))) = None" for m x
  proof -
    have repr: "mock_repr m cs" using n by (simp add: m(1) mock_repr_def)
    from insert_standalone_repr [OF repr _ rand m(2)] cfg show ?thesis by (auto simp: m(1) churned_def)
  qed
  show ?thesis
  proof (cases b)
    case False
    then show ?thesis using standalone [of ?n r] fresh b
      by (fastforce simp: add_arrival_def fresh_arrival_def arrival_rng_def grown_def)
  next
    case True
    have repr: "mock_repr ?n cs" using n by (simp add: mock_repr_def)
    obtain parent r' where p: "pick_parent rand ?n = Some (parent, n\<lparr>mn_rng := r'\<rparr>)"
        "\<forall>p. parent = Some p \<longrightarrow> (\<exists>cs1 ys cs2. cs = cs1 @ (ys @ [p]) # cs2 \<and> length ys + 1 < cc_max_chain (mn_cfg n))"
        "extendable (cc_max_chain (mn_cfg n)) cs \<longrightarrow> parent \<noteq> None"
      using pick_parent_spec [OF repr rand] by auto
    show ?thesis
    proof (cases parent)
      case None
      then show ?thesis using standalone [of "n\<lparr>mn_rng := r'\<rparr>" r'] fresh b p(1,3) True
        by (fastforce simp: add_arrival_def fresh_arrival_def arrival_rng_def grown_def)
    next
      case (Some q)
      then obtain cs1 ys cs2 where q: "cs = cs1 @ (ys @ [q]) # cs2" "length ys + 1 < cc_max_chain (mn_cfg n)" using p(2) by blast
      have "mock_repr (n\<lparr>mn_rng := r'\<rparr>) (cs1 @ (ys @ [q]) # cs2)" using n by (simp add: mock_repr_def q(1))
      from attach_child_repr [OF this _ rand] obtain n' t where
        "attach_child rand q (n\<lparr>mn_rng := r'\<rparr>) = Some n'" "mock_repr n' (cs1 @ ((ys @ [q]) @ [t]) # cs2)"
        "churned (n\<lparr>mn_rng := r'\<rparr>) n'"
        using cfg q(2) fresh b p(1) True Some by (auto simp: fresh_arrival_def arrival_rng_def)
      moreover from this have "add_arrival rand n = Some n'" using b p(1) True Some by (simp add: add_arrival_def)
      moreover have "grown (cc_max_chain (mn_cfg n)) cs (cs1 @ ((ys @ [q]) @ [t]) # cs2)"
        using q unfolding grown_def by (intro disjI2 exI conjI) auto
      ultimately show ?thesis using q(1) by (intro exI conjI) (auto simp: churned_def)
    qed
  qed
qed

lemma add_arrival_repr:
  assumes "mock_repr n cs" "cfg_ok (mn_cfg n)" "rand_ok rand" "fresh_arrival rand n"
  shows "\<exists>n' cs'. add_arrival rand n = Some n' \<and> mock_repr n' cs' \<and> churned n n' \<and>
    length (concat cs') = Suc (length (concat cs))"
  using add_arrival_grows [OF assms] grown_length by blast

subsection \<open>Churn\<close>

fun fresh_arrivals :: "'r rand \<Rightarrow> nat \<Rightarrow> 'r mock_node \<Rightarrow> bool" where
  "fresh_arrivals rand 0 n \<longleftrightarrow> True"
| "fresh_arrivals rand (Suc k) n \<longleftrightarrow> fresh_arrival rand n \<and>
     (case add_arrival rand n of Some n' \<Rightarrow> fresh_arrivals rand k n' | None \<Rightarrow> True)"

lemma grown_new: "grown m cs cs' \<Longrightarrow> \<exists>t. set (concat cs') \<subseteq> insert t (set (concat cs))"
proof -
  assume "grown m cs cs'"
  then obtain t where "set (concat cs') = insert t (set (concat cs))" by (force simp: grown_def)
  then show ?thesis by blast
qed

lemma add_arrivals_repr:
  assumes "mock_repr n cs" "cfg_ok (mn_cfg n)" "rand_ok rand" "fresh_arrivals rand k n"
  shows "\<exists>n' cs'. add_arrivals rand k n = Some n' \<and> mock_repr n' cs' \<and> churned n n' \<and>
    length (concat cs') = length (concat cs) + k \<and> (\<exists>B. card B \<le> k \<and> finite B \<and> set (concat cs') \<subseteq> set (concat cs) \<union> B)"
  using assms
proof (induction k arbitrary: n cs)
  case 0
  then show ?case by (intro exI [of _ n] exI [of _ cs]) (auto intro: exI [of _ "{}"])
next
  case (Suc k)
  obtain n1 cs1 where 1: "add_arrival rand n = Some n1" "mock_repr n1 cs1" "churned n n1"
      "grown (cc_max_chain (mn_cfg n)) cs cs1"
    using add_arrival_grows [OF Suc.prems(1-3)] Suc.prems(4) by auto
  obtain n2 cs2 B where 2: "add_arrivals rand k n1 = Some n2" "mock_repr n2 cs2" "churned n1 n2"
      "length (concat cs2) = length (concat cs1) + k" "card B \<le> k" "finite B" "set (concat cs2) \<subseteq> set (concat cs1) \<union> B"
    using Suc.IH [OF 1(2)] Suc.prems(2-4) 1(1) churned_cfg [OF 1(3)] by auto
  obtain t where "set (concat cs1) \<subseteq> insert t (set (concat cs))" using grown_new [OF 1(4)] by blast
  then have "set (concat cs2) \<subseteq> set (concat cs) \<union> insert t B" using 2(7) by blast
  moreover have "card (insert t B) \<le> Suc k" using 2(5,6) by (simp add: card_insert_if)
  moreover have "add_arrivals rand (Suc k) n = Some n2" using 1(1) 2(1) by simp
  moreover have "length (concat cs2) = length (concat cs) + Suc k" using 2(4) grown_length [OF 1(4)] by simp
  ultimately show ?case using 2(2,6) churned_trans [OF 1(3) 2(3)] finite.insertI by blast
qed

lemma evict_repr:
  assumes "mock_repr n cs" "rand_ok rand"
  shows "\<exists>n' cs'. evict rand k n = Some n' \<and> mock_repr n' cs' \<and> churned n n' \<and>
    length (concat cs') = length (concat cs) - k \<and> set (concat cs') \<subseteq> set (concat cs)"
  using assms
proof (induction k arbitrary: n cs)
  case 0
  then show ?case by auto
next
  case (Suc k)
  show ?case
  proof (cases "mock_keys rand n")
    case Nil
    then have "concat cs = []"
      using set_mock_keys [OF Suc.prems(2), of n] mock_reprD(4) [OF Suc.prems(1)] by simp
    then have "length (concat cs) = length (concat cs) - Suc k" by (simp only: list.size diff_0_eq_0)
    moreover have "evict rand (Suc k) n = Some n" using Nil by simp
    ultimately show ?thesis using Suc.prems(1) churned_refl by blast
  next
    case (Cons t ts)
    then have "al_get (mn_txs n) t \<noteq> None"
      using set_mock_keys [OF Suc.prems(2), of n] by (metis domIff list.set_intros(1))
    then obtain cs1 ys zs cs2 where split: "cs = cs1 @ (ys @ t # zs) # cs2" by (rule mock_repr_split [OF Suc.prems(1)])
    have "ys @ t # zs \<in> set cs" by (simp add: split)
    from leaf_of_chain [OF mock_reprD(6) [OF Suc.prems(1) this]]
    have "leaf_of (mn_children n) t = Some (last (t # zs))" .
    have leaf: "ys @ t # zs = (ys @ butlast (t # zs)) @ [last (t # zs)]" by simp
    obtain n1 where n1: "remove_leaf (last (t # zs)) n = Some n1"
        "mock_repr n1 (cs1 @ (ys @ butlast (t # zs)) # cs2)" "churned n n1"
      using remove_leaf_repr [of n cs1 "ys @ butlast (t # zs)" "last (t # zs)" cs2] Suc.prems(1) split
      unfolding leaf [symmetric] by blast
    obtain n2 cs' where n2: "evict rand k n1 = Some n2" "mock_repr n2 cs'" "churned n1 n2"
        "length (concat cs') = length (concat (cs1 @ (ys @ butlast (t # zs)) # cs2)) - k"
        "set (concat cs') \<subseteq> set (concat (cs1 @ (ys @ butlast (t # zs)) # cs2))"
      using Suc.IH [OF n1(2) Suc.prems(2)] by blast
    have "set (concat (cs1 @ (ys @ butlast (t # zs)) # cs2)) \<subseteq> set (concat cs)"
      using in_set_butlastD [of _ "t # zs"] unfolding split by fastforce
    with n2(5) have "set (concat cs') \<subseteq> set (concat cs)" by (rule subset_trans)
    moreover have "length (concat (cs1 @ (ys @ butlast (t # zs)) # cs2)) - k = length (concat cs) - Suc k"
      unfolding split by simp
    then have "length (concat cs') = length (concat cs) - Suc k" unfolding n2(4) .
    moreover have "evict rand (Suc k) n = Some n2" using Cons n1(1) n2(1) \<open>leaf_of (mn_children n) t = Some (last (t # zs))\<close>
      by (simp only: evict.simps list.case Option.bind.simps)
    ultimately show ?thesis using n2(2) churned_trans [OF n1(3) n2(3)] by blast
  qed
qed

end
