(* ===== verification/Sim_Mining.thy ===== *)
theory Sim_Mining
  imports Sim_Churn
begin

text \<open>
  A simulated block (\<open>mine_block\<close>): the selection of confirmed transactions respects the weight limit
  and is closed under ancestors, so every chain loses a prefix; \<open>confirm_set\<close> then re-roots what is left
  of each chain and repairs the ancestor totals down from the new root.
\<close>

subsection \<open>Repairing ancestor totals\<close>

text \<open>An entry without its ancestor totals; two maps that agree up to these.\<close>

definition erase_anc :: "mempool_entry \<Rightarrow> mempool_entry" where
  "erase_anc e = e\<lparr>me_ancestorsize := 0, me_fees := (me_fees e)\<lparr>ef_ancestor := 0\<rparr>\<rparr>"

lemma erase_anc_sel [simp]:
  "me_vsize (erase_anc e) = me_vsize e" "me_weight (erase_anc e) = me_weight e" "me_depends (erase_anc e) = me_depends e"
  "base_of (erase_anc e) = base_of e" "ef_descendant (me_fees (erase_anc e)) = ef_descendant (me_fees e)"
  "me_descendantsize (erase_anc e) = me_descendantsize e"
  by (simp_all add: erase_anc_def)

definition same_but_anc :: "entry_map \<Rightarrow> entry_map \<Rightarrow> bool" where
  "same_but_anc E E' \<longleftrightarrow> (\<forall>t. map_option erase_anc (E t) = map_option erase_anc (E' t))"

lemma same_but_anc_refl [simp]: "same_but_anc E E"
  by (simp add: same_but_anc_def)

lemma same_but_anc_trans: "same_but_anc E E' \<Longrightarrow> same_but_anc E' E'' \<Longrightarrow> same_but_anc E E''"
  by (simp add: same_but_anc_def)

lemma same_but_anc_field:
  assumes "same_but_anc E E'" "\<And>e. f (erase_anc e) = f e"
  shows "map_option f (E t) = map_option f (E' t)"
proof -
  have "map_option f (map_option erase_anc (E t)) = map_option f (map_option erase_anc (E' t))"
    using assms(1) by (simp add: same_but_anc_def)
  then show ?thesis using assms(2) by (simp add: option.map_comp comp_def)
qed

lemma same_but_anc_tot:
  assumes "same_but_anc E E'"
  shows "tot me_vsize E ts = tot me_vsize E' ts" "tot base_of E ts = tot base_of E' ts"
  by (intro tot_cong same_but_anc_field [OF assms]; simp)+

lemma same_but_anc_Some:
  assumes "same_but_anc E E'" "E t = Some e"
  obtains e' where "E' t = Some e'" "erase_anc e' = erase_anc e"
  using assms unfolding same_but_anc_def by (metis map_option_eq_Some option.simps(9))

lemma erase_anc_eqD:
  assumes "erase_anc e' = erase_anc e"
  shows "me_vsize e' = me_vsize e" "me_weight e' = me_weight e" "me_depends e' = me_depends e" "base_of e' = base_of e"
    and "ef_descendant (me_fees e') = ef_descendant (me_fees e)" "me_descendantsize e' = me_descendantsize e"
  using assms erase_anc_sel by metis+

text \<open>A chain whose ancestor totals may be wrong, and one entry's ancestor totals.\<close>

definition half_ok :: "entry_map \<Rightarrow> (txid \<rightharpoonup> txid) \<Rightarrow> txid list \<Rightarrow> bool" where
  "half_ok E C xs \<longleftrightarrow> (\<forall>ys t zs. xs = ys @ t # zs \<longrightarrow>
     (\<exists>e. E t = Some e \<and> me_depends e = (if ys = [] then [] else [last ys]) \<and>
        C t = (if zs = [] then None else Some (hd zs)) \<and>
        unat (me_descendantsize e) = tot me_vsize E (t # zs) \<and>
        unat (ef_descendant (me_fees e)) = tot base_of E (t # zs)))"

definition anc_ok :: "entry_map \<Rightarrow> txid list \<Rightarrow> txid \<Rightarrow> bool" where
  "anc_ok E ys t \<longleftrightarrow> (\<exists>e. E t = Some e \<and> unat (me_ancestorsize e) = tot me_vsize E (ys @ [t]) \<and>
     unat (ef_ancestor (me_fees e)) = tot base_of E (ys @ [t]))"

lemma chain_ok_halves:
  "chain_ok E C xs \<longleftrightarrow> half_ok E C xs \<and> (\<forall>ys t zs. xs = ys @ t # zs \<longrightarrow> anc_ok E ys t)"
proof
  assume "chain_ok E C xs"
  then show "half_ok E C xs \<and> (\<forall>ys t zs. xs = ys @ t # zs \<longrightarrow> anc_ok E ys t)"
    unfolding chain_ok_def half_ok_def anc_ok_def by metis
next
  assume *: "half_ok E C xs \<and> (\<forall>ys t zs. xs = ys @ t # zs \<longrightarrow> anc_ok E ys t)"
  show "chain_ok E C xs"
    unfolding chain_ok_def
  proof (intro allI impI)
    fix ys t zs assume "xs = ys @ t # zs"
    with * obtain e e' where
      "E t = Some e" "me_depends e = (if ys = [] then [] else [last ys])" "C t = (if zs = [] then None else Some (hd zs))"
      "unat (me_descendantsize e) = tot me_vsize E (t # zs)" "unat (ef_descendant (me_fees e)) = tot base_of E (t # zs)"
      and "E t = Some e'" "unat (me_ancestorsize e') = tot me_vsize E (ys @ [t])"
      "unat (ef_ancestor (me_fees e')) = tot base_of E (ys @ [t])"
      unfolding half_ok_def anc_ok_def by metis
    then show "\<exists>e. E t = Some e \<and> me_depends e = (if ys = [] then [] else [last ys]) \<and>
        C t = (if zs = [] then None else Some (hd zs)) \<and>
        unat (me_ancestorsize e) = tot me_vsize E (ys @ [t]) \<and>
        unat (ef_ancestor (me_fees e)) = tot base_of E (ys @ [t]) \<and>
        unat (me_descendantsize e) = tot me_vsize E (t # zs) \<and>
        unat (ef_descendant (me_fees e)) = tot base_of E (t # zs)" by simp
  qed
qed

lemma half_ok_same:
  assumes same: "same_but_anc E E'" and h: "half_ok E C xs"
  shows "half_ok E' C xs"
  unfolding half_ok_def
proof (intro allI impI)
  fix ys t zs assume "xs = ys @ t # zs"
  with h obtain e where e: "E t = Some e" "me_depends e = (if ys = [] then [] else [last ys])"
      "C t = (if zs = [] then None else Some (hd zs))" "unat (me_descendantsize e) = tot me_vsize E (t # zs)"
      "unat (ef_descendant (me_fees e)) = tot base_of E (t # zs)" unfolding half_ok_def by blast
  obtain e' where e': "E' t = Some e'" "erase_anc e' = erase_anc e" by (rule same_but_anc_Some [OF same e(1)])
  show "\<exists>e. E' t = Some e \<and> me_depends e = (if ys = [] then [] else [last ys]) \<and>
      C t = (if zs = [] then None else Some (hd zs)) \<and>
      unat (me_descendantsize e) = tot me_vsize E' (t # zs) \<and>
      unat (ef_descendant (me_fees e)) = tot base_of E' (t # zs)"
    using e e'(1) erase_anc_eqD [OF e'(2)] same_but_anc_tot [OF same, of "t # zs"] by (intro exI [of _ e']) simp
qed

lemma repair_walk:
  assumes "al_ok txs" "half_ok (al_get txs) (al_get children) (us @ p # zs)" "distinct (us @ p # zs)"
    and "anc_ok (al_get txs) us p" "tot me_vsize (al_get txs) (us @ p # zs) < 2 ^ 64" "tot base_of (al_get txs) (us @ p # zs) < 2 ^ 64"
  shows "\<exists>txs'. repair_below children p txs = Some txs' \<and> al_ok txs' \<and> same_but_anc (al_get txs) (al_get txs') \<and>
    (\<forall>t. t \<notin> set zs \<longrightarrow> al_get txs' t = al_get txs t) \<and>
    (\<forall>ys t ws. zs = ys @ t # ws \<longrightarrow> anc_ok (al_get txs') (us @ p # ys) t)"
  using assms
proof (induction zs arbitrary: us p txs)
  case Nil
  then have "al_get children p = None" unfolding half_ok_def by fastforce
  then have "repair_below children p txs = Some txs" by (subst repair_below.simps) simp
  with Nil.prems(1) show ?case by simp
next
  case (Cons c zs)
  let ?E = "al_get txs"
  have C: "al_get children p = Some c" using Cons.prems(2) unfolding half_ok_def by (metis list.distinct(1) list.sel(1))
  obtain ep where ep: "?E p = Some ep" "unat (me_ancestorsize ep) = tot me_vsize ?E (us @ [p])"
      "unat (ef_ancestor (me_fees ep)) = tot base_of ?E (us @ [p])" using Cons.prems(4) unfolding anc_ok_def by blast
  have "us @ p # c # zs = (us @ [p]) @ c # zs" by simp
  then obtain ec where ec: "?E c = Some ec" using Cons.prems(2) unfolding half_ok_def by blast
  define a where "a = base_of ec + ef_ancestor (me_fees ep)"
  define c' where "c' = ec\<lparr>me_ancestorsize := me_vsize ec + me_ancestorsize ep, me_fees := (me_fees ec)\<lparr>ef_ancestor := a\<rparr>\<rparr>"
  have fits: "unat (me_vsize ec) + unat (me_ancestorsize ep) < 2 ^ 64" "unat (base_of ec) + unat (ef_ancestor (me_fees ep)) < 2 ^ 64"
    using Cons.prems(5,6) ep(1) ec by (simp_all add: ep(2,3))
  then have rep: "repair_child ep ec = Some c'" by (simp add: repair_child_def amount_add_def a_def c'_def)
  let ?txs = "AList.update c c' txs"
  have same: "same_but_anc ?E (al_get ?txs)"
    using ec by (auto simp: same_but_anc_def al.get_put erase_anc_def c'_def)
  have anc: "anc_ok (al_get ?txs) (us @ [p]) c"
    using fits ep ec same_but_anc_tot [OF same, of "us @ [p]"] unat_add_u64
    by (auto simp: anc_ok_def al.get_put c'_def a_def)
  have half: "half_ok (al_get ?txs) (al_get children) ((us @ [p]) @ c # zs)"
    using half_ok_same [OF same Cons.prems(2)] by simp
  have tot: "tot me_vsize (al_get ?txs) ((us @ [p]) @ c # zs) < 2 ^ 64" "tot base_of (al_get ?txs) ((us @ [p]) @ c # zs) < 2 ^ 64"
    using Cons.prems(5,6) unfolding same_but_anc_tot [OF same] by (simp_all del: tot_simps)
  obtain txs' where t: "repair_below children c ?txs = Some txs'" "al_ok txs'" "same_but_anc (al_get ?txs) (al_get txs')"
      "\<forall>t. t \<notin> set zs \<longrightarrow> al_get txs' t = al_get ?txs t"
      "\<forall>ys t ws. zs = ys @ t # ws \<longrightarrow> anc_ok (al_get txs') ((us @ [p]) @ c # ys) t"
    using Cons.IH [OF al.ok_put [OF Cons.prems(1)] half _ anc tot] Cons.prems(3) by auto
  have "repair_below children p txs = Some txs'"
    using C ep(1) ec rep t(1) by (subst repair_below.simps) simp
  moreover have "al_get txs' t' = ?E t'" if "t' \<notin> set (c # zs)" for t' using t(4) that by (simp add: al.get_put)
  moreover have "anc_ok (al_get txs') (us @ p # ys) t'" if split: "c # zs = ys @ t' # ws" for ys t' ws
  proof (cases ys)
    case Nil
    have "al_get txs' c = al_get ?txs c" using t(4) Cons.prems(3) by simp
    with Nil split anc same_but_anc_tot [OF t(3)] show ?thesis by (simp add: anc_ok_def del: tot_simps)
  next
    case (Cons y ys')
    with split t(5) show ?thesis by auto
  qed
  ultimately show ?case using t(2) same_but_anc_trans [OF same t(3)] by blast
qed

lemma anc_ok_same:
  assumes "same_but_anc E E'" "E' t = E t" "anc_ok E ys t"
  shows "anc_ok E' ys t"
  using assms(2,3) unfolding anc_ok_def same_but_anc_tot [OF assms(1)] by simp

text \<open>All new roots in turn: each repairs its own chain and leaves the others alone.\<close>

lemma repair_roots:
  assumes "al_ok txs" "distinct (concat qss)"
    and "\<And>qs. qs \<in> set qss \<Longrightarrow> qs \<noteq> [] \<and> half_ok (al_get txs) (al_get children) qs \<and> anc_ok (al_get txs) [] (hd qs) \<and>
      tot me_vsize (al_get txs) qs < 2 ^ 64 \<and> tot base_of (al_get txs) qs < 2 ^ 64"
  shows "\<exists>txs'. fold_opt (repair_below children) (map hd qss) txs = Some txs' \<and> al_ok txs' \<and>
    same_but_anc (al_get txs) (al_get txs') \<and>
    (\<forall>qs \<in> set qss. chain_ok (al_get txs') (al_get children) qs) \<and>
    (\<forall>t. t \<notin> set (concat qss) \<longrightarrow> al_get txs' t = al_get txs t)"
  using assms
proof (induction qss arbitrary: txs)
  case (Cons qs qss)
  obtain p zs where qs: "qs = p # zs" using Cons.prems(3) [of qs] by (cases qs) auto
  have start: "half_ok (al_get txs) (al_get children) ([] @ p # zs)" "distinct ([] @ p # zs)" "anc_ok (al_get txs) [] p"
      "tot me_vsize (al_get txs) ([] @ p # zs) < 2 ^ 64" "tot base_of (al_get txs) ([] @ p # zs) < 2 ^ 64"
    using Cons.prems(3) [of qs] Cons.prems(2) qs by simp_all
  from repair_walk [OF Cons.prems(1) start] obtain txs1 where
    1: "repair_below children p txs = Some txs1" "al_ok txs1" "same_but_anc (al_get txs) (al_get txs1)"
      "\<And>t. t \<notin> set zs \<Longrightarrow> al_get txs1 t = al_get txs t"
      "\<And>ys t ws. zs = ys @ t # ws \<Longrightarrow> anc_ok (al_get txs1) (p # ys) t" by (metis append_Nil)
  note tot = same_but_anc_tot [OF 1(3)]
  have "qs' \<noteq> [] \<and> half_ok (al_get txs1) (al_get children) qs' \<and> anc_ok (al_get txs1) [] (hd qs') \<and>
      tot me_vsize (al_get txs1) qs' < 2 ^ 64 \<and> tot base_of (al_get txs1) qs' < 2 ^ 64" if qs': "qs' \<in> set qss" for qs'
  proof -
    note p = Cons.prems(3) [OF list.set_intros(2) [OF qs']]
    then have "hd qs' \<in> set qs'" by (intro hd_in_set) simp
    then have "hd qs' \<in> set (concat qss)" using qs' by auto
    then have "hd qs' \<notin> set zs" using Cons.prems(2) qs by auto
    then show ?thesis using p half_ok_same [OF 1(3)] anc_ok_same [OF 1(3) 1(4)] unfolding tot by blast
  qed
  from Cons.IH [OF 1(2) _ this] Cons.prems(2) obtain txs' where
    2: "fold_opt (repair_below children) (map hd qss) txs1 = Some txs'" "al_ok txs'"
      "same_but_anc (al_get txs1) (al_get txs')" "\<forall>qs \<in> set qss. chain_ok (al_get txs') (al_get children) qs"
      "\<forall>t. t \<notin> set (concat qss) \<longrightarrow> al_get txs' t = al_get txs1 t" by auto
  have anc: "anc_ok (al_get txs1) ys t" if "qs = ys @ t # ws" for ys t ws
  proof (cases ys)
    case Nil
    then have t: "t = p" "p \<notin> set zs" using that qs Cons.prems(2) by auto
    then show ?thesis using anc_ok_same [OF 1(3) 1(4) start(3)] t Nil by simp
  next
    case (Cons y ys')
    then show ?thesis using that qs 1(5) by simp
  qed
  have "half_ok (al_get txs1) (al_get children) qs" using half_ok_same [OF 1(3)] Cons.prems(3) [of qs] by simp
  with anc have chain: "chain_ok (al_get txs1) (al_get children) qs" unfolding chain_ok_halves by blast
  have "al_get txs1 t = al_get txs' t" if "t \<in> set qs" for t
    using 2(5) that Cons.prems(2) by (auto simp del: set_concat)
  then have "chain_ok (al_get txs') (al_get children) qs" by (intro chain_ok_cong [OF _ chain]) simp
  moreover have "fold_opt (repair_below children) (map hd (qs # qss)) txs = Some txs'" using 1(1) 2(1) qs by simp
  moreover have "al_get txs' t = al_get txs t" if "t \<notin> set (concat (qs # qss))" for t
    using that 2(5) 1(4) [of t] qs by simp
  ultimately show ?case using 2(2,4) same_but_anc_trans [OF 1(3) 2(3)] by auto
qed simp

subsection \<open>Confirming a set\<close>

definition ancestor_closed :: "txid list list \<Rightarrow> txid set \<Rightarrow> bool" where
  "ancestor_closed cs S \<longleftrightarrow> (\<forall>xs \<in> set cs. \<exists>ps qs. xs = ps @ qs \<and> set ps \<subseteq> S \<and> set qs \<inter> S = {})"

lemma ancestor_closedD:
  assumes "ancestor_closed cs S" "xs \<in> set cs"
  obtains ps where "xs = ps @ filter (\<lambda>t. t \<notin> S) xs" "set ps \<subseteq> S"
proof -
  obtain ps qs where xs: "xs = ps @ qs" "set ps \<subseteq> S" "set qs \<inter> S = {}" using assms unfolding ancestor_closed_def by blast
  then have "filter (\<lambda>t. t \<notin> S) ps = []" "filter (\<lambda>t. t \<notin> S) qs = qs" by (auto simp: filter_empty_conv filter_id_conv)
  with xs(1,2) show ?thesis by (intro that [of ps]) simp_all
qed

lemma reroot_all:
  assumes "al_ok txs" "distinct rs"
  shows "al_ok (fold reroot_at rs txs) \<and>
    (\<forall>t. al_get (fold reroot_at rs txs) t = (if t \<in> set rs then map_option reroot_entry (al_get txs t) else al_get txs t))"
  using assms
proof (induction rs arbitrary: txs)
  case (Cons r rs)
  have "al_ok (reroot_at r txs)" using Cons.prems(1) by (simp add: reroot_at_def al.ok_put split: option.split)
  from Cons.IH [OF this] Cons.prems(2) show ?case
    by (auto simp: reroot_at_def al.get_put split: option.splits)
qed simp

end
