(* ===== verification/Sim_Confirm.thy ===== *)
theory Sim_Confirm
  imports Sim_Mining
begin

text \<open>
  \<open>confirm_set\<close> on the representation by chains: confirming a set that is closed under ancestors cuts a
  prefix off every chain, and what is left of each chain is a chain again, with a root of its own and
  truthful totals.
\<close>

subsection \<open>The new roots\<close>

definition new_root :: "txid list list \<Rightarrow> txid set \<Rightarrow> txid \<Rightarrow> bool" where
  "new_root cs S r \<longleftrightarrow> (\<exists>ps qs. ps @ r # qs \<in> set cs \<and> ps \<noteq> [] \<and> set ps \<subseteq> S \<and> set (r # qs) \<inter> S = {})"

lemma rerooted_spec:
  assumes n: "mock_repr n cs" and rand: "rand_ok rand" and closed: "ancestor_closed cs (set conf)"
  shows "r \<in> set (rerooted rand conf n) \<longleftrightarrow> new_root cs (set conf) r"
proof
  assume r: "r \<in> set (rerooted rand conf n)"
  then have "al_get (mn_txs n) r \<noteq> None" by (auto simp: rerooted_def split: option.splits)
  then obtain cs1 ys zs cs2 where cs: "cs = cs1 @ (ys @ r # zs) # cs2" by (rule mock_repr_split [OF n])
  then have xs: "ys @ r # zs \<in> set cs" by simp
  obtain e where "al_get (mn_txs n) r = Some e" "me_depends e = (if ys = [] then [] else [last ys])"
    using chain_okD [OF mock_reprD(6) [OF n xs]] by metis
  then have ys: "ys \<noteq> []" "last ys \<in> set conf" "r \<notin> set conf" using r by (auto simp: rerooted_def split: if_splits)
  obtain ps qs where split: "ys @ r # zs = ps @ qs" "set ps \<subseteq> set conf" "set qs \<inter> set conf = {}"
    using closed xs unfolding ancestor_closed_def by blast
  have "ps = ys"
  proof -
    consider us where "ys = ps @ us" "qs = us @ r # zs" | us where "ps = ys @ us" "us @ qs = r # zs"
      using split(1) by (auto simp: append_eq_append_conv2)
    then show ?thesis
    proof cases
      case 1
      then show ?thesis using ys(1,2) split(3) by (cases us rule: rev_cases) auto
    next
      case 2
      then show ?thesis using ys(3) split(2) by (cases us) auto
    qed
  qed
  with split xs ys(1) show "new_root cs (set conf) r" unfolding new_root_def by fastforce
next
  assume "new_root cs (set conf) r"
  then obtain ps qs where xs: "ps @ r # qs \<in> set cs" "ps \<noteq> []" "set ps \<subseteq> set conf" "set (r # qs) \<inter> set conf = {}"
    unfolding new_root_def by blast
  obtain e where e: "al_get (mn_txs n) r = Some e" "me_depends e = [last ps]"
    using chain_okD [OF mock_reprD(6) [OF n xs(1)]] xs(2) by metis
  have "r \<in> set (mock_keys rand n)" using set_mock_keys [OF rand, of n] e(1) by auto
  moreover have "last ps \<in> set conf" using xs(2,3) by auto
  ultimately show "r \<in> set (rerooted rand conf n)" using e xs(4) by (simp add: rerooted_def)
qed

text \<open>The maps between the two loops: roots cut loose, confirmed transactions gone.\<close>

definition cut_entries :: "txid set \<Rightarrow> (txid \<Rightarrow> bool) \<Rightarrow> entry_map \<Rightarrow> entry_map" where
  "cut_entries S R E = (\<lambda>t. if t \<in> S then None else if R t then map_option reroot_entry (E t) else E t)"

lemma tot_cut:
  assumes "set us \<inter> S = {}" "f = me_vsize \<or> f = base_of"
  shows "tot f (cut_entries S R E) us = tot f E us"
proof (rule tot_cong)
  fix t assume "t \<in> set us"
  then have "t \<notin> S" using assms(1) by blast
  then show "map_option f (cut_entries S R E t) = map_option f (E t)"
    using assms(2) by (cases "E t") (auto simp: cut_entries_def reroot_entry_def)
qed

lemma cut_chain:
  assumes ch: "chain_ok E C (ps @ r # qs)" and S: "set (r # qs) \<inter> S = {}" and dis: "distinct (r # qs)"
    and R: "R r" "\<And>t. t \<in> set qs \<Longrightarrow> \<not> R t"
  shows "half_ok (cut_entries S R E) (\<lambda>t. if t \<in> S then None else C t) (r # qs)"
    and "anc_ok (cut_entries S R E) [] r"
proof -
  let ?E = "cut_entries S R E"
  have root: "?E r = map_option reroot_entry (E r)" using S R(1) by (simp add: cut_entries_def)
  have other: "?E t = E t" if "t \<in> set qs" for t using that S R(2) by (auto simp: cut_entries_def)
  show "half_ok ?E (\<lambda>t. if t \<in> S then None else C t) (r # qs)"
    unfolding half_ok_def
  proof (intro allI impI)
    fix ys t zs assume split: "r # qs = ys @ t # zs"
    then have "ps @ r # qs = (ps @ ys) @ t # zs" by simp
    then obtain e where e: "E t = Some e" "me_depends e = (if ps @ ys = [] then [] else [last (ps @ ys)])"
        "C t = (if zs = [] then None else Some (hd zs))" "unat (me_descendantsize e) = tot me_vsize E (t # zs)"
        "unat (ef_descendant (me_fees e)) = tot base_of E (t # zs)"
      using chain_okD ch by metis
    have sub: "set (t # zs) \<inter> S = {}" using S arg_cong [OF split, of set] by auto
    have tot: "tot me_vsize ?E (t # zs) = tot me_vsize E (t # zs)" "tot base_of ?E (t # zs) = tot base_of E (t # zs)"
      by (rule tot_cut [OF sub]; simp)+
    show "\<exists>e. ?E t = Some e \<and> me_depends e = (if ys = [] then [] else [last ys]) \<and>
        (if t \<in> S then None else C t) = (if zs = [] then None else Some (hd zs)) \<and>
        unat (me_descendantsize e) = tot me_vsize ?E (t # zs) \<and>
        unat (ef_descendant (me_fees e)) = tot base_of ?E (t # zs)"
    proof (cases ys)
      case Nil
      then have "?E t = Some (reroot_entry e)" using split root e(1) by simp
      then show ?thesis unfolding tot using e Nil sub by (simp add: reroot_entry_def del: tot_simps)
    next
      case (Cons y ys')
      then have "?E t = Some e" using split other [of t] e(1) by auto
      then show ?thesis unfolding tot using e Cons sub by (simp del: tot_simps)
    qed
  qed
  obtain e where "E r = Some e" by (rule chain_okD [OF ch])
  then show "anc_ok ?E [] r" using root by (simp add: anc_ok_def reroot_entry_def)
qed

text \<open>The chains that the new roots lead, one for each root in the order of the roots.\<close>

lemma filter_cut:
  assumes "set ps \<subseteq> S" "set qs \<inter> S = {}"
  shows "filter (\<lambda>t. t \<notin> S) (ps @ qs) = qs"
proof -
  have "filter (\<lambda>t. t \<notin> S) ps = []" "filter (\<lambda>t. t \<notin> S) qs = qs"
    using assms by (auto simp: filter_empty_conv filter_id_conv)
  then show ?thesis by simp
qed

lemma cut_chains:
  assumes rs: "distinct rs" "\<And>r. r \<in> set rs \<longleftrightarrow> new_root cs S r" and cs: "distinct (concat cs)"
  obtains qss where "map hd qss = rs" "distinct (concat qss)"
    "\<And>qs. qs \<in> set qss \<Longrightarrow> \<exists>ps. ps @ qs \<in> set cs \<and> ps \<noteq> [] \<and> set ps \<subseteq> S \<and> qs \<noteq> [] \<and> set qs \<inter> S = {}"
    "\<And>ps r qs. ps @ r # qs \<in> set cs \<Longrightarrow> ps \<noteq> [] \<Longrightarrow> set ps \<subseteq> S \<Longrightarrow> set (r # qs) \<inter> S = {} \<Longrightarrow> r # qs \<in> set qss"
proof -
  have same: "xs = ys" if "xs \<in> set cs" "ys \<in> set cs" "t \<in> set xs" "t \<in> set ys" for xs ys t
    using that cs unfolding distinct_concat_iff by blast
  have "\<forall>r \<in> set rs. \<exists>ps qs. ps @ r # qs \<in> set cs \<and> ps \<noteq> [] \<and> set ps \<subseteq> S \<and> set (r # qs) \<inter> S = {}"
    using rs(2) unfolding new_root_def by simp
  then obtain P Q where PQ: "\<And>r. r \<in> set rs \<Longrightarrow> P r @ r # Q r \<in> set cs \<and> P r \<noteq> [] \<and> set (P r) \<subseteq> S \<and> set (r # Q r) \<inter> S = {}"
    by metis
  let ?qss = "map (\<lambda>r. r # Q r) rs"
  have inj: "r = r'" if r: "r \<in> set rs" "r' \<in> set rs" "t \<in> set (r # Q r)" "t \<in> set (r' # Q r')" for r r' t
  proof -
    have eq: "P r @ r # Q r = P r' @ r' # Q r'" using r PQ same [of _ _ t] by (metis UnCI set_append)
    have pre: "filter (\<lambda>x. x \<notin> S) (P x @ x # Q x) = x # Q x" if "x \<in> set rs" for x
      using PQ [OF that] by (intro filter_cut) blast+
    from arg_cong [OF eq, of "filter (\<lambda>x. x \<notin> S)"] show ?thesis unfolding pre [OF r(1)] pre [OF r(2)] by simp
  qed
  have "distinct (concat ?qss)"
    unfolding distinct_concat_iff
  proof (intro conjI ballI allI impI)
    have "removeAll [] ?qss = ?qss" by (induction rs) simp_all
    then show "distinct (removeAll [] ?qss)" using rs(1) by (simp add: distinct_map inj_on_def)
    fix ys assume "ys \<in> set ?qss"
    then obtain r where r: "r \<in> set rs" "ys = r # Q r" by auto
    then have "distinct (P r @ r # Q r)" using PQ cs unfolding distinct_concat_iff by blast
    then show "distinct ys" by (simp add: r(2))
  next
    fix ys zs assume "ys \<in> set ?qss \<and> zs \<in> set ?qss \<and> ys \<noteq> zs"
    then obtain r r' where "r \<in> set rs" "r' \<in> set rs" "ys = r # Q r" "zs = r' # Q r'" "r \<noteq> r'" by auto
    then show "set ys \<inter> set zs = {}" using inj [of r r'] by (metis disjoint_iff)
  qed
  moreover have "r # qs \<in> set ?qss"
    if x: "ps @ r # qs \<in> set cs" "ps \<noteq> []" "set ps \<subseteq> S" "set (r # qs) \<inter> S = {}" for ps r qs
  proof -
    have r: "r \<in> set rs" using x rs(2) unfolding new_root_def by blast
    have "ps @ r # qs = P r @ r # Q r" using PQ [OF r] x(1) same [of _ _ r] by auto
    from arg_cong [OF this, of "filter (\<lambda>t. t \<notin> S)"] have "r # qs = r # Q r"
      using filter_cut [OF x(3,4)] filter_cut [of "P r" S "r # Q r"] PQ [OF r] by simp
    with r show ?thesis by simp
  qed
  moreover have "map hd ?qss = rs" by (simp add: comp_def)
  moreover have "\<exists>ps. ps @ qs \<in> set cs \<and> ps \<noteq> [] \<and> set ps \<subseteq> S \<and> qs \<noteq> [] \<and> set qs \<inter> S = {}"
    if qs: "qs \<in> set ?qss" for qs
  proof -
    obtain r where "r \<in> set rs" "qs = r # Q r" using qs by auto
    then show ?thesis using PQ [of r] by blast
  qed
  ultimately show ?thesis by (intro that [of ?qss])
qed

subsection \<open>The block confirmed\<close>

lemma chain_whole_or_cut:
  assumes "ancestor_closed cs S" "xs \<in> set cs"
  obtains "filter (\<lambda>t. t \<notin> S) xs = []" | "filter (\<lambda>t. t \<notin> S) xs = xs" "set xs \<inter> S = {}"
    | ps r qs where "xs = ps @ r # qs" "filter (\<lambda>t. t \<notin> S) xs = r # qs" "ps \<noteq> []" "set ps \<subseteq> S" "set (r # qs) \<inter> S = {}"
proof -
  obtain ps qs where xs: "xs = ps @ qs" "set ps \<subseteq> S" "set qs \<inter> S = {}" using assms unfolding ancestor_closed_def by blast
  note f = filter_cut [OF xs(2,3), folded xs(1)]
  show ?thesis
  proof (cases "ps = []")
    case True
    then show ?thesis using that(2) f xs by simp
  next
    case False
    then show ?thesis using that(1,3) f xs by (cases qs) auto
  qed
qed

abbreviation cut_children :: "txid set \<Rightarrow> (txid \<rightharpoonup> txid) \<Rightarrow> txid \<rightharpoonup> txid" where
  "cut_children S C \<equiv> (\<lambda>t. if t \<in> S then None else C t)"

lemma mock_repr_same:
  assumes "mock_repr n cs" "xs \<in> set cs" "ys \<in> set cs" "t \<in> set xs" "t \<in> set ys"
  shows "xs = ys"
  using mock_reprD(3) [OF assms(1)] assms(2-) unfolding distinct_concat_iff by blast

text \<open>A chain that lost a prefix is ready for its repair.\<close>

lemma cut_head:
  assumes n: "mock_repr n cs" and cfg: "cfg_ok (mn_cfg n)"
    and ps: "ps @ qs \<in> set cs" "ps \<noteq> []" "set ps \<subseteq> S" "qs \<noteq> []" "set qs \<inter> S = {}"
    and E: "E = cut_entries S (new_root cs S) (al_get (mn_txs n))"
  shows "half_ok E (cut_children S (al_get (mn_children n))) qs \<and> anc_ok E [] (hd qs) \<and>
    tot me_vsize E qs < 2 ^ 64 \<and> tot base_of E qs < 2 ^ 64"
proof -
  note d = mock_reprD [OF n]
  obtain r qs' where r: "qs = r # qs'" using ps(4) by (cases qs) auto
  have dis: "distinct (ps @ qs)" using ps(1) d(3) unfolding distinct_concat_iff by blast
  have "new_root cs S r" using ps r unfolding new_root_def by blast
  moreover have "\<not> new_root cs S t" if t: "t \<in> set qs'" for t
  proof
    assume "new_root cs S t"
    then obtain us ws where u: "us @ t # ws \<in> set cs" "us \<noteq> []" "set us \<subseteq> S" "set (t # ws) \<inter> S = {}"
      unfolding new_root_def by blast
    have "us @ t # ws = ps @ qs" using mock_repr_same [OF n u(1) ps(1), of t] t r by simp
    then have "t # ws = qs" using filter_cut [OF u(3,4)] filter_cut [OF ps(3,5)] by simp
    with t r dis show False by simp
  qed
  ultimately have "half_ok E (cut_children S (al_get (mn_children n))) (r # qs')" "anc_ok E [] r"
    using cut_chain [OF d(6) [OF ps(1) [unfolded r]], of S "new_root cs S"] ps(5) dis unfolding r E by auto
  moreover have tot: "tot me_vsize E qs = tot me_vsize (al_get (mn_txs n)) qs" "tot base_of E qs = tot base_of (al_get (mn_txs n)) qs"
    unfolding E by (rule tot_cut [OF ps(5)]; simp)+
  have us: "set qs \<subseteq> set (concat cs)" "length qs \<le> chain_cap (mn_cfg n)" using ps(1) d(7) [OF ps(1)] by auto
  have "tot me_vsize E qs < 2 ^ 64" "tot base_of E qs < 2 ^ 64"
    using cfg_ok_fits [OF cfg chain_tot_le [OF n us], of 0 0] unfolding tot by simp_all
  ultimately show ?thesis using r by simp
qed

text \<open>After the repair of the cut chains every remaining chain is in order.\<close>

lemma cut_kept:
  assumes n: "mock_repr n cs" and closed: "ancestor_closed cs S" and xs: "xs \<in> set cs"
    and cut: "\<And>qs. qs \<in> set qss \<Longrightarrow> \<exists>ps. ps @ qs \<in> set cs \<and> ps \<noteq> [] \<and> set ps \<subseteq> S"
      "\<And>ps r qs. ps @ r # qs \<in> set cs \<Longrightarrow> ps \<noteq> [] \<Longrightarrow> set ps \<subseteq> S \<Longrightarrow> set (r # qs) \<inter> S = {} \<Longrightarrow> r # qs \<in> set qss"
    and fin: "\<And>qs. qs \<in> set qss \<Longrightarrow> chain_ok E (cut_children S (al_get (mn_children n))) qs"
    and out: "\<And>t. t \<notin> set (concat qss) \<Longrightarrow> E t = cut_entries S (new_root cs S) (al_get (mn_txs n)) t"
  shows "chain_ok E (cut_children S (al_get (mn_children n))) (filter (\<lambda>t. t \<notin> S) xs)"
  using chain_whole_or_cut [OF closed xs]
proof cases
  case 2
  have "al_get (mn_txs n) t = E t \<and> al_get (mn_children n) t = cut_children S (al_get (mn_children n)) t"
    if t: "t \<in> set xs" for t
  proof -
    have "\<not> (us @ t # ws \<in> set cs \<and> us \<noteq> [] \<and> set us \<subseteq> S)" for us ws
      using mock_repr_same [OF n _ xs, of "us @ t # ws" t] t 2(2) by (cases us) auto
    then have "\<not> new_root cs S t" unfolding new_root_def by blast
    moreover have "t \<notin> set (concat qss)"
    proof
      assume "t \<in> set (concat qss)"
      then obtain qs ps where q: "t \<in> set qs" "ps @ qs \<in> set cs" "ps \<noteq> []" "set ps \<subseteq> S" using cut(1) by fastforce
      then have "ps @ qs = xs" using mock_repr_same [OF n _ xs, of "ps @ qs" t] t by simp
      with q(3,4) 2(2) show False by (cases ps) auto
    qed
    ultimately show ?thesis using out [of t] t 2(2) by (auto simp: cut_entries_def)
  qed
  from chain_ok_cong [OF this mock_reprD(6) [OF n xs]] show ?thesis unfolding 2(1) .
next
  case (3 ps r qs)
  then show ?thesis using fin cut(2) [of ps r qs] xs by simp
qed simp

lemma cut_entry_ok:
  assumes n: "mock_repr n cs" and same: "same_but_anc (cut_entries S R (al_get (mn_txs n))) E" and e: "E t = Some e"
  shows "entry_ok (mn_cfg n) e"
proof -
  obtain e1 where e1: "cut_entries S R (al_get (mn_txs n)) t = Some e1" "erase_anc e1 = erase_anc e"
    using same e unfolding same_but_anc_def by (metis map_option_eq_Some)
  then obtain e0 where "al_get (mn_txs n) t = Some e0" "me_vsize e1 = me_vsize e0" "base_of e1 = base_of e0" "me_weight e1 = me_weight e0"
    by (auto simp: cut_entries_def reroot_entry_def split: if_splits)
  then show ?thesis using mock_reprD(8) [OF n] erase_anc_eqD [OF e1(2)] by (simp add: entry_ok_def)
qed

lemma confirm_set_repr:
  assumes n: "mock_repr n cs" and cfg: "cfg_ok (mn_cfg n)" and rand: "rand_ok rand"
    and closed: "ancestor_closed cs (set conf)"
  shows "\<exists>n'. confirm_set rand conf n = Some n' \<and> mock_repr n' (map (filter (\<lambda>t. t \<notin> set conf)) cs) \<and> churned n n'"
proof -
  note d = mock_reprD [OF n]
  let ?S = "set conf" and ?E = "al_get (mn_txs n)" and ?C = "al_get (mn_children n)" and ?R = "new_root cs (set conf)"
  define rs where "rs = rerooted rand conf n"
  have rs: "distinct rs" "r \<in> set rs \<longleftrightarrow> ?R r" for r
    using mock_keys_distinct [OF rand d(1)] rerooted_spec [OF n rand closed] by (simp_all add: rs_def rerooted_def)
  define txs where "txs = fold AList.delete conf (fold reroot_at rs (mn_txs n))"
  define children where "children = fold AList.delete conf (mn_children n)"
  have re: "al_ok (fold reroot_at rs (mn_txs n))"
      "al_get (fold reroot_at rs (mn_txs n)) t = (if ?R t then map_option reroot_entry (?E t) else ?E t)" for t
    using reroot_all [OF d(1) rs(1)] rs(2) by auto
  have txs: "al_ok txs" "al_get txs = cut_entries ?S ?R ?E"
    using al.ok_del_all [OF re(1)] al.get_del_all [OF re(1)] re(2) by (auto simp: txs_def cut_entries_def)
  have children: "al_ok children" "al_get children = cut_children ?S ?C"
    using al.ok_del_all [OF d(2)] al.get_del_all [OF d(2)] by (auto simp: children_def)
  obtain qss where qss: "map hd qss = rs" "distinct (concat qss)"
    "\<And>qs. qs \<in> set qss \<Longrightarrow> \<exists>ps. ps @ qs \<in> set cs \<and> ps \<noteq> [] \<and> set ps \<subseteq> ?S \<and> qs \<noteq> [] \<and> set qs \<inter> ?S = {}"
    "\<And>ps r qs. ps @ r # qs \<in> set cs \<Longrightarrow> ps \<noteq> [] \<Longrightarrow> set ps \<subseteq> ?S \<Longrightarrow> set (r # qs) \<inter> ?S = {} \<Longrightarrow> r # qs \<in> set qss"
    by (rule cut_chains [OF rs d(3)]) blast
  have "qs \<noteq> [] \<and> half_ok (al_get txs) (al_get children) qs \<and> anc_ok (al_get txs) [] (hd qs) \<and>
      tot me_vsize (al_get txs) qs < 2 ^ 64 \<and> tot base_of (al_get txs) qs < 2 ^ 64" if "qs \<in> set qss" for qs
    using qss(3) [OF that] cut_head [OF n cfg _ _ _ _ _ txs(2), of _ qs] unfolding children(2) by blast
  from repair_roots [OF txs(1) qss(2) this] obtain txs' where
    t: "fold_opt (repair_below children) (map hd qss) txs = Some txs'" "al_ok txs'" "same_but_anc (al_get txs) (al_get txs')"
      "\<And>qs. qs \<in> set qss \<Longrightarrow> chain_ok (al_get txs') (al_get children) qs"
      "\<And>t. t \<notin> set (concat qss) \<Longrightarrow> al_get txs' t = al_get txs t" by blast
  have dom: "al_get txs' t \<noteq> None \<longleftrightarrow> t \<in> set (concat cs) \<and> t \<notin> ?S" for t
  proof -
    have "al_get txs' t = None \<longleftrightarrow> al_get txs t = None"
      using t(3) unfolding same_but_anc_def by (metis option.map_disc_iff)
    moreover have "?E t \<noteq> None \<longleftrightarrow> t \<in> set (concat cs)" using d(4) by (metis domIff)
    ultimately show ?thesis by (simp add: txs(2) cut_entries_def)
  qed
  let ?cs = "map (filter (\<lambda>t. t \<notin> ?S)) cs" and ?n = "n\<lparr>mn_txs := txs', mn_children := children\<rparr>"
  have flat: "concat ?cs = filter (\<lambda>t. t \<notin> ?S) (concat cs)" by (simp add: filter_concat)
  have "mock_repr ?n ?cs"
    unfolding mock_repr_def
  proof (intro conjI ballI allI impI)
    show "distinct (concat ?cs)" unfolding flat using d(3) by (rule distinct_filter)
    show "dom (al_get (mn_txs ?n)) = set (concat ?cs)" unfolding flat using dom by (auto simp: dom_def)
    show "dom (al_get (mn_children ?n)) \<subseteq> set (concat ?cs)"
      unfolding flat using d(5) by (auto simp: children(2) dom_def split: if_splits)
    fix ys assume "ys \<in> set ?cs"
    then obtain xs where xs: "xs \<in> set cs" "ys = filter (\<lambda>t. t \<notin> ?S) xs" by auto
    show "length ys \<le> chain_cap (mn_cfg ?n)"
      using order_trans [OF length_filter_le d(7) [OF xs(1)]] xs(2) by simp
    have "chain_ok (al_get txs') (cut_children ?S ?C) (filter (\<lambda>t. t \<notin> ?S) xs)"
    proof (rule cut_kept [OF n closed xs(1) _ qss(4)])
      show "\<exists>ps. ps @ qs \<in> set cs \<and> ps \<noteq> [] \<and> set ps \<subseteq> ?S" if "qs \<in> set qss" for qs using qss(3) [OF that] by blast
    qed (use t(4,5) in \<open>simp_all add: txs(2) children(2) del: set_concat\<close>)
    then show "chain_ok (al_get (mn_txs ?n)) (al_get (mn_children ?n)) ys" by (simp add: children(2) xs(2))
  next
    fix t' e assume "al_get (mn_txs ?n) t' = Some e"
    then show "entry_ok (mn_cfg ?n) e" using cut_entry_ok [OF n t(3) [unfolded txs(2)]] by simp
  qed (use t(2) children(1) in simp_all)
  moreover have "confirm_set rand conf n = Some ?n"
    using t(1) by (simp add: confirm_set_def Let_def rs_def [symmetric] txs_def [symmetric] children_def [symmetric] qss(1))
  ultimately show ?thesis by (simp add: churned_def)
qed

end
