(* ===== verification/Sim_Block.thy ===== *)
theory Sim_Block
  imports Sim_Confirm
begin

text \<open>
  The selection of a simulated block and \<open>mine_block\<close> as a whole: what is confirmed fits
  \<open>BLOCK_WEIGHT\<close> and contains every ancestor of what it contains.
\<close>

subsection \<open>Sums of weights\<close>

lemma unat_sum_list_u64: "sum_list (map unat ws) < 2 ^ 64 \<Longrightarrow> unat (sum_list ws :: u64) = sum_list (map unat ws)"
  by (induction ws) (simp_all add: unat_add_u64)

lemma fold_insert_rev: "distinct xs \<Longrightarrow> set xs \<inter> set ys = {} \<Longrightarrow> fold List.insert xs ys = rev xs @ ys"
  by (induction xs arbitrary: ys) auto

lemma entry_weight_le:
  assumes "entry_ok cfg e"
  shows "unat (entry_weight e) \<le> 400000"
proof -
  have v: "unat (me_vsize e) \<le> 100000" "entry_weight e = me_vsize e * 4" using entry_okD [OF assms] by (simp_all add: entry_weight_def)
  then show ?thesis by (simp add: unat_word_ariths)
qed

abbreviation mock_weight :: "'r mock_node \<Rightarrow> txid list \<Rightarrow> nat" where
  "mock_weight n \<equiv> tot entry_weight (al_get (mn_txs n))"

lemma package_weight:
  assumes n: "mock_repr n cs" and cfg: "cfg_ok (mn_cfg n)"
    and us: "set us \<subseteq> set (concat cs)" "length us \<le> chain_cap (mn_cfg n)"
  shows "\<exists>ws. those (map (\<lambda>x. map_option entry_weight (al_get (mn_txs n) x)) us) = Some ws \<and>
    unat (sum_list ws) = mock_weight n us \<and> mock_weight n us < 2 ^ 63"
proof -
  let ?w = "\<lambda>x. entry_weight (the (al_get (mn_txs n) x))"
  have here: "\<exists>e. al_get (mn_txs n) x = Some e" if "x \<in> set us" for x
    using that us(1) mock_reprD(4) [OF n] by (auto simp: dom_def)
  have "those (map (\<lambda>x. map_option entry_weight (al_get (mn_txs n) x)) us) = Some (map ?w us)"
    using here by (intro those_map_Some) fastforce
  note those = this
  have tot: "mock_weight n us = sum_list (map unat (map ?w us))"
    unfolding tot_def by (rule arg_cong [where f = sum_list]) (use here in fastforce)
  have "mock_weight n us \<le> length us * 400000"
    by (rule tot_le) (use entry_weight_le mock_reprD(8) [OF n] in blast)
  also have "\<dots> \<le> chain_cap (mn_cfg n) * 400000" using us(2) by (rule mult_le_mono1)
  also have "\<dots> < 2 ^ 63" using cfg by (simp add: cfg_ok_def distrib_left)
  finally have lt: "mock_weight n us < 2 ^ 63" .
  then have "unat (sum_list (map ?w us)) = mock_weight n us" unfolding tot by (intro unat_sum_list_u64) simp
  with lt those show ?thesis by blast
qed

text \<open>A transaction with its ancestors, and the weight of a set.\<close>

definition family :: "'r mock_node \<Rightarrow> txid \<Rightarrow> txid set" where
  "family n t = set (t # the (ancestors_of (mn_txs n) t))"

definition set_weight :: "'r mock_node \<Rightarrow> txid set \<Rightarrow> nat" where
  "set_weight n S = (\<Sum>x \<in> S. unat (entry_weight (the (al_get (mn_txs n) x))))"

lemma set_weight_list:
  assumes "distinct xs" "set xs \<subseteq> dom (al_get (mn_txs n))"
  shows "set_weight n (set xs) = mock_weight n xs"
proof -
  have "set_weight n (set xs) = sum_list (map (\<lambda>x. unat (entry_weight (the (al_get (mn_txs n) x)))) xs)"
    using assms(1) by (simp add: set_weight_def sum_list_distinct_conv_sum_set)
  also have "\<dots> = mock_weight n xs"
    unfolding tot_def by (rule arg_cong [where f = sum_list]) (use assms(2) in fastforce)
  finally show ?thesis .
qed

subsection \<open>The selection\<close>

text \<open>What holds of the weight used and the set confirmed at every turn of the loop.\<close>

definition selection_ok :: "'r mock_node \<Rightarrow> txid list list \<Rightarrow> u64 \<times> txid list \<Rightarrow> bool" where
  "selection_ok n cs = (\<lambda>(used, conf). distinct conf \<and> set conf \<subseteq> set (concat cs) \<and> ancestor_closed cs (set conf) \<and>
     unat used = mock_weight n conf \<and> mock_weight n conf \<le> 4000000)"

lemma closed_extend:
  assumes n: "mock_repr n cs" and closed: "ancestor_closed cs S" and xs: "ys @ t # zs \<in> set cs" and t: "t \<notin> S"
  shows "ancestor_closed cs (S \<union> set ys \<union> {t})"
  unfolding ancestor_closed_def
proof
  fix us assume us: "us \<in> set cs"
  obtain ps qs where split: "us = ps @ qs" "set ps \<subseteq> S" "set qs \<inter> S = {}" using closed us unfolding ancestor_closed_def by blast
  show "\<exists>ps qs. us = ps @ qs \<and> set ps \<subseteq> S \<union> set ys \<union> {t} \<and> set qs \<inter> (S \<union> set ys \<union> {t}) = {}"
  proof (cases "us = ys @ t # zs")
    case True
    have dis: "distinct (ys @ t # zs)" using xs mock_reprD(3) [OF n] unfolding distinct_concat_iff by blast
    have "set zs \<inter> S = {}"
    proof -
      have "ps @ qs = ys @ t # zs" using split(1) True by simp
      then consider us where "ps = ys @ t # us" | us where "qs = us @ t # zs"
        by (auto simp: append_eq_append_conv2 Cons_eq_append_conv append_eq_Cons_conv)
      then show ?thesis
      proof cases
        case 1
        then show ?thesis using split(2) t by auto
      next
        case 2
        then show ?thesis using split(3) by auto
      qed
    qed
    then show ?thesis using dis True by (intro exI [of _ "ys @ [t]"] exI [of _ zs]) auto
  next
    case False
    then have "set us \<inter> set (ys @ t # zs) = {}" using mock_repr_same [OF n us xs] by blast
    with split show ?thesis by (intro exI [of _ ps] exI [of _ qs]) auto
  qed
qed

lemma mine_one_ok:
  assumes n: "mock_repr n cs" and cfg: "cfg_ok (mn_cfg n)" and inv: "selection_ok n cs s" and t: "t \<in> set (concat cs)"
  shows "\<exists>s'. mine_one (mn_txs n) (r, t) s = Some s' \<and> selection_ok n cs s' \<and>
    (t \<in> set (snd s') \<and> set (snd s) \<subseteq> set (snd s') \<and> set (snd s') \<subseteq> set (snd s) \<union> family n t \<or>
     snd s' = snd s \<and> 4000000 < set_weight n (set (snd s) \<union> family n t))"
proof -
  obtain used conf where s: "s = (used, conf)" by force
  note d = mock_reprD [OF n]
  have inv': "distinct conf" "set conf \<subseteq> set (concat cs)" "ancestor_closed cs (set conf)"
      "unat used = mock_weight n conf" "mock_weight n conf \<le> 4000000" using inv by (simp_all add: selection_ok_def s)
  show ?thesis
  proof (cases "t \<in> set conf")
    case True
    then show ?thesis using inv by (auto simp: mine_one_def s)
  next
    case False
    have "al_get (mn_txs n) t \<noteq> None" using t d(4) by auto
    then obtain cs1 ys zs cs2 where cs: "cs = cs1 @ (ys @ t # zs) # cs2" by (rule mock_repr_split [OF n])
    then have xs: "ys @ t # zs \<in> set cs" by simp
    have anc: "ancestors_of (mn_txs n) t = Some (rev ys)" by (rule ancestors_of_chain [OF chain_ok_up [OF d(6) [OF xs]]])
    define pkg where "pkg = t # filter (\<lambda>a. a \<notin> set conf) (rev ys)"
    have dis: "distinct (ys @ t # zs)" using xs d(3) unfolding distinct_concat_iff by blast
    have family: "family n t = insert t (set ys)" using anc by (simp add: family_def)
    have pkg: "distinct pkg" "set pkg \<inter> set conf = {}" "set pkg \<union> set conf = set conf \<union> set ys \<union> {t}"
      using dis False by (auto simp: pkg_def)
    have sub: "set pkg \<subseteq> set (concat cs)" using xs unfolding set_concat pkg_def by (intro subsetI UN_I [OF xs]) auto
    have "length pkg \<le> length (ys @ t # zs)" using length_filter_le [of "\<lambda>a. a \<notin> set conf" "rev ys"] by (simp add: pkg_def)
    then have len: "length pkg \<le> chain_cap (mn_cfg n)" using d(7) [OF xs] by linarith
    obtain ws where ws: "those (map (\<lambda>x. map_option entry_weight (al_get (mn_txs n) x)) pkg) = Some ws"
        "unat (sum_list ws) = mock_weight n pkg" "mock_weight n pkg < 2 ^ 63" using package_weight [OF n cfg sub len] by blast
    have run: "mine_one (mn_txs n) (r, t) s = (if BLOCK_WEIGHT < used + sum_list ws then Some (used, conf)
        else Some (used + sum_list ws, fold List.insert pkg conf))"
      using False anc ws(1) by (simp add: mine_one_def s pkg_def)
    have w: "unat (used + sum_list ws) = mock_weight n conf + mock_weight n pkg"
      using inv'(4,5) ws(2,3) by (subst unat_add_u64) simp_all
    show ?thesis
    proof (cases "BLOCK_WEIGHT < used + sum_list ws")
      case True
      have "set conf \<union> family n t = set (pkg @ conf)" using pkg(3) unfolding family by auto
      moreover have "set_weight n (set (pkg @ conf)) = mock_weight n (pkg @ conf)"
        using pkg(1,2) inv'(1,2) sub d(4) by (intro set_weight_list) auto
      ultimately have "4000000 < set_weight n (set conf \<union> family n t)"
        using True w by (simp add: BLOCK_WEIGHT_def word_less_nat_alt)
      then show ?thesis using run inv s True by simp
    next
      case fits: False
      have new: "fold List.insert pkg conf = rev pkg @ conf" by (rule fold_insert_rev [OF pkg(1,2)])
      have rev: "mock_weight n (rev pkg) = mock_weight n pkg" by (simp add: tot_def rev_map [symmetric] sum_list_rev)
      have "mock_weight n conf + mock_weight n pkg \<le> 4000000"
        using fits w by (simp add: BLOCK_WEIGHT_def not_less word_le_nat_alt)
      moreover have "ancestor_closed cs (set (rev pkg @ conf))"
        using closed_extend [OF n inv'(3) xs False] pkg(3) by simp
      ultimately have "selection_ok n cs (used + sum_list ws, rev pkg @ conf)"
        using pkg(1,2) inv'(1,2) sub w rev by (auto simp: selection_ok_def)
      then show ?thesis using run fits new pkg(3) family s by (auto simp: pkg_def)
    qed
  qed
qed

text \<open>
  The loop as a whole, after the transactions \<open>ts\<close>: what is confirmed belongs to the family of a confirmed
  transaction of \<open>ts\<close>, and whoever of \<open>ts\<close> was left out did not fit beside families of earlier ones.
\<close>

definition drawn_from :: "'r mock_node \<Rightarrow> txid list \<Rightarrow> txid set \<Rightarrow> txid set \<Rightarrow> bool" where
  "drawn_from n ts conf C \<longleftrightarrow> C \<subseteq> conf \<and> (\<forall>c \<in> C. \<exists>s \<in> set ts \<inter> conf. c \<in> family n s)"

definition filled :: "'r mock_node \<Rightarrow> txid list \<Rightarrow> txid set \<Rightarrow> bool" where
  "filled n ts conf \<longleftrightarrow> drawn_from n ts conf conf \<and>
     (\<forall>ps t zs. ts = ps @ t # zs \<longrightarrow> t \<notin> conf \<longrightarrow>
       (\<exists>C. drawn_from n ps conf C \<and> 4000000 < set_weight n (C \<union> family n t)))"

lemma drawn_from_mono: "drawn_from n ts conf C \<Longrightarrow> set ts \<subseteq> set ts' \<Longrightarrow> conf \<subseteq> conf' \<Longrightarrow> drawn_from n ts' conf' C"
  unfolding drawn_from_def by blast

lemma filled_snoc:
  assumes old: "filled n ts conf"
    and new: "t \<in> conf' \<and> conf \<subseteq> conf' \<and> conf' \<subseteq> conf \<union> family n t \<or> conf' = conf \<and> 4000000 < set_weight n (conf \<union> family n t)"
  shows "filled n (ts @ [t]) conf'"
proof -
  have conf: "drawn_from n ts conf conf" using old by (simp add: filled_def)
  have sub: "conf \<subseteq> conf'" using new by blast
  have "drawn_from n (ts @ [t]) conf' conf'"
    using new drawn_from_mono [OF conf, of "ts @ [t]" conf'] unfolding drawn_from_def by auto
  moreover have "\<exists>C. drawn_from n ps conf' C \<and> 4000000 < set_weight n (C \<union> family n u)"
    if split: "ts @ [t] = ps @ u # zs" and u: "u \<notin> conf'" for ps u zs
  proof (cases zs rule: rev_cases)
    case Nil
    then have "ps = ts" "u = t" using split by simp_all
    then show ?thesis using new u conf by auto
  next
    case (snoc zs' z)
    then have "ts = ps @ u # zs'" using split by simp
    moreover have "u \<notin> conf" using u sub by blast
    ultimately obtain C where "drawn_from n ps conf C" "4000000 < set_weight n (C \<union> family n u)"
      using old unfolding filled_def by blast
    then show ?thesis using drawn_from_mono [of n ps conf C ps conf'] sub by blast
  qed
  ultimately show ?thesis unfolding filled_def by blast
qed

lemma fill_loop:
  assumes n: "mock_repr n cs" and cfg: "cfg_ok (mn_cfg n)" and xs: "snd ` set xs \<subseteq> set (concat cs)"
  shows "\<exists>s. fold_opt (mine_one (mn_txs n)) xs (0, []) = Some s \<and> selection_ok n cs s \<and> filled n (map snd xs) (set (snd s))"
  using xs
proof (induction xs rule: rev_induct)
  case Nil
  have "selection_ok n cs (0, [])" by (auto simp: selection_ok_def ancestor_closed_def)
  then show ?case by (simp add: filled_def drawn_from_def)
next
  case (snoc x xs)
  then obtain s where s: "fold_opt (mine_one (mn_txs n)) xs (0, []) = Some s" "selection_ok n cs s"
      "filled n (map snd xs) (set (snd s))" by auto
  have "snd x \<in> set (concat cs)" using snoc.prems by auto
  from mine_one_ok [OF n cfg s(2) this, of "fst x"] obtain s' where
    s': "mine_one (mn_txs n) x s = Some s'" "selection_ok n cs s'"
      "snd x \<in> set (snd s') \<and> set (snd s) \<subseteq> set (snd s') \<and> set (snd s') \<subseteq> set (snd s) \<union> family n (snd x) \<or>
       set (snd s') = set (snd s) \<and> 4000000 < set_weight n (set (snd s) \<union> family n (snd x))" by auto
  have "filled n (map snd (xs @ [x])) (set (snd s'))" using filled_snoc [OF s(3) s'(3)] by simp
  then show ?case using s(1) s'(1,2) by (simp add: fold_opt_append)
qed

text \<open>The ranking puts the higher rates first.\<close>

definition by_rate :: "'r mock_node \<Rightarrow> txid list \<Rightarrow> bool" where
  "by_rate n ts \<longleftrightarrow> sorted_wrt (\<lambda>s t. the (effective_rate (mn_txs n) t) \<le> the (effective_rate (mn_txs n) s)) ts"

lemma ranked_by_rate: "by_rate n (map snd (ranked (map (\<lambda>t. (the (effective_rate (mn_txs n) t), t)) ks)))"
proof -
  let ?R = "ranked (map (\<lambda>t. (the (effective_rate (mn_txs n) t), t)) ks)"
  have "sorted (map (\<lambda>(r, t). (- uint r, t)) ?R)" unfolding ranked_def by (rule sorted_sort_key)
  then have "sorted_wrt (\<lambda>x y. (\<lambda>(r, t). (- uint r, t)) x \<le> (\<lambda>(r, t). (- uint r, t)) y) ?R" by (simp only: sorted_map)
  moreover have "fst x = the (effective_rate (mn_txs n) (snd x))" if "x \<in> set ?R" for x
    using that by (auto simp: ranked_def)
  ultimately have "sorted_wrt (\<lambda>x y. the (effective_rate (mn_txs n) (snd y)) \<le> the (effective_rate (mn_txs n) (snd x))) ?R"
    by (elim sorted_wrt_mono_rel [rotated]) (auto simp: word_le_def split_def)
  then show ?thesis by (simp add: by_rate_def sorted_wrt_map)
qed

lemma select_block_ok:
  assumes n: "mock_repr n cs" and cfg: "cfg_ok (mn_cfg n)" and rand: "rand_ok rand"
  shows "\<exists>s ts. select_block rand n = Some s \<and> selection_ok n cs s \<and> filled n ts (set (snd s)) \<and> set ts = set (concat cs) \<and> by_rate n ts"
proof -
  have keys: "set (mock_keys rand n) = set (concat cs)" using set_mock_keys [OF rand] mock_reprD(4) [OF n] by metis
  let ?rate = "\<lambda>t. (the (effective_rate (mn_txs n) t), t)"
  have "those (map (\<lambda>t. map_option (\<lambda>r. (r, t)) (effective_rate (mn_txs n) t)) (mock_keys rand n)) = Some (map ?rate (mock_keys rand n))"
  proof (rule those_map_Some)
    fix t assume "t \<in> set (mock_keys rand n)"
    then have "al_get (mn_txs n) t \<noteq> None" using set_mock_keys [OF rand] by (metis domIff)
    then show "map_option (\<lambda>r. (r, t)) (effective_rate (mn_txs n) t) = Some (?rate t)" by (auto simp: effective_rate_def)
  qed
  then have run: "select_block rand n = fold_opt (mine_one (mn_txs n)) (ranked (map ?rate (mock_keys rand n))) (0, [])"
    by (simp add: select_block_def)
  have set: "snd ` set (ranked (map ?rate (mock_keys rand n))) = set (concat cs)"
    unfolding keys [symmetric] by (force simp: ranked_def)
  from fill_loop [OF n cfg, of "ranked (map ?rate (mock_keys rand n))"] set obtain s where
    "select_block rand n = Some s" "selection_ok n cs s" "filled n (map snd (ranked (map ?rate (mock_keys rand n)))) (set (snd s))"
    unfolding run by blast
  then show ?thesis using set ranked_by_rate [of n "mock_keys rand n"]
    by (intro exI [of _ s] exI [of _ "map snd (ranked (map ?rate (mock_keys rand n)))"]) simp
qed

subsection \<open>Mining\<close>

text \<open>Why \<open>t\<close> stays in the mempool: transactions of the block that belong to families ranked no lower leave its
  family no room.\<close>

definition outbid :: "'r mock_node \<Rightarrow> txid set \<Rightarrow> txid \<Rightarrow> bool" where
  "outbid n conf t \<longleftrightarrow> (\<exists>C \<subseteq> conf. 4000000 < set_weight n (C \<union> family n t) \<and>
     (\<forall>c \<in> C. \<exists>s \<in> conf. c \<in> family n s \<and> the (effective_rate (mn_txs n) t) \<le> the (effective_rate (mn_txs n) s)))"

lemma filled_outbid:
  assumes "filled n ts conf" "t \<in> set ts" "t \<notin> conf" "by_rate n ts"
  shows "outbid n conf t"
proof -
  obtain ps zs where ts: "ts = ps @ t # zs" using assms(2) by (meson split_list)
  then obtain C where "drawn_from n ps conf C" "4000000 < set_weight n (C \<union> family n t)"
    using assms(1,3) unfolding filled_def by blast
  moreover have "the (effective_rate (mn_txs n) t) \<le> the (effective_rate (mn_txs n) s)" if "s \<in> set ps" for s
    using assms(4) that unfolding ts by_rate_def by (simp add: sorted_wrt_append)
  ultimately show ?thesis unfolding outbid_def drawn_from_def by (intro exI [of _ C]) blast
qed

lemma mine_block_repr:
  assumes n: "mock_repr n cs" and cfg: "cfg_ok (mn_cfg n)" and rand: "rand_ok rand"
  shows "\<exists>n' used conf. select_block rand (n\<lparr>mn_tip_height := mn_tip_height n + 1\<rparr>) = Some (used, conf) \<and>
    selection_ok n cs (used, conf) \<and> mine_block rand n = Some n' \<and>
    mock_repr n' (map (filter (\<lambda>t. t \<notin> set conf)) cs) \<and> churned (n\<lparr>mn_tip_height := mn_tip_height n + 1\<rparr>) n' \<and>
    (\<forall>t \<in> set (concat cs) - set conf. outbid n (set conf) t)"
proof -
  let ?n = "n\<lparr>mn_tip_height := mn_tip_height n + 1\<rparr>"
  have n1: "mock_repr ?n cs" "cfg_ok (mn_cfg ?n)" using n cfg by (simp_all add: mock_repr_def)
  obtain used conf ts where s: "select_block rand ?n = Some (used, conf)" "selection_ok ?n cs (used, conf)"
      "filled ?n ts (set conf)" "set ts = set (concat cs)" "by_rate ?n ts"
    using select_block_ok [OF n1 rand] by auto
  have "outbid ?n (set conf) t" if "t \<in> set (concat cs) - set conf" for t
    using filled_outbid [OF s(3) _ _ s(5), of t] that unfolding s(4) by blast
  then have "outbid n (set conf) t" if "t \<in> set (concat cs) - set conf" for t
    using that by (simp add: outbid_def set_weight_def family_def)
  moreover have "ancestor_closed cs (set conf)" using s(2) by (simp add: selection_ok_def)
  from confirm_set_repr [OF n1 rand this] obtain n' where
    "confirm_set rand conf ?n = Some n'" "mock_repr n' (map (filter (\<lambda>t. t \<notin> set conf)) cs)" "churned ?n n'" by blast
  moreover have "selection_ok n cs (used, conf)" using s(2) by (simp add: selection_ok_def)
  ultimately show ?thesis using s(1) by (simp add: mine_block_def Let_def)
qed

end
