(* ===== verification/Sim_Props.thy ===== *)
theory Sim_Props
  imports Sim_Block
begin

text \<open>
  The simulated node over its whole life: \<open>mock_reach\<close> collects the states that \<open>new\<close>, \<open>advance\<close>,
  \<open>mass_drop\<close>, \<open>reload\<close> and \<open>mine_block\<close> lead to in any order, as long as the 256-bit ids drawn do not
  collide with a transaction of the mempool.  The theorems hold for every source of random numbers
  within the documented ranges (\<open>rand_ok\<close>) and every iteration order of the hash maps.
\<close>

subsection \<open>Reachable nodes\<close>

definition mock_empty :: "'r \<Rightarrow> churn_config \<Rightarrow> 'r mock_node" where
  "mock_empty seeded cfg =
     \<lparr>mn_txs = [], mn_children = [], mn_tip_height = 800000, mn_min_fee = 1000, mn_reloading = False,
      mn_rng = seeded, mn_cfg = cfg\<rparr>"

definition fresh_advance :: "'r rand \<Rightarrow> 'r mock_node \<Rightarrow> bool" where
  "fresh_advance rand n =
     (case evict rand (cc_evictions_per_tick (mn_cfg n)) (n\<lparr>mn_reloading := False\<rparr>) of
        Some m \<Rightarrow> fresh_arrivals rand (cc_arrivals_per_tick (mn_cfg n)) m
      | None \<Rightarrow> True)"

inductive mock_reach :: "'r rand \<Rightarrow> churn_config \<Rightarrow> 'r mock_node \<Rightarrow> bool" for rand cfg where
  mock_new: "fresh_arrivals rand k (mock_empty seeded cfg) \<Longrightarrow> mock_node_new rand seeded k cfg = Some n \<Longrightarrow> mock_reach rand cfg n"
| mock_advance: "mock_reach rand cfg n \<Longrightarrow> fresh_advance rand n \<Longrightarrow> advance rand n = Some n' \<Longrightarrow> mock_reach rand cfg n'"
| mock_mass_drop: "mock_reach rand cfg n \<Longrightarrow> mass_drop rand fraction n = Some n' \<Longrightarrow> mock_reach rand cfg n'"
| mock_reload: "mock_reach rand cfg n \<Longrightarrow> mock_reach rand cfg (reload n)"
| mock_mine: "mock_reach rand cfg n \<Longrightarrow> mine_block rand n = Some n' \<Longrightarrow> mock_reach rand cfg n'"

subsection \<open>Each operation\<close>

lemma new_repr:
  assumes "cfg_ok cfg" "rand_ok rand" "fresh_arrivals rand k (mock_empty seeded cfg)"
  shows "\<exists>n cs. mock_node_new rand seeded k cfg = Some n \<and> mock_repr n cs \<and> mn_cfg n = cfg \<and> length (concat cs) = k"
proof -
  have "mock_repr (mock_empty seeded cfg) []" by (simp add: mock_repr_def mock_empty_def al.ok_empty al.get_empty dom_def)
  from add_arrivals_repr [OF this _ assms(2,3)] assms(1) show ?thesis
    by (auto simp: mock_node_new_def mock_empty_def churned_def)
qed

lemma advance_repr:
  assumes n: "mock_repr n cs" and cfg: "cfg_ok (mn_cfg n)" and rand: "rand_ok rand" and fresh: "fresh_advance rand n"
  shows "\<exists>n' cs'. advance rand n = Some n' \<and> mock_repr n' cs' \<and> churned (n\<lparr>mn_reloading := False\<rparr>) n' \<and>
    length (concat cs') = (length (concat cs) - cc_evictions_per_tick (mn_cfg n)) + cc_arrivals_per_tick (mn_cfg n) \<and>
    card (set (concat cs') - set (concat cs)) \<le> cc_arrivals_per_tick (mn_cfg n)"
proof -
  let ?n = "n\<lparr>mn_reloading := False\<rparr>"
  have "mock_repr ?n cs" using n by (simp add: mock_repr_def)
  from evict_repr [OF this rand, of "cc_evictions_per_tick (mn_cfg n)"] obtain m cs1 where
    m: "evict rand (cc_evictions_per_tick (mn_cfg n)) ?n = Some m" "mock_repr m cs1" "churned ?n m"
      "length (concat cs1) = length (concat cs) - cc_evictions_per_tick (mn_cfg n)" "set (concat cs1) \<subseteq> set (concat cs)" by blast
  have same: "mn_cfg m = mn_cfg n" using m(3) by (simp add: churned_def)
  from add_arrivals_repr [OF m(2) _ rand, of "cc_arrivals_per_tick (mn_cfg n)"] obtain n' cs' B where
    n': "add_arrivals rand (cc_arrivals_per_tick (mn_cfg n)) m = Some n'" "mock_repr n' cs'" "churned m n'"
      "length (concat cs') = length (concat cs1) + cc_arrivals_per_tick (mn_cfg n)"
      "card B \<le> cc_arrivals_per_tick (mn_cfg n)" "finite B" "set (concat cs') \<subseteq> set (concat cs1) \<union> B"
    using fresh m(1) cfg same by (auto simp: fresh_advance_def)
  have "advance rand n = Some n'" using n'(1) m(1) same by (simp add: advance_def)
  moreover have "set (concat cs') - set (concat cs) \<subseteq> B" using n'(7) m(5) by blast
  then have "card (set (concat cs') - set (concat cs)) \<le> cc_arrivals_per_tick (mn_cfg n)"
    using card_mono [OF n'(6)] n'(5) by (meson le_trans)
  ultimately show ?thesis using n'(2,4) m(4) churned_trans [OF m(3) n'(3)] by metis
qed

lemma mass_drop_repr:
  assumes "mock_repr n cs" "rand_ok rand"
  shows "\<exists>n' cs'. mass_drop rand fraction n = Some n' \<and> mock_repr n' cs' \<and> churned n n' \<and>
    length (concat cs') = length (concat cs) -
      f64_as_nat usize_max (f64_mul (f64_round (of_nat (length (concat cs)))) fraction) \<and>
    set (concat cs') \<subseteq> set (concat cs)"
  using evict_repr [OF assms] unfolding mass_drop_def mock_repr_length [OF assms(1)] by blast

lemma mock_reach_repr:
  assumes "mock_reach rand cfg n" "cfg_ok cfg" "rand_ok rand"
  shows "(\<exists>cs. mock_repr n cs) \<and> mn_cfg n = cfg"
  using assms(1)
proof induction
  case (mock_new k seeded n)
  from new_repr [OF assms(2,3) mock_new(1)] mock_new(2) show ?case by auto
next
  case (mock_advance n n')
  then obtain cs where "mock_repr n cs" "mn_cfg n = cfg" by blast
  from advance_repr [OF this(1) _ assms(3) mock_advance.hyps(2)] this(2) assms(2) mock_advance.hyps(3)
  show ?case by (auto simp: churned_def)
next
  case (mock_mass_drop n fraction n')
  then obtain cs where "mock_repr n cs" "mn_cfg n = cfg" by blast
  from mass_drop_repr [OF this(1) assms(3), of fraction] this(2) mock_mass_drop.hyps(2)
  show ?case by (auto simp: churned_def)
next
  case (mock_reload n)
  then show ?case by (auto simp: reload_def mock_repr_def)
next
  case (mock_mine n n')
  then obtain cs where "mock_repr n cs" "mn_cfg n = cfg" by blast
  from mine_block_repr [OF this(1) _ assms(3)] this(2) assms(2) mock_mine.hyps(2)
  show ?case by (auto simp: churned_def)
qed

lemma mock_reachE:
  assumes "mock_reach rand cfg n" "cfg_ok cfg" "rand_ok rand"
  obtains cs where "mock_repr n cs" "mn_cfg n = cfg"
  using mock_reach_repr [OF assms] by blast

text \<open>An entry in its chain, which a closed set cuts into a confirmed and a surviving part.\<close>

lemma closed_split:
  assumes n: "mock_repr n cs" and closed: "ancestor_closed cs S" and e: "al_get (mn_txs n) t = Some e"
  obtains ps qs ys zs where "ps @ qs = ys @ t # zs" "ps @ qs \<in> set cs" "set ps \<subseteq> S" "set qs \<inter> S = {}"
    "me_depends e = (if ys = [] then [] else [last ys])"
proof -
  have "al_get (mn_txs n) t \<noteq> None" using e by simp
  then obtain cs1 ys zs cs2 where "cs = cs1 @ (ys @ t # zs) # cs2" by (rule mock_repr_split [OF n])
  then have xs: "ys @ t # zs \<in> set cs" by simp
  obtain ps qs where "ys @ t # zs = ps @ qs" "set ps \<subseteq> S" "set qs \<inter> S = {}"
    using closed xs unfolding ancestor_closed_def by blast
  moreover have "me_depends e = (if ys = [] then [] else [last ys])"
    using chain_okD [OF mock_reprD(6) [OF n xs]] e by (metis option.inject)
  ultimately show ?thesis using xs that by metis
qed

lemma confirmed_parents:
  assumes n: "mock_repr n cs" and closed: "ancestor_closed cs S" and t: "t \<in> S" "al_get (mn_txs n) t = Some e"
  shows "set (me_depends e) \<subseteq> S"
proof -
  obtain ps qs ys zs where x: "ps @ qs = ys @ t # zs" "set ps \<subseteq> S" "set qs \<inter> S = {}"
      "me_depends e = (if ys = [] then [] else [last ys])" by (rule closed_split [OF n closed t(2)])
  then have "set ys \<subseteq> set ps" using t(1) by (auto simp: append_eq_append_conv2 append_eq_Cons_conv Cons_eq_append_conv)
  with x(2) have "last ys \<in> S" if "ys \<noteq> []" using last_in_set [OF that] by blast
  then show ?thesis using x(4) by simp
qed

lemma surviving_depends:
  assumes n: "mock_repr n cs" and closed: "ancestor_closed cs S" and n': "mock_repr n' (map (filter (\<lambda>t. t \<notin> S)) cs)"
    and t: "al_get (mn_txs n) t = Some e" "al_get (mn_txs n') t = Some e'" "t \<notin> S"
  shows "me_depends e' = filter (\<lambda>p. p \<notin> S) (me_depends e)"
proof -
  obtain ps qs ys zs where x: "ps @ qs = ys @ t # zs" "ps @ qs \<in> set cs" "set ps \<subseteq> S" "set qs \<inter> S = {}"
      "me_depends e = (if ys = [] then [] else [last ys])" by (rule closed_split [OF n closed t(1)])
  obtain us where us: "ys = ps @ us" "qs = us @ t # zs"
    using x(1,3) t(3) by (auto simp: append_eq_append_conv2 append_eq_Cons_conv Cons_eq_append_conv)
  have "qs \<in> set (map (filter (\<lambda>t. t \<notin> S)) cs)" using x(2) filter_cut [OF x(3,4)] by (metis image_eqI set_map)
  then have "chain_ok (al_get (mn_txs n')) (al_get (mn_children n')) (us @ t # zs)"
    using mock_reprD(6) [OF n'] us(2) by simp
  then have "me_depends e' = (if us = [] then [] else [last us])" using chain_okD t(2) by (metis option.inject)
  then show ?thesis using x(3,4,5) us by (cases us rule: rev_cases; cases ps rule: rev_cases) auto
qed

text \<open>The rate an entry pays on its own.\<close>

lemma entry_own_rate:
  assumes "entry_ok cfg e"
  shows "rate_allowed cfg (unat (own_rate_sat_vb e)) \<and> unat (base_of e) = unat (own_rate_sat_vb e) * unat (me_vsize e)"
proof -
  obtain r where r: "rate_allowed cfg r" "unat (base_of e) = r * unat (me_vsize e)" "110 \<le> unat (me_vsize e)"
    using assms by (auto simp: entry_ok_def)
  then have "max (me_vsize e) 1 = me_vsize e" by (simp add: max_def word_le_nat_alt)
  then have "unat (own_rate_sat_vb e) = r" using r(2,3) by (simp add: own_rate_sat_vb_def unat_div)
  with r show ?thesis by simp
qed

text \<open>A node in chains: what an entry says of its child and of its parent.\<close>

lemma repr_children_index:
  assumes n: "mock_repr n cs" and entry: "al_get (mn_txs n) p = Some e"
  shows "(al_get (mn_children n) p = Some c \<longleftrightarrow> (\<exists>e'. al_get (mn_txs n) c = Some e' \<and> p \<in> set (me_depends e'))) \<and>
    set (me_depends e) \<subseteq> dom (al_get (mn_txs n)) \<and>
    (case Option.bind (al_get (mn_children n) p) (al_get (mn_txs n)) of
       Some e' \<Rightarrow> unat (me_descendantsize e) = unat (me_vsize e) + unat (me_descendantsize e') \<and>
         unat (ef_descendant (me_fees e)) = unat (base_of e) + unat (ef_descendant (me_fees e'))
     | None \<Rightarrow> me_descendantsize e = me_vsize e \<and> ef_descendant (me_fees e) = base_of e)"
proof -
  let ?E = "al_get (mn_txs n)" and ?C = "al_get (mn_children n)"
  have up: "?C q = Some u" if u: "?E u = Some e'" "q \<in> set (me_depends e')" for u e' q
  proof -
    have "?E u \<noteq> None" using u(1) by simp
    then obtain cs1 ys zs cs2 where cs: "cs = cs1 @ (ys @ u # zs) # cs2" by (rule mock_repr_split [OF n])
    then have ch: "chain_ok ?E ?C (ys @ u # zs)" using mock_reprD(6) [OF n] by simp
    have dep: "me_depends e' = (if ys = [] then [] else [last ys])" using chain_okD [OF ch] u(1) by (metis option.inject)
    then obtain ys' where "ys = ys' @ [q]" using u(2) by (cases ys rule: rev_cases) auto
    then have "chain_ok ?E ?C (ys' @ q # u # zs)" using ch by simp
    then show ?thesis by (rule chain_okD) simp
  qed
  have "?E p \<noteq> None" using entry by simp
  then obtain cs1 ys zs cs2 where cs: "cs = cs1 @ (ys @ p # zs) # cs2" by (rule mock_repr_split [OF n])
  then have ch: "chain_ok ?E ?C (ys @ p # zs)" using mock_reprD(6) [OF n] by simp
  have e: "me_depends e = (if ys = [] then [] else [last ys])" "?C p = (if zs = [] then None else Some (hd zs))"
      "unat (me_descendantsize e) = tot me_vsize ?E (p # zs)" "unat (ef_descendant (me_fees e)) = tot base_of ?E (p # zs)"
    using chain_okD [OF ch] entry by (metis option.inject)+
  have down: "\<exists>e'. ?E c = Some e' \<and> me_depends e' = [p] \<and> unat (me_descendantsize e') = tot me_vsize ?E zs \<and>
      unat (ef_descendant (me_fees e')) = tot base_of ?E zs" if c: "?C p = Some c" for c
  proof -
    obtain zs' where zs: "zs = c # zs'" using e(2) c by (cases zs) auto
    have "chain_ok ?E ?C ((ys @ [p]) @ c # zs')" using ch zs by simp
    then show ?thesis unfolding zs by (rule chain_okD) auto
  qed
  have "set (me_depends e) \<subseteq> dom ?E" using e(1) chain_ok_dom [OF ch] by (auto split: if_splits)
  moreover have "?C p = Some c \<longleftrightarrow> (\<exists>e'. ?E c = Some e' \<and> p \<in> set (me_depends e'))" using down up by fastforce
  moreover have "case Option.bind (?C p) ?E of
       Some e' \<Rightarrow> unat (me_descendantsize e) = unat (me_vsize e) + unat (me_descendantsize e') \<and>
         unat (ef_descendant (me_fees e)) = unat (base_of e) + unat (ef_descendant (me_fees e'))
     | None \<Rightarrow> me_descendantsize e = me_vsize e \<and> ef_descendant (me_fees e) = base_of e"
  proof (cases "?C p")
    case None
    then have "zs = []" using e(2) by (cases zs) auto
    then show ?thesis using e(3,4) entry None by (simp add: word_unat_eq_iff)
  next
    case (Some c)
    then show ?thesis using down [OF Some] e(3,4) entry by auto
  qed
  ultimately show ?thesis by blast
qed

lemma repr_parent:
  assumes n: "mock_repr n cs" and t: "al_get (mn_txs n) t = Some e"
  shows "me_depends e = [] \<and> me_ancestorsize e = me_vsize e \<and> ef_ancestor (me_fees e) = base_of e \<or>
    (\<exists>p pe. me_depends e = [p] \<and> al_get (mn_txs n) p = Some pe \<and> al_get (mn_children n) p = Some t \<and>
       unat (me_ancestorsize e) = unat (me_vsize e) + unat (me_ancestorsize pe) \<and>
       unat (ef_ancestor (me_fees e)) = unat (base_of e) + unat (ef_ancestor (me_fees pe)))"
proof -
  have "al_get (mn_txs n) t \<noteq> None" using t by simp
  then obtain cs1 ys zs cs2 where "cs = cs1 @ (ys @ t # zs) # cs2" by (rule mock_repr_split [OF n])
  then have ch: "chain_ok (al_get (mn_txs n)) (al_get (mn_children n)) (ys @ t # zs)" using mock_reprD(6) [OF n] by simp
  have e: "me_depends e = (if ys = [] then [] else [last ys])"
      "unat (me_ancestorsize e) = tot me_vsize (al_get (mn_txs n)) (ys @ [t])"
      "unat (ef_ancestor (me_fees e)) = tot base_of (al_get (mn_txs n)) (ys @ [t])"
    using chain_okD [OF ch] t by (metis option.inject)+
  show ?thesis
  proof (cases ys rule: rev_cases)
    case Nil
    then show ?thesis using e t by (simp add: word_unat_eq_iff)
  next
    case (snoc ps p)
    have "chain_ok (al_get (mn_txs n)) (al_get (mn_children n)) (ps @ p # t # zs)" using ch snoc by simp
    then show ?thesis by (rule chain_okD) (use e t snoc in auto)
  qed
qed

subsection \<open>A concrete source of random numbers\<close>

text \<open>The smallest value of every range, consecutive ids, and hash maps iterated in insertion order.\<close>

definition plain_rand :: "nat rand" where
  "plain_rand = \<lparr>rand_txid = (\<lambda>r. (Txid (of_nat r), Suc r)), rand_range = (\<lambda>lo hi r. (lo, r)), rand_index = (\<lambda>k r. (0, r)),
     rand_unit = (\<lambda>r. (0, r)), rand_powf = (\<lambda>x y. x), hash_order = (\<lambda>ks. ks)\<rparr>"

lemma plain_rand_ok: "rand_ok plain_rand"
  by (simp add: rand_ok_def plain_rand_def)

definition cpfp_cfg :: churn_config where
  "cpfp_cfg = \<lparr>cc_arrivals_per_tick = 1, cc_evictions_per_tick = 1, cc_fee = fd_uniform 20 20,
     cc_cpfp_fraction = 1, cc_max_chain = 2\<rparr>"

lemma cpfp_cfg_ok: "cfg_ok cpfp_cfg"
  by (simp add: cfg_ok_def cpfp_cfg_def chain_cap_def fee_cap_def fd_uniform_def)


definition parent_entry :: "u64 \<Rightarrow> u64 \<Rightarrow> mempool_entry" where
  "parent_entry sz fee = \<lparr>me_vsize = 110, me_weight = Some 440, me_depends = [],
     me_fees = \<lparr>ef_base = 2200, ef_ancestor = 2200, ef_descendant = fee\<rparr>,
     me_ancestorsize = 110, me_descendantsize = sz, me_time = Some 1700000000\<rparr>"

definition child_entry :: mempool_entry where
  "child_entry = \<lparr>me_vsize = 110, me_weight = Some 440, me_depends = [Txid 7],
     me_fees = \<lparr>ef_base = 2200, ef_ancestor = 4400, ef_descendant = 2200\<rparr>,
     me_ancestorsize = 220, me_descendantsize = 110, me_time = Some 1700000000\<rparr>"

definition lone_node :: "nat mock_node" where
  "lone_node = (mock_empty 8 cpfp_cfg)\<lparr>mn_txs := [(Txid 7, parent_entry 110 2200)]\<rparr>"

definition pair_node :: "nat mock_node" where
  "pair_node = (mock_empty 9 cpfp_cfg)\<lparr>mn_txs := [(Txid 7, parent_entry 220 4400), (Txid 8, child_entry)],
     mn_children := [(Txid 7, Txid 8)]\<rparr>"

lemmas plain_simps = fresh_arrival_def arrival_rng_def attach_drawn_def pick_parent_def add_arrival_def insert_standalone_def
  sample_fee_rate_def gen_standalone_entry_def attach_child_def plain_rand_def cpfp_cfg_def mock_empty_def fd_uniform_def
  mock_keys_def al_keys_def lone_node_def pair_node_def parent_entry_def child_entry_def al_get_def u64_sat_mul_def amount_add_def

lemma lone_arrival: "add_arrival plain_rand (mock_empty 7 cpfp_cfg) = Some lone_node"
    "fresh_arrival plain_rand (mock_empty 7 cpfp_cfg)"
  by (simp_all add: plain_simps)

lemma lone_ancestors: "ancestors_of (mn_txs lone_node) (Txid 7) = Some []"
  by (subst ancestors_of.simps) (simp add: plain_simps)

lemma lone_pick: "pick_parent plain_rand lone_node = Some (Some (Txid 7), lone_node)"
  using lone_ancestors by (simp add: plain_simps numeral_eq_Suc)

lemma lone_adjust: "adjust_descendant_totals (Txid 7) 110 2200 True [(Txid 7, parent_entry 110 2200), (Txid 8, child_entry)] =
    Some [(Txid 7, parent_entry 220 4400), (Txid 8, child_entry)]"
  unfolding adjust_descendant_totals_def
  by (subst ancestors_of.simps) (simp add: plain_simps adjust_at_def adjust_one_def)

lemma pair_arrival: "add_arrival plain_rand lone_node = Some pair_node" "fresh_arrival plain_rand lone_node"
proof -
  have d: "attach_drawn plain_rand lone_node = (True, lone_node)"
    by (simp add: attach_drawn_def lone_node_def mock_empty_def cpfp_cfg_def plain_rand_def)
  show "fresh_arrival plain_rand lone_node"
    by (simp add: fresh_arrival_def arrival_rng_def d lone_pick) (simp add: plain_simps)
  have "attach_child plain_rand (Txid 7) lone_node = Some pair_node"
    using lone_adjust by (simp add: plain_simps)
  then show "add_arrival plain_rand lone_node = Some pair_node" by (simp add: add_arrival_def d lone_pick)
qed

lemma pair_new: "mock_node_new plain_rand 7 2 cpfp_cfg = Some pair_node" "fresh_arrivals plain_rand 2 (mock_empty 7 cpfp_cfg)"
  using lone_arrival pair_arrival by (simp_all add: mock_node_new_def mock_empty_def numeral_2_eq_2)

lemma pair_reach: "mock_reach plain_rand cpfp_cfg pair_node"
  by (rule mock_new [OF pair_new(2,1)])

lemma pair_fresh_advance: "fresh_advance plain_rand pair_node"
proof -
  have adjust: "adjust_descendant_totals (Txid 7) 110 2200 False [(Txid 7, parent_entry 220 4400)] =
      Some [(Txid 7, parent_entry 110 2200)]"
    unfolding adjust_descendant_totals_def
    by (subst ancestors_of.simps) (simp add: plain_simps adjust_at_def adjust_one_def u64_sat_sub_def)
  have "leaf_of [(Txid 7, Txid 8)] (Txid 8) = Some (Txid 8)"
    by (subst leaf_of.simps) (simp add: plain_simps)
  then have "leaf_of (mn_children pair_node) (Txid 7) = Some (Txid 8)"
    by (subst leaf_of.simps) (simp add: plain_simps)
  moreover have "remove_leaf (Txid 8) pair_node = Some (lone_node\<lparr>mn_rng := 9\<rparr>)"
    using adjust by (simp add: remove_leaf_def plain_simps)
  ultimately have ev: "evict plain_rand 1 (pair_node\<lparr>mn_reloading := False\<rparr>) = Some (lone_node\<lparr>mn_rng := 9\<rparr>)"
    by (simp add: plain_simps)
  have "pick_parent plain_rand (lone_node\<lparr>mn_rng := 9\<rparr>) = Some (Some (Txid 7), lone_node\<lparr>mn_rng := 9\<rparr>)"
    using lone_ancestors by (simp add: plain_simps numeral_eq_Suc)
  moreover have "attach_drawn plain_rand (lone_node\<lparr>mn_rng := 9\<rparr>) = (True, lone_node\<lparr>mn_rng := 9\<rparr>)"
    by (simp add: attach_drawn_def lone_node_def mock_empty_def cpfp_cfg_def plain_rand_def)
  ultimately have "fresh_arrival plain_rand (lone_node\<lparr>mn_rng := 9\<rparr>)"
    by (simp add: fresh_arrival_def arrival_rng_def) (simp add: plain_simps)
  moreover have "cc_evictions_per_tick (mn_cfg pair_node) = 1" "cc_arrivals_per_tick (mn_cfg pair_node) = 1"
      "mn_cfg (lone_node\<lparr>mn_rng := 9\<rparr>) = mn_cfg pair_node"
    by (simp_all add: plain_simps)
  ultimately show ?thesis by (simp add: fresh_advance_def ev del: One_nat_def) (simp split: option.split)
qed

subsection \<open>Properties\<close>

text \<open>C13. The totals the simulated node serves are true at every point of its life: the ancestor size and fee of an
  entry are the sums over the entry and the transactions \<open>ancestors_of\<close> walks to, the walk ends, visits each
  transaction once and never exceeds the configured chain length.  Its own fee is a whole rate, within the
  configured bounds, times its size.\<close>

theorem mock_ancestor_totals:
  assumes "mock_reach rand cfg n" "cfg_ok cfg" "rand_ok rand" "al_get (mn_txs n) t = Some e"
  shows "\<exists>as. ancestors_of (mn_txs n) t = Some as \<and> distinct (t # as) \<and> length (t # as) \<le> max 1 (cc_max_chain cfg) \<and>
    unat (me_ancestorsize e) = tot me_vsize (al_get (mn_txs n)) (t # as) \<and>
    unat (ef_ancestor (me_fees e)) = tot base_of (al_get (mn_txs n)) (t # as) \<and>
    rate_allowed cfg (unat (own_rate_sat_vb e)) \<and> unat (base_of e) = unat (own_rate_sat_vb e) * unat (me_vsize e)"
proof -
  obtain cs where n: "mock_repr n cs" "mn_cfg n = cfg" by (rule mock_reachE [OF assms(1-3)])
  note d = mock_reprD [OF n(1)]
  have "al_get (mn_txs n) t \<noteq> None" using assms(4) by simp
  then obtain cs1 ys zs cs2 where "cs = cs1 @ (ys @ t # zs) # cs2" by (rule mock_repr_split [OF n(1)])
  then have xs: "ys @ t # zs \<in> set cs" by simp
  note ch = d(6) [OF xs]
  have "ancestors_of (mn_txs n) t = Some (rev ys)" by (rule ancestors_of_chain [OF chain_ok_up [OF ch]])
  moreover have "distinct (ys @ t # zs)" using xs d(3) unfolding distinct_concat_iff by blast
  moreover have "length (ys @ t # zs) \<le> max 1 (cc_max_chain cfg)" using d(7) [OF xs] n(2) by (simp add: chain_cap_def)
  moreover have "unat (me_ancestorsize e) = tot me_vsize (al_get (mn_txs n)) (ys @ [t])"
      "unat (ef_ancestor (me_fees e)) = tot base_of (al_get (mn_txs n)) (ys @ [t])"
    using chain_okD [OF ch] assms(4) by (metis option.inject)+
  moreover have "tot f E (t # rev ys) = tot f E (ys @ [t])" for f E
    by (simp add: tot_def rev_map [symmetric] sum_list_rev)
  moreover have "rate_allowed cfg (unat (own_rate_sat_vb e)) \<and> unat (base_of e) = unat (own_rate_sat_vb e) * unat (me_vsize e)"
    using entry_own_rate [OF d(8) [OF assms(4)]] n(2) by simp
  ultimately show ?thesis by (intro exI [of _ "rev ys"]) (simp del: tot_simps)
qed

lemma mock_ancestor_totals_witness:
  "\<exists>as. ancestors_of (mn_txs pair_node) (Txid 8) = Some as \<and> distinct (Txid 8 # as) \<and>
    length (Txid 8 # as) \<le> max 1 (cc_max_chain cpfp_cfg) \<and>
    unat (me_ancestorsize child_entry) = tot me_vsize (al_get (mn_txs pair_node)) (Txid 8 # as) \<and>
    unat (ef_ancestor (me_fees child_entry)) = tot base_of (al_get (mn_txs pair_node)) (Txid 8 # as) \<and>
    rate_allowed cpfp_cfg (unat (own_rate_sat_vb child_entry)) \<and>
    unat (base_of child_entry) = unat (own_rate_sat_vb child_entry) * unat (me_vsize child_entry)"
  by (rule mock_ancestor_totals [OF pair_reach cpfp_cfg_ok plain_rand_ok]) (simp add: pair_node_def al_get_def)

text \<open>C14. The \<open>children\<close> index and the \<open>depends\<close> lists of the simulated node mirror each other at every point of its
  life, no parent is missing from the mempool, and the descendant totals of an entry are its own size and fee
  plus the descendant totals of its child, if it has one.\<close>

theorem mock_children_index:
  assumes "mock_reach rand cfg n" "cfg_ok cfg" "rand_ok rand" "al_get (mn_txs n) p = Some e"
  shows "(al_get (mn_children n) p = Some c \<longleftrightarrow> (\<exists>e'. al_get (mn_txs n) c = Some e' \<and> p \<in> set (me_depends e'))) \<and>
    set (me_depends e) \<subseteq> dom (al_get (mn_txs n)) \<and>
    (case Option.bind (al_get (mn_children n) p) (al_get (mn_txs n)) of
       Some e' \<Rightarrow> unat (me_descendantsize e) = unat (me_vsize e) + unat (me_descendantsize e') \<and>
         unat (ef_descendant (me_fees e)) = unat (base_of e) + unat (ef_descendant (me_fees e'))
     | None \<Rightarrow> me_descendantsize e = me_vsize e \<and> ef_descendant (me_fees e) = base_of e)"
proof -
  obtain cs where "mock_repr n cs" "mn_cfg n = cfg" by (rule mock_reachE [OF assms(1-3)])
  then show ?thesis using repr_children_index assms(4) by blast
qed

lemma mock_children_index_witness:
  "(al_get (mn_children pair_node) (Txid 7) = Some (Txid 8) \<longleftrightarrow>
      (\<exists>e'. al_get (mn_txs pair_node) (Txid 8) = Some e' \<and> Txid 7 \<in> set (me_depends e'))) \<and>
    set (me_depends (parent_entry 220 4400)) \<subseteq> dom (al_get (mn_txs pair_node)) \<and>
    (case Option.bind (al_get (mn_children pair_node) (Txid 7)) (al_get (mn_txs pair_node)) of
       Some e' \<Rightarrow> unat (me_descendantsize (parent_entry 220 4400)) = unat (me_vsize (parent_entry 220 4400)) + unat (me_descendantsize e') \<and>
         unat (ef_descendant (me_fees (parent_entry 220 4400))) = unat (base_of (parent_entry 220 4400)) + unat (ef_descendant (me_fees e'))
     | None \<Rightarrow> me_descendantsize (parent_entry 220 4400) = me_vsize (parent_entry 220 4400) \<and>
         ef_descendant (me_fees (parent_entry 220 4400)) = base_of (parent_entry 220 4400))"
  by (rule mock_children_index [OF pair_reach cpfp_cfg_ok plain_rand_ok]) (simp add: pair_node_def al_get_def)

text \<open>C11. A simulated block is a valid one: mining raises the tip by one and confirms a set of mempool transactions
  that weighs at most 4,000,000 units (\<open>BLOCK_WEIGHT\<close>) and contains the parent of each of its members; exactly
  these leave the mempool, and a survivor whose parent was confirmed has become a root.\<close>

theorem mine_block_valid:
  assumes "mock_reach rand cfg n" "cfg_ok cfg" "rand_ok rand"
  shows "\<exists>n' conf. mine_block rand n = Some n' \<and> mn_tip_height n' = mn_tip_height n + 1 \<and> distinct conf \<and>
    set conf \<subseteq> dom (al_get (mn_txs n)) \<and> dom (al_get (mn_txs n')) = dom (al_get (mn_txs n)) - set conf \<and>
    tot entry_weight (al_get (mn_txs n)) conf \<le> 4000000 \<and>
    (\<forall>t \<in> set conf. \<forall>e. al_get (mn_txs n) t = Some e \<longrightarrow> set (me_depends e) \<subseteq> set conf) \<and>
    (\<forall>t e e'. al_get (mn_txs n) t = Some e \<longrightarrow> al_get (mn_txs n') t = Some e' \<longrightarrow>
       me_depends e' = filter (\<lambda>p. p \<notin> set conf) (me_depends e))"
proof -
  obtain cs where n: "mock_repr n cs" "mn_cfg n = cfg" by (rule mock_reachE [OF assms])
  from mine_block_repr [OF n(1) _ assms(3)] assms(2) n(2) obtain n' used conf where
    m: "mine_block rand n = Some n'" "selection_ok n cs (used, conf)" "mock_repr n' (map (filter (\<lambda>t. t \<notin> set conf)) cs)"
      "churned (n\<lparr>mn_tip_height := mn_tip_height n + 1\<rparr>) n'" by blast
  have s: "distinct conf" "set conf \<subseteq> set (concat cs)" "ancestor_closed cs (set conf)" "mock_weight n conf \<le> 4000000"
    using m(2) by (simp_all add: selection_ok_def)
  have flat: "concat (map (filter (\<lambda>t. t \<notin> set conf)) cs) = filter (\<lambda>t. t \<notin> set conf) (concat cs)" by (simp add: filter_concat)
  have dom: "dom (al_get (mn_txs n)) = set (concat cs)" "dom (al_get (mn_txs n')) = set (concat cs) - set conf"
    using mock_reprD(4) [OF n(1)] mock_reprD(4) [OF m(3)] unfolding flat by auto
  have "t \<notin> set conf" if "al_get (mn_txs n') t = Some e'" for t e' using that dom(2) by auto
  then have keep: "me_depends e' = filter (\<lambda>p. p \<notin> set conf) (me_depends e)"
    if "al_get (mn_txs n) t = Some e" "al_get (mn_txs n') t = Some e'" for t e e'
    using surviving_depends [OF n(1) s(3) m(3) that] that(2) by blast
  have "mn_tip_height n' = mn_tip_height n + 1" using m(4) by (simp add: churned_def)
  then show ?thesis using m(1) s(1,2,4) dom keep confirmed_parents [OF n(1) s(3)] by (intro exI [of _ n'] exI [of _ conf]) simp
qed

lemma mine_block_valid_witness:
  "\<exists>n' conf. mine_block plain_rand pair_node = Some n' \<and> mn_tip_height n' = mn_tip_height pair_node + 1 \<and> distinct conf \<and>
    set conf \<subseteq> dom (al_get (mn_txs pair_node)) \<and> dom (al_get (mn_txs n')) = dom (al_get (mn_txs pair_node)) - set conf \<and>
    tot entry_weight (al_get (mn_txs pair_node)) conf \<le> 4000000 \<and>
    (\<forall>t \<in> set conf. \<forall>e. al_get (mn_txs pair_node) t = Some e \<longrightarrow> set (me_depends e) \<subseteq> set conf) \<and>
    (\<forall>t e e'. al_get (mn_txs pair_node) t = Some e \<longrightarrow> al_get (mn_txs n') t = Some e' \<longrightarrow>
       me_depends e' = filter (\<lambda>p. p \<notin> set conf) (me_depends e))"
  by (rule mine_block_valid [OF pair_reach cpfp_cfg_ok plain_rand_ok])

text \<open>C12. A simulated block is filled greedily and completely: a transaction that stays behind was outbid.  Some of the
  confirmed transactions, all of them in families (a transaction with its ancestors) of confirmed
  transactions whose effective rate is at least as high, leave its own family no room in a block of
  4,000,000 weight units.\<close>

theorem mine_block_greedy:
  assumes "mock_reach rand cfg n" "cfg_ok cfg" "rand_ok rand" "mine_block rand n = Some n'" "t \<in> dom (al_get (mn_txs n'))"
  shows "\<exists>C. C \<subseteq> dom (al_get (mn_txs n)) - dom (al_get (mn_txs n')) \<and> 4000000 < set_weight n (C \<union> family n t) \<and>
    (\<forall>c \<in> C. \<exists>s \<in> dom (al_get (mn_txs n)) - dom (al_get (mn_txs n')). c \<in> family n s \<and>
       the (effective_rate (mn_txs n) t) \<le> the (effective_rate (mn_txs n) s))"
proof -
  obtain cs where n: "mock_repr n cs" "mn_cfg n = cfg" by (rule mock_reachE [OF assms(1-3)])
  from mine_block_repr [OF n(1) _ assms(3)] assms(2,4) n(2) obtain used conf where
    m: "selection_ok n cs (used, conf)" "mock_repr n' (map (filter (\<lambda>t. t \<notin> set conf)) cs)"
      "\<forall>t \<in> set (concat cs) - set conf. outbid n (set conf) t" by auto
  have "concat (map (filter (\<lambda>t. t \<notin> set conf)) cs) = filter (\<lambda>t. t \<notin> set conf) (concat cs)" by (simp add: filter_concat)
  then have dom: "dom (al_get (mn_txs n)) = set (concat cs)" "dom (al_get (mn_txs n')) = set (concat cs) - set conf"
    using mock_reprD(4) [OF n(1)] mock_reprD(4) [OF m(2)] by auto
  moreover have "set conf \<subseteq> set (concat cs)" using m(1) by (simp add: selection_ok_def)
  ultimately have conf: "dom (al_get (mn_txs n)) - dom (al_get (mn_txs n')) = set conf" by blast
  have "outbid n (set conf) t" using m(3) assms(5) unfolding dom(2) by blast
  then obtain C where "C \<subseteq> set conf" "4000000 < set_weight n (C \<union> family n t)"
      "\<forall>c \<in> C. \<exists>s \<in> set conf. c \<in> family n s \<and> the (effective_rate (mn_txs n) t) \<le> the (effective_rate (mn_txs n) s)"
    unfolding outbid_def by (elim exE conjE)
  then show ?thesis unfolding conf by (intro exI [of _ C] conjI)
qed

text \<open>Eleven transactions of the largest size: ten fill the block.\<close>

definition bulky_rand :: "nat rand" where
  "bulky_rand = plain_rand\<lparr>rand_range := (\<lambda>lo hi r. (hi, r))\<rparr>"

definition bulky_cfg :: churn_config where
  "bulky_cfg = cpfp_cfg\<lparr>cc_cpfp_fraction := 0\<rparr>"

definition bulky_entry :: mempool_entry where
  "bulky_entry = \<lparr>me_vsize = 100000, me_weight = Some 400000, me_depends = [],
     me_fees = \<lparr>ef_base = 2000000, ef_ancestor = 2000000, ef_descendant = 2000000\<rparr>,
     me_ancestorsize = 100000, me_descendantsize = 100000, me_time = Some 1700000000\<rparr>"

definition bulky_at :: "nat list \<Rightarrow> nat \<Rightarrow> nat mock_node" where
  "bulky_at ids r = (mock_empty r bulky_cfg)\<lparr>mn_txs := map (\<lambda>i. (Txid (of_nat i), bulky_entry)) ids\<rparr>"

definition bulky_node :: "nat mock_node" where
  "bulky_node = bulky_at [7..<18] 18"

lemma bulky_arrival:
  assumes "Txid (of_nat r) \<notin> (\<lambda>i. Txid (of_nat i)) ` set ids"
  shows "add_arrival bulky_rand (bulky_at ids r) = Some (bulky_at (ids @ [r]) (Suc r))"
    "fresh_arrival bulky_rand (bulky_at ids r)"
proof -
  have "AList.update (Txid (of_nat r)) bulky_entry (map (\<lambda>i. (Txid (of_nat i), bulky_entry)) ids) =
      map (\<lambda>i. (Txid (of_nat i), bulky_entry)) ids @ [(Txid (of_nat r), bulky_entry)]"
    using assms by (induction ids) auto
  then show "add_arrival bulky_rand (bulky_at ids r) = Some (bulky_at (ids @ [r]) (Suc r))"
    by (simp add: plain_simps bulky_at_def bulky_rand_def bulky_cfg_def bulky_entry_def)
  have "map_of (map (\<lambda>i. (Txid (of_nat i), bulky_entry)) ids) (Txid (of_nat r)) = None"
    using assms by (auto simp: map_of_eq_None_iff)
  then show "fresh_arrival bulky_rand (bulky_at ids r)"
    by (simp add: plain_simps bulky_at_def bulky_rand_def bulky_cfg_def)
qed

lemma bulky_new:
  "mock_node_new bulky_rand 7 11 bulky_cfg = Some (bulky_at [7..<18] 18)" "fresh_arrivals bulky_rand 11 (mock_empty 7 bulky_cfg)"
proof -
  have "add_arrivals bulky_rand k (bulky_at [7..<7 + j] (7 + j)) = Some (bulky_at [7..<7 + j + k] (7 + j + k)) \<and>
      fresh_arrivals bulky_rand k (bulky_at [7..<7 + j] (7 + j))"
    if "j + k \<le> 11" for j k
    using that
  proof (induction k arbitrary: j)
    case (Suc k)
    have "inj_on (\<lambda>i. Txid (of_nat i)) {..<18::nat}"
      by (rule inj_onI) (auto simp: word_unat_eq_iff unsigned_of_nat take_bit_nat_eq_self)
    then have "Txid (of_nat (7 + j)) \<notin> (\<lambda>i. Txid (of_nat i)) ` set [7..<7 + j]"
      using Suc.prems inj_on_image_mem_iff [of "\<lambda>i. Txid (of_nat i)" "{..<18}" "7 + j" "set [7..<7+j]"] by fastforce
    moreover have "[7..<7 + j] @ [7 + j] = [7..<8 + j]" using upt_Suc_append [of 7 "7 + j"] by simp
    ultimately show ?case using bulky_arrival Suc.IH [of "Suc j"] Suc.prems by (simp add: add.assoc)
  qed simp
  from this [of 0 11]
  show "mock_node_new bulky_rand 7 11 bulky_cfg = Some (bulky_at [7..<18] 18)" "fresh_arrivals bulky_rand 11 (mock_empty 7 bulky_cfg)"
    by (simp_all add: mock_node_new_def bulky_at_def mock_empty_def)
qed
lemma bulky_ok: "cfg_ok bulky_cfg" "rand_ok bulky_rand"
  using cpfp_cfg_ok plain_rand_ok by (simp_all add: bulky_cfg_def bulky_rand_def cfg_ok_def chain_cap_def fee_cap_def rand_ok_def)

lemma bulky_reach: "mock_reach bulky_rand bulky_cfg bulky_node"
  unfolding bulky_node_def by (rule mock_new [OF bulky_new(2,1)])

lemma bulky_survivor:
  assumes "mine_block bulky_rand bulky_node = Some n'"
  shows "dom (al_get (mn_txs n')) \<noteq> {}"
proof
  assume none: "dom (al_get (mn_txs n')) = {}"
  let ?n = bulky_node
  obtain cs where n: "mock_repr ?n cs" "mn_cfg ?n = bulky_cfg" by (rule mock_reachE [OF bulky_reach bulky_ok])
  from mine_block_repr [OF n(1) _ bulky_ok(2)] assms bulky_ok(1) n(2) obtain used conf where
    m: "selection_ok ?n cs (used, conf)" "mock_repr n' (map (filter (\<lambda>t. t \<notin> set conf)) cs)" by auto
  have "set (concat cs) \<subseteq> set conf"
    using mock_reprD(4) [OF m(2)] none by (auto simp: filter_empty_conv)
  then have "length (mn_txs ?n) \<le> length conf"
    using mock_repr_length [OF n(1)] mock_reprD(3) [OF n(1)] by (metis List.finite_set card_length card_mono distinct_card le_trans)
  moreover have "al_get (mn_txs ?n) t = Some bulky_entry" if "t \<in> set conf" for t
  proof -
    have "t \<in> dom (al_get (mn_txs ?n))" using that m(1) mock_reprD(4) [OF n(1)] by (auto simp: selection_ok_def)
    then show ?thesis by (auto simp: bulky_node_def bulky_at_def al_get_def map_of_eq_Some_iff dest: map_of_SomeD)
  qed
  then have "tot entry_weight (al_get (mn_txs ?n)) conf = sum_list (map (\<lambda>t. 400000) conf)"
    unfolding tot_def by (intro arg_cong [where f = sum_list] map_cong refl) (simp add: bulky_entry_def entry_weight_def)
  moreover have "length (mn_txs ?n) = 11" by (simp add: bulky_node_def bulky_at_def)
  ultimately show False using m(1) by (simp add: selection_ok_def sum_list_triv)
qed

lemma mine_block_greedy_witness:
  "\<exists>n' t C. mine_block bulky_rand bulky_node = Some n' \<and> t \<in> dom (al_get (mn_txs n')) \<and>
    C \<subseteq> dom (al_get (mn_txs bulky_node)) - dom (al_get (mn_txs n')) \<and> 4000000 < set_weight bulky_node (C \<union> family bulky_node t) \<and>
    (\<forall>c \<in> C. \<exists>s \<in> dom (al_get (mn_txs bulky_node)) - dom (al_get (mn_txs n')). c \<in> family bulky_node s \<and>
       the (effective_rate (mn_txs bulky_node) t) \<le> the (effective_rate (mn_txs bulky_node) s))"
proof -
  obtain cs where "mock_repr bulky_node cs" "mn_cfg bulky_node = bulky_cfg" by (rule mock_reachE [OF bulky_reach bulky_ok])
  then obtain n' where n': "mine_block bulky_rand bulky_node = Some n'" using mine_block_repr [of bulky_node cs bulky_rand] bulky_ok by auto
  moreover obtain t where "t \<in> dom (al_get (mn_txs n'))" using bulky_survivor [OF n'] by blast
  ultimately show ?thesis using mine_block_greedy [OF bulky_reach bulky_ok, of n' t] by blast
qed

text \<open>C22. No operation of the simulated node hangs or panics, and each has its exact effect on the number of
  transactions: a tick of churn evicts at most what is there and then adds its arrivals, a mass drop removes
  the truncated fraction, and mining returns.\<close>

theorem mock_operations_return:
  assumes "mock_reach rand cfg n" "cfg_ok cfg" "rand_ok rand" "fresh_advance rand n"
  shows "(\<exists>n'. advance rand n = Some n' \<and> \<not> mn_reloading n' \<and>
      length (mn_txs n') = (length (mn_txs n) - cc_evictions_per_tick cfg) + cc_arrivals_per_tick cfg) \<and>
    (\<exists>n'. mass_drop rand fraction n = Some n' \<and>
      length (mn_txs n') = length (mn_txs n) - f64_as_nat usize_max (f64_mul (f64_round (of_nat (length (mn_txs n)))) fraction)) \<and>
    mine_block rand n \<noteq> None"
proof -
  obtain cs where n: "mock_repr n cs" "mn_cfg n = cfg" by (rule mock_reachE [OF assms(1-3)])
  have cfg: "cfg_ok (mn_cfg n)" using assms(2) n(2) by simp
  from advance_repr [OF n(1) cfg assms(3,4)] mass_drop_repr [OF n(1) assms(3), of fraction] mine_block_repr [OF n(1) cfg assms(3)]
  show ?thesis using mock_repr_length [OF n(1)] mock_repr_length n(2) by (fastforce simp: churned_def)
qed

lemma mock_operations_return_witness:
  "(\<exists>n'. advance plain_rand pair_node = Some n' \<and> \<not> mn_reloading n' \<and>
      length (mn_txs n') = (length (mn_txs pair_node) - cc_evictions_per_tick cpfp_cfg) + cc_arrivals_per_tick cpfp_cfg) \<and>
    (\<exists>n'. mass_drop plain_rand 1 pair_node = Some n' \<and>
      length (mn_txs n') = length (mn_txs pair_node) -
        f64_as_nat usize_max (f64_mul (f64_round (of_nat (length (mn_txs pair_node)))) 1)) \<and>
    mine_block plain_rand pair_node \<noteq> None"
  by (rule mock_operations_return [OF pair_reach cpfp_cfg_ok plain_rand_ok pair_fresh_advance])

end
