(* ===== verification/Sync_Abs.thy ===== *)
theory Sync_Abs
  imports Sync_Facts
begin

text \<open>
  The sync loop does not look into the world outside: when a function \<open>h\<close> maps the world of one \<open>env\<close> to the
  world of another so that every call gives the same answer and commutes with \<open>h\<close> (locale \<open>env_map\<close>), a tick
  does the same on both (\<open>tick_abs\<close>).  One rule per operation of the state monad, one lemma per function.
\<close>

subsection \<open>Abstraction of the world\<close>

definition abs_state :: "('v \<Rightarrow> 'w) \<Rightarrow> 'v sync_state \<Rightarrow> 'w sync_state" where
  "abs_state h s =
     \<lparr>ss_world = h (ss_world s), ss_state = ss_state s, ss_caught_up_prev = ss_caught_up_prev s,
      ss_last_bulk_resync = ss_last_bulk_resync s, ss_last_fee_recompute = ss_last_fee_recompute s,
      ss_trace = ss_trace s, ss_log = ss_log s\<rparr>"

lemma abs_state_sel [simp]:
  "ss_world (abs_state h s) = h (ss_world s)" "ss_state (abs_state h s) = ss_state s"
  "ss_caught_up_prev (abs_state h s) = ss_caught_up_prev s" "ss_last_bulk_resync (abs_state h s) = ss_last_bulk_resync s"
  "ss_last_fee_recompute (abs_state h s) = ss_last_fee_recompute s" "ss_trace (abs_state h s) = ss_trace s"
  "ss_log (abs_state h s) = ss_log s"
  by (simp_all add: abs_state_def)

definition call_abs :: "('v \<Rightarrow> 'w) \<Rightarrow> ('v \<Rightarrow> 'a \<times> 'v) \<Rightarrow> ('w \<Rightarrow> 'a \<times> 'w) \<Rightarrow> bool" where
  "call_abs h f' f \<longleftrightarrow> (\<forall>v. f (h v) = (fst (f' v), h (snd (f' v))))"

definition env_abs :: "('v \<Rightarrow> 'w) \<Rightarrow> 'v env \<Rightarrow> 'w env \<Rightarrow> bool" where
  "env_abs h env' env \<longleftrightarrow>
     call_abs h (rpc_mempool_info env') (rpc_mempool_info env) \<and>
     call_abs h (rpc_raw_mempool_txids env') (rpc_raw_mempool_txids env) \<and>
     call_abs h (rpc_raw_mempool_verbose env') (rpc_raw_mempool_verbose env) \<and>
     (\<forall>t. call_abs h (rpc_mempool_entry env' t) (rpc_mempool_entry env t)) \<and>
     call_abs h (rpc_tip_height env') (rpc_tip_height env) \<and>
     call_abs h (rpc_reconnect env') (rpc_reconnect env) \<and>
     call_abs h (instant_now env') (instant_now env) \<and>
     call_abs h (system_now env') (system_now env) \<and>
     call_abs h (unix_now env') (unix_now env) \<and>
     (\<forall>d. call_abs h (sleep_for env' d) (sleep_for env d)) \<and>
     (\<forall>d. call_abs h (sleep_or_wake env' d) (sleep_or_wake env d)) \<and>
     (\<forall>n ts. call_abs h (completion_order env' n ts) (completion_order env n ts)) \<and>
     call_abs h (ready_now env') (ready_now env)"

definition tracks :: "('v \<Rightarrow> 'w) \<Rightarrow> ('v, 'a) sync \<Rightarrow> ('w, 'a) sync \<Rightarrow> bool" where
  "tracks h m' m \<longleftrightarrow> (\<forall>s. run_state m (abs_state h s) = (fst (run_state m' s), abs_state h (snd (run_state m' s))))"

named_theorems tracks_intros

lemma tracks_bind [tracks_intros]:
  "tracks h m' m \<Longrightarrow> (\<And>a. tracks h (f' a) (f a)) \<Longrightarrow> tracks h (m' \<bind> f') (m \<bind> f)"
  by (simp add: tracks_def case_prod_beta)

lemma tracks_return [tracks_intros]: "tracks h (return a) (return a)"
  by (simp add: tracks_def run_return)

lemma tracks_outside: "call_abs h f' f \<Longrightarrow> tracks h (outside f') (outside f)"
  by (simp add: tracks_def run_outside call_abs_def abs_state_def)

lemma tracks_look [tracks_intros]: "(\<And>s. f (abs_state h s) = f' s) \<Longrightarrow> tracks h (look f') (look f)"
  by (simp add: tracks_def look_def)

lemma tracks_read_state [tracks_intros]: "tracks h (read_state f) (read_state f)"
  by (simp add: read_state_def tracks_look)

lemma tracks_change [tracks_intros]: "(\<And>s. f (abs_state h s) = abs_state h (f' s)) \<Longrightarrow> tracks h (change f') (change f)"
  by (simp add: tracks_def change_def)

lemma tracks_write_state [tracks_intros]:
  "(\<And>s. f (abs_state h s) = abs_state h (f' s)) \<Longrightarrow> tracks h (write_state f') (write_state f)"
  unfolding write_state_def by (rule tracks_change) (simp add: Let_def abs_state_def)

lemma tracks_if [tracks_intros]:
  "tracks h m' m \<Longrightarrow> tracks h k' k \<Longrightarrow> tracks h (if b then m' else k') (if b then m else k)"
  by simp

lemma tracks_sum [tracks_intros]:
  "(\<And>e. tracks h (f' e) (f e)) \<Longrightarrow> (\<And>a. tracks h (g' a) (g a)) \<Longrightarrow>
   tracks h (case r of Inl e \<Rightarrow> f' e | Inr a \<Rightarrow> g' a) (case r of Inl e \<Rightarrow> f e | Inr a \<Rightarrow> g a)"
  by (cases r) auto

lemma tracks_option [tracks_intros]:
  "tracks h m' m \<Longrightarrow> (\<And>a. tracks h (f' a) (f a)) \<Longrightarrow>
   tracks h (case r of None \<Rightarrow> m' | Some a \<Rightarrow> f' a) (case r of None \<Rightarrow> m | Some a \<Rightarrow> f a)"
  by (cases r) auto

lemma tracks_prod [tracks_intros]:
  "(\<And>a b. tracks h (f' a b) (f a b)) \<Longrightarrow> tracks h (case r of (a, b) \<Rightarrow> f' a b) (case r of (a, b) \<Rightarrow> f a b)"
  by (cases r) auto

lemma tracks_action [tracks_intros]:
  "(\<And>r. tracks h (f' r) (f r)) \<Longrightarrow> (\<And>r. tracks h (g' r) (g r)) \<Longrightarrow>
   tracks h (case a of WaitCooldown r \<Rightarrow> f' r | BulkResync r \<Rightarrow> g' r) (case a of WaitCooldown r \<Rightarrow> f r | BulkResync r \<Rightarrow> g r)"
  by (cases a) auto

lemma abs_put_state [simp]: "put_state f (abs_state h s) = abs_state h (put_state f s)"
  by (simp add: put_state_def abs_state_def)

lemma abs_set_synced [simp]: "set_synced_locked b r n (abs_state h s) = abs_state h (set_synced_locked b r n s)"
  by (simp add: set_synced_locked_def Let_def put_state_def abs_state_def)

lemma tracks_set_synced [tracks_intros]: "tracks h (set_synced b r n) (set_synced b r n)"
  unfolding set_synced_def by (intro tracks_intros) simp

subsection \<open>The functions of the loop\<close>

text \<open>The interface between the loop and two worlds of which \<open>h\<close> is a map.\<close>

locale env_map =
  fixes h :: "'v \<Rightarrow> 'w" and env' :: "'v env" and env :: "'w env"
  assumes env_map: "env_abs h env' env"
begin

lemma tracks_calls:
  shows "tracks h (outside (rpc_mempool_info env')) (outside (rpc_mempool_info env))"
    "tracks h (outside (rpc_raw_mempool_txids env')) (outside (rpc_raw_mempool_txids env))"
    "tracks h (outside (rpc_raw_mempool_verbose env')) (outside (rpc_raw_mempool_verbose env))"
    "tracks h (outside (rpc_mempool_entry env' t)) (outside (rpc_mempool_entry env t))"
    "tracks h (outside (rpc_tip_height env')) (outside (rpc_tip_height env))"
    "tracks h (outside (rpc_reconnect env')) (outside (rpc_reconnect env))"
    "tracks h (outside (instant_now env')) (outside (instant_now env))"
    "tracks h (outside (system_now env')) (outside (system_now env))"
    "tracks h (outside (unix_now env')) (outside (unix_now env))"
    "tracks h (outside (sleep_or_wake env' d)) (outside (sleep_or_wake env d))"
    "tracks h (outside (completion_order env' n ts)) (outside (completion_order env n ts))"
    "tracks h (outside (ready_now env')) (outside (ready_now env))"
  using env_map by (auto simp: env_abs_def intro!: tracks_outside)

lemma tracks_drain:
  shows "tracks h (drain_ready env' ts b) (drain_ready env ts b)"
  by (induction ts arbitrary: b) (auto intro!: tracks_intros tracks_calls)

lemma tracks_fetch_loop:
  shows "tracks h (fetch_loop env' budget start ts b) (fetch_loop env budget start ts b)"
  by (induction ts arbitrary: b) (auto intro!: tracks_intros tracks_calls tracks_drain)

lemma tracks_fetch_new:
  shows "tracks h (fetch_new_entries env' ts c budget k) (fetch_new_entries env ts c budget k)"
  unfolding fetch_new_entries_def Let_def
  by (intro tracks_intros tracks_calls tracks_fetch_loop)

lemma tracks_reconnect:
  shows "tracks h (reconnect_on_error env' e) (reconnect_on_error env e)"
  unfolding reconnect_on_error_def by (intro tracks_intros tracks_calls)

lemma tracks_recompute:
  shows "tracks h (maybe_recompute_fees env' d f) (maybe_recompute_fees env d f)"
proof -
  have "tracks h (recompute_now env') (recompute_now env)"
    unfolding recompute_now_def
    by (intro tracks_intros tracks_calls) (simp_all add: abs_state_def put_state_def)
  moreover have "tracks h (fee_throttled env' d f) (fee_throttled env d f)"
    unfolding fee_throttled_def by (intro tracks_intros tracks_calls) simp
  ultimately show ?thesis unfolding maybe_recompute_fees_def by (intro tracks_intros)
qed

lemma tracks_bulk_resync:
  shows "tracks h (bulk_resync env') (bulk_resync env)"
  unfolding bulk_resync_def
  by (intro tracks_intros tracks_calls tracks_reconnect) simp

lemma tracks_bulk_and_publish:
  shows "tracks h (bulk_and_publish env' cfg) (bulk_and_publish env cfg)"
  unfolding bulk_and_publish_def apply_bulk_success_def
  by (intro tracks_intros tracks_calls tracks_bulk_resync tracks_recompute) simp

lemma tracks_desync:
  shows "tracks h (desync env' cfg a) (desync env cfg a)"
  unfolding desync_def
  by (intro tracks_intros tracks_calls tracks_bulk_and_publish) (simp add: abs_state_def)

lemma tracks_apply_diff:
  shows "tracks h (apply_diff env' cfg info ks ts) (apply_diff env cfg info ks ts)"
  unfolding apply_diff_def Let_def remove_gone_def finish_tick_def
  by (intro tracks_intros tracks_calls tracks_fetch_new tracks_recompute) simp_all

lemma tracks_run_tick:
  shows "tracks h (run_tick env' cfg) (run_tick env cfg)"
  unfolding run_tick_def steady_tick_def rpc_failed_def Let_def
  by (intro tracks_intros tracks_calls tracks_reconnect tracks_desync
      tracks_apply_diff) simp

lemma tick_abs: "abs_state h (tick env' cfg s) = tick env cfg (abs_state h s)"
  using tracks_run_tick [of cfg] by (simp add: tracks_def tick_def)

lemma ticks_abs: "abs_state h ((tick env' cfg ^^ k) s) = (tick env cfg ^^ k) (abs_state h s)"
  by (induction k) (simp_all add: tick_abs)

end

end
