(* ===== verification/Sim_Net_Props.thy ===== *)
theory Sim_Net_Props
  imports Sim_Network Sim_Props Sync_Abs Sync_Lossy
begin

text \<open>
  The simulated network in front of a node, and the sync loop in front of both: the budget of the limiter, what
  the gate rejects, the local profile as the identity, and the cache converging to the mempool of a
  simulated node.
\<close>

subsection \<open>The limiter\<close>

lemma grants_append_ok:
  assumes "li_count l \<le> limit"
  obtains l' where "li_count l' \<le> limit" "grants l limit (ts @ us) = grants l limit ts @ grants l' limit us"
proof -
  have "\<exists>l'. li_count l' \<le> limit \<and> grants l limit (ts @ us) = grants l limit ts @ grants l' limit us"
    using assms
  proof (induction ts arbitrary: l)
    case (Cons t ts)
    obtain ok l1 where 1: "check_rate_limit l limit t = (ok, l1)" by force
    then have "li_count l1 \<le> limit" using check_count_le [OF Cons.prems, of t] by simp
    from Cons.IH [OF this] show ?case using 1 by auto
  qed auto
  then show ?thesis using that by blast
qed

lemma filter_grants:
  "(\<And>t. t \<in> set ts \<Longrightarrow> P t) \<Longrightarrow> filter (\<lambda>g. P (fst g)) (grants l limit ts) = grants l limit ts"
  "(\<And>t. t \<in> set ts \<Longrightarrow> \<not> P t) \<Longrightarrow> filter (\<lambda>g. P (fst g)) (grants l limit ts) = []"
proof -
  have "fst g \<in> set ts" if "g \<in> set (grants l limit ts)" for g
    using imageI [OF that, of fst] map_fst_grants [of l limit ts] by (metis set_map)
  then show "(\<And>t. t \<in> set ts \<Longrightarrow> P t) \<Longrightarrow> filter (\<lambda>g. P (fst g)) (grants l limit ts) = grants l limit ts"
    "(\<And>t. t \<in> set ts \<Longrightarrow> \<not> P t) \<Longrightarrow> filter (\<lambda>g. P (fst g)) (grants l limit ts) = []"
    by (simp_all add: filter_id_conv filter_empty_conv)
qed

lemma grants_any_second:
  assumes "sorted ts"
  shows "granted (filter (\<lambda>g. a \<le> fst g \<and> fst g < a + seconds 1) (grants (limiter_new now) limit ts)) \<le> 2 * unat limit"
proof -
  define before where "before = takeWhile (\<lambda>t. t < a) ts"
  define rest where "rest = dropWhile (\<lambda>t. t < a) ts"
  define inside where "inside = takeWhile (\<lambda>t. t < a + seconds 1) rest"
  define after where "after = dropWhile (\<lambda>t. t < a + seconds 1) rest"
  let ?in = "\<lambda>t. a \<le> t \<and> t < a + seconds 1"
  have ts: "ts = before @ rest" "rest = inside @ after" by (simp_all add: before_def rest_def inside_def after_def)
  have sorted: "sorted rest" "sorted inside" "sorted after" using assms unfolding ts by (simp_all add: sorted_append)
  have lo: "\<not> ?in t" if "t \<in> set before" for t using that set_takeWhileD unfolding before_def by fastforce
  have rest: "a \<le> t" if "t \<in> set rest" for t
  proof (cases rest)
    case (Cons r rs)
    then have "a \<le> r" using hd_dropWhile [of "\<lambda>t. t < a" ts] by (simp add: rest_def)
    then show ?thesis using sorted(1) that Cons by auto
  qed (use that in simp)
  have mid: "?in t" if "t \<in> set inside" for t
    using that rest [of t] set_takeWhileD [of t "\<lambda>t. t < a + seconds 1" rest] ts(2) unfolding inside_def by auto
  have hi: "\<not> ?in t" if "t \<in> set after" for t
  proof (cases after)
    case (Cons r rs)
    then have "a + seconds 1 \<le> r" using hd_dropWhile [of "\<lambda>t. t < a + seconds 1" rest] by (simp add: after_def)
    then show ?thesis using sorted(3) that Cons by auto
  qed (use that in simp)
  have zero: "li_count (limiter_new now) \<le> limit" by (simp add: limiter_new_def)
  obtain l1 where 1: "li_count l1 \<le> limit" "grants (limiter_new now) limit ts = grants (limiter_new now) limit before @ grants l1 limit rest"
    unfolding ts(1) by (rule grants_append_ok [OF zero])
  obtain l2 where 2: "grants l1 limit rest = grants l1 limit inside @ grants l2 limit after"
    unfolding ts(2) by (rule grants_append_ok [OF 1(1)])
  have "filter (\<lambda>g. ?in (fst g)) (grants (limiter_new now) limit ts) = grants l1 limit inside"
    unfolding 1(2) 2 filter_append using filter_grants [of before ?in] filter_grants [of inside ?in] filter_grants [of after ?in] lo mid hi
    by simp
  moreover have "granted (grants l1 limit inside) \<le> (unat limit - unat (li_count l1)) + unat limit"
    by (rule grants_second [OF sorted(2) mid 1(1)])
  ultimately show ?thesis by simp
qed

text \<open>A refusal is earned: \<open>before\<close> are the decisions so far, among them all that the count of the limiter stands for.\<close>

lemma refused_spent:
  assumes "sorted (li_window_start l # ts)" "unat (li_count l) \<le> granted (filter (\<lambda>g. li_window_start l \<le> fst g) before)"
    and "i < length ts" "\<not> snd (grants l limit ts ! i)"
  shows "unat limit \<le> granted (filter (\<lambda>g. ts ! i < fst g + seconds 1) (before @ take i (grants l limit ts)))"
  using assms
proof (induction ts arbitrary: l before i)
  case (Cons t ts)
  obtain ok l' where run: "check_rate_limit l limit t = (ok, l')" by force
  have up: "unat (li_count l + 1) \<le> Suc (unat (li_count l))" by (simp add: unat_word_ariths)
  show ?case
  proof (cases i)
    case 0
    with Cons.prems(4) run have "\<not> ok" by simp
    with run consider "limit = 0" | "\<not> seconds 1 \<le> t - li_window_start l" "limit \<le> li_count l"
      by (auto simp: check_rate_limit_def Let_def word_le_nat_alt unat_eq_0 split: if_splits)
    then show ?thesis
    proof cases
      case 2
      have "granted (filter (\<lambda>g. li_window_start l \<le> fst g) before) \<le> granted (filter (\<lambda>g. t < fst g + seconds 1) before)"
        using 2(1) unfolding granted_def filter_filter by (induction before) (auto simp: seconds_def)
      with 2(2) Cons.prems(2) show ?thesis by (simp add: 0 word_le_nat_alt)
    qed simp
  next
    case (Suc j)
    have "sorted (li_window_start l' # ts)" "unat (li_count l') \<le> granted (filter (\<lambda>g. li_window_start l' \<le> fst g) (before @ [(t, ok)]))"
      using run Cons.prems(1,2) up by (auto simp: check_rate_limit_def Let_def split: if_splits)
    from Cons.IH [OF this, of j] Cons.prems(3,4) show ?thesis by (simp add: Suc run)
  qed
qed simp

text \<open>C18. The limiter throttles, but wastes nothing: it never grants more than twice its limit in any second, wherever
  the second starts; in its first window it grants exactly as many calls as are made, up to the limit; and whenever it
  refuses a call, in whatever window, it has granted its full limit in the second before that call.\<close>

theorem limiter_budget:
  assumes "sorted (now # ts)"
  shows "granted (filter (\<lambda>g. a \<le> fst g \<and> fst g < a + seconds 1) (grants (limiter_new now) limit ts)) \<le> 2 * unat limit \<and>
    granted (grants (limiter_new now) limit (takeWhile (\<lambda>t. t < now + seconds 1) ts)) =
      min (length (takeWhile (\<lambda>t. t < now + seconds 1) ts)) (unat limit) \<and>
    (\<forall>i < length ts. \<not> snd (grants (limiter_new now) limit ts ! i) \<longrightarrow>
      unat limit \<le> granted (filter (\<lambda>g. ts ! i < fst g + seconds 1) (take i (grants (limiter_new now) limit ts))))"
proof (intro conjI allI impI)
  show "granted (filter (\<lambda>g. a \<le> fst g \<and> fst g < a + seconds 1) (grants (limiter_new now) limit ts)) \<le> 2 * unat limit"
    using assms by (intro grants_any_second) simp
  have "li_count (limiter_new now) \<le> limit" by (simp add: limiter_new_def)
  moreover have "t < li_window_start (limiter_new now) + seconds 1" if "t \<in> set (takeWhile (\<lambda>t. t < now + seconds 1) ts)" for t
    using set_takeWhileD [OF that] by (simp add: limiter_new_def)
  ultimately show "granted (grants (limiter_new now) limit (takeWhile (\<lambda>t. t < now + seconds 1) ts)) =
      min (length (takeWhile (\<lambda>t. t < now + seconds 1) ts)) (unat limit)"
    using grants_window [of "takeWhile (\<lambda>t. t < now + seconds 1) ts" "limiter_new now" limit] by (simp add: limiter_new_def)
  show "unat limit \<le> granted (filter (\<lambda>g. ts ! i < fst g + seconds 1) (take i (grants (limiter_new now) limit ts)))"
    if "i < length ts" "\<not> snd (grants (limiter_new now) limit ts ! i)" for i
    using refused_spent [of "limiter_new now" ts "[]" i limit] assms that by (simp add: limiter_new_def)
qed

lemma limiter_budget_witness:
  "granted (filter (\<lambda>g. 5 \<le> fst g \<and> fst g < 5 + seconds 1) (grants (limiter_new 0) 1 [3, 7, 1000000002, 1000000009])) \<le> 2 * unat (1 :: u32) \<and>
    granted (grants (limiter_new 0) 1 (takeWhile (\<lambda>t. t < 0 + seconds 1) [3, 7, 1000000002, 1000000009])) =
      min (length (takeWhile (\<lambda>t. t < 0 + seconds 1) [3, 7, 1000000002, 1000000009])) (unat (1 :: u32)) \<and>
    \<not> snd (grants (limiter_new 0) 1 [3, 7, 1000000002, 1000000009] ! 3) \<and>
    unat (1 :: u32) \<le> granted (filter (\<lambda>g. [3, 7, 1000000002, 1000000009] ! 3 < fst g + seconds 1)
      (take 3 (grants (limiter_new 0) 1 [3, 7, 1000000002, 1000000009])))"
proof -
  let ?ts = "[3, 7, 1000000002, 1000000009] :: nat list"
  have refused: "\<not> snd (grants (limiter_new 0) 1 ?ts ! 3)"
    by (simp add: limiter_new_def check_rate_limit_def seconds_def Let_def)
  have here: "sorted (0 # ?ts)" "3 < length ?ts" by simp_all
  note budget = limiter_budget [OF here(1), of 5 1]
  from budget [THEN conjunct1] budget [THEN conjunct2, THEN conjunct1]
    budget [THEN conjunct2, THEN conjunct2, rule_format, OF here(2) refused] refused
  show ?thesis by (intro conjI)
qed

subsection \<open>The gate\<close>

text \<open>A call that the gate rejects fails with HTTP status 503 or 429, an error that makes the indexer reconnect,
  and never reaches the wrapped node; a call that it lets through gives the wrapped node's answer, except that
  a verbose listing above the body cap becomes an error that does not.\<close>

theorem gate_decides:
  "case gate draw p env s of
     (Inl e, s') \<Rightarrow>
       (\<exists>m. e = HttpStatus 503 m \<or> e = HttpStatus 429 m) \<and> is_reconnectable e \<and>
       rpc_mempool_info (sim_env draw p env) s = (Inl e, s') \<and>
       rpc_raw_mempool_txids (sim_env draw p env) s = (Inl e, s') \<and>
       rpc_raw_mempool_verbose (sim_env draw p env) s = (Inl e, s') \<and>
       rpc_mempool_entry (sim_env draw p env) t s = (Inl e, s') \<and>
       rpc_tip_height (sim_env draw p env) s = (Inl e, s') \<and>
       snd s' \<in> {snd s, snd (instant_now env (snd s))}
   | (Inr _, (sh, w)) \<Rightarrow>
       fst (rpc_mempool_info (sim_env draw p env) s) = fst (rpc_mempool_info env (delay p env w)) \<and>
       fst (rpc_raw_mempool_txids (sim_env draw p env) s) = fst (rpc_raw_mempool_txids env (delay p env w)) \<and>
       fst (rpc_mempool_entry (sim_env draw p env) t s) = fst (rpc_mempool_entry env t (delay p env w)) \<and>
       fst (rpc_tip_height (sim_env draw p env) s) = fst (rpc_tip_height env (delay p env w)) \<and>
       fst (rpc_raw_mempool_verbose (sim_env draw p env) s) =
         (case (fst (rpc_raw_mempool_verbose env (delay p env w)), np_body_cap p) of
            (Inr entries, Some cap) \<Rightarrow> if cap < min (180 * length entries) usize_max then Inl (BodyTooLarge cap) else Inr entries
          | (r, _) \<Rightarrow> r)"
proof -
  obtain r s' where g: "gate draw p env s = (r, s')" by (rule prod.exhaust)
  show ?thesis
  proof (cases r)
    case (Inl e)
    have "\<exists>m. e = HttpStatus 503 m \<or> e = HttpStatus 429 m" "snd s' \<in> {snd s, snd (instant_now env (snd s))}"
      using g Inl by (auto simp: gate_def Let_def split: prod.splits if_splits option.splits)
    moreover from this(1) have "is_reconnectable e" by (auto simp: is_reconnectable_def)
    ultimately show ?thesis using g Inl by (simp add: sim_env_def gated_def cap_body_def)
  next
    case (Inr u)
    then show ?thesis using g
      by (cases s') (auto simp: sim_env_def gated_def cap_body_def case_prod_beta usize_sat_mul_def mult.commute Let_def
          split: sum.split option.split)
  qed
qed

subsection \<open>The local profile\<close>

lemma local_abs: "env_abs snd (sim_env draw local_node env) env"
  by (auto simp: env_abs_def call_abs_def sim_env_def gated_def gate_def drops_def delay_def beside_def local_node_def
      cap_body_def case_prod_beta Let_def prod_eq_iff split: sum.split)

interpretation lp: env_map snd "sim_env draw local_node env" env for draw env
  by unfold_locales (rule local_abs)

text \<open>C17. Behind the local profile the simulated network is invisible to the indexer: any number of ticks of the sync
  loop through it changes the shared state, the published states, the log and the wrapped node exactly as the
  same ticks on the wrapped node itself.\<close>

theorem local_profile_transparent:
  "abs_state snd ((tick (sim_env draw local_node env) cfg ^^ k) s) = (tick env cfg ^^ k) (abs_state snd s)"
  by (rule lp.ticks_abs)

subsection \<open>The indexer in front of a simulated node\<close>

lemma mock_serves:
  assumes "fair_order env"
  shows "node_serves (mock_env rand n env) \<lparr>mi_loaded = Some (\<not> mn_reloading n), mi_mempoolminfee = mn_min_fee n\<rparr>
    (mock_keys rand n) (mock_mempool_entry n)"
  using assms by (simp add: node_serves_def static_answers_def fair_order_def mock_env_def mock_mempool_info_def
      mock_raw_mempool_txids_def)

text \<open>The end-to-end path of the simulation: whatever a simulated node went through, once it stands still and is
  not reloading, the indexer's ticks through the simulated local network bring the cache to exactly the
  node's mempool and set \<open>caught_up\<close>, as soon as 2000 transactions per tick cover what was missing.\<close>

theorem sim_indexer_converges:
  assumes "mock_reach rand mcfg n" "cfg_ok mcfg" "rand_ok rand" "\<not> mn_reloading n" "length (mn_txs n) \<le> usize_max"
    and "fair_order env" "in_budget (mock_env rand n env) (sc_tick_budget cfg)"
    and "al_ok (ms_txs (ss_state s))" "\<not> is_mass_drop (length (ms_txs (ss_state s))) (length (mn_txs n))"
    and "card (dom (al_get (mn_txs n)) - cached s) \<le> 2000 * k" "0 < k"
  shows "cached ((tick (sim_env draw local_node (mock_env rand n env)) cfg ^^ k) s) = dom (al_get (mn_txs n)) \<and>
    ms_caught_up (ss_state ((tick (sim_env draw local_node (mock_env rand n env)) cfg ^^ k) s))"
proof -
  obtain cs where n: "mock_repr n cs" by (rule mock_reachE [OF assms(1-3)])
  have keys: "set (mock_keys rand n) = dom (al_get (mn_txs n))" by (rule set_mock_keys [OF assms(3)])
  have "card (set (mock_keys rand n)) = length (mn_txs n)"
    using mock_repr_length [OF n] distinct_card [OF mock_reprD(3) [OF n]] mock_reprD(4) [OF n] keys by simp
  moreover have "\<forall>x \<in> set (mock_keys rand n). \<exists>e. mock_mempool_entry n x = Inr (Some e)"
    unfolding keys by (auto simp: mock_mempool_entry_def entry_by_txid_def)
  ultimately have "cached ((tick (mock_env rand n env) cfg ^^ k) (abs_state snd s)) = set (mock_keys rand n) \<and>
      ms_caught_up (ss_state ((tick (mock_env rand n env) cfg ^^ k) (abs_state snd s)))"
    using assms by (intro ticks_drain [OF mock_serves]) (simp_all add: unwrap_or_def cached_def keys)
  moreover have "ss_state ((tick (sim_env draw local_node (mock_env rand n env)) cfg ^^ k) s) =
      ss_state ((tick (mock_env rand n env) cfg ^^ k) (abs_state snd s))"
    using arg_cong [OF lp.ticks_abs, of ss_state] by simp
  ultimately show ?thesis unfolding keys by (simp add: cached_def)
qed

definition sim_start :: "(nat net_shared \<times> unit) sync_state" where
  "sim_start = run_init (\<lparr>ns_limiter = limiter_new 0, ns_rng = 0\<rparr>, ()) ''main''"

lemma sim_indexer_converges_witness:
  "cached ((tick (sim_env (\<lambda>r. (0, r)) local_node (mock_env plain_rand pair_node (calm_env []))) some_cfg ^^ 1) sim_start) =
     dom (al_get (mn_txs pair_node)) \<and>
   ms_caught_up (ss_state ((tick (sim_env (\<lambda>r. (0, r)) local_node (mock_env plain_rand pair_node (calm_env []))) some_cfg ^^ 1) sim_start))"
proof (rule sim_indexer_converges [OF pair_reach cpfp_cfg_ok plain_rand_ok])
  have len: "length (mn_txs pair_node) = 2" by (simp add: pair_node_def)
  show "length (mn_txs pair_node) \<le> usize_max" unfolding len by (simp add: usize_max_def)
  show "\<not> mn_reloading pair_node" by (simp add: pair_node_def mock_empty_def)
  show "fair_order (calm_env [])" by (simp add: fair_order_def calm_env_def)
  show "in_budget (mock_env plain_rand pair_node (calm_env [])) (sc_tick_budget some_cfg)"
    by (rule paced_in_budget [where time = "\<lambda>_. 100000000000" and d = 0]) (simp_all add: mock_env_def calm_env_def)
  show "\<not> is_mass_drop (length (ms_txs (ss_state sim_start))) (length (mn_txs pair_node))"
    by (simp add: sim_start_def run_init_def mempool_state_new_def is_mass_drop_def MASS_DROP_MIN_CACHE_SIZE_def)
  show "al_ok (ms_txs (ss_state sim_start))" by (simp add: sim_start_def run_init_def mempool_state_new_def al.ok_empty)
  have "card (dom (al_get (mn_txs pair_node))) \<le> 2" by (simp add: pair_node_def al_get_def card_insert_if)
  then show "card (dom (al_get (mn_txs pair_node)) - cached sim_start) \<le> 2000 * 1"
    using card_Diff_subset_Int [of "dom (al_get (mn_txs pair_node))" "cached sim_start"]
    by (simp add: sim_start_def cached_def run_init_def mempool_state_new_def al_keys_def)
qed simp

subsection \<open>Faulty networks\<close>

lemma mock_snapshot:
  assumes "rand_ok rand" "al_ok (mn_txs n)"
  shows "distinct (map fst (snapshot_entries rand n))" "map_of (snapshot_entries rand n) = entry_by_txid n"
proof -
  have entries: "snapshot_entries rand n = map (\<lambda>t. (t, the (al_get (mn_txs n) t))) (mock_keys rand n)"
  proof -
    have "List.map_filter (\<lambda>t. map_option (Pair t) (m t)) ks = map (\<lambda>t. (t, the (m t))) ks"
      if "\<forall>t \<in> set ks. m t \<noteq> None" for m :: "txid \<rightharpoonup> mempool_entry" and ks
      using that by (induction ks) (auto simp: List.map_filter_simps)
    then show ?thesis unfolding snapshot_entries_def using set_mock_keys [OF assms(1), of n] by (simp add: domIff)
  qed
  then have keys: "map fst (snapshot_entries rand n) = mock_keys rand n" by (simp add: comp_def)
  then show distinct: "distinct (map fst (snapshot_entries rand n))" using mock_keys_distinct [OF assms] by simp
  show "map_of (snapshot_entries rand n) = entry_by_txid n"
  proof
    fix t
    show "map_of (snapshot_entries rand n) t = entry_by_txid n t"
    proof (cases "t \<in> dom (al_get (mn_txs n))")
      case True
      then obtain e where e: "al_get (mn_txs n) t = Some e" by blast
      then have "(t, e) \<in> set (snapshot_entries rand n)"
        using True unfolding entries by (force simp: set_mock_keys [OF assms(1)])
      then show ?thesis using e distinct by (simp add: entry_by_txid_def)
    next
      case False
      then have "t \<notin> set (map fst (snapshot_entries rand n))" unfolding keys by (simp add: set_mock_keys [OF assms(1)])
      then show ?thesis using False by (auto simp: map_of_eq_None_iff entry_by_txid_def domIff)
    qed
  qed
qed

lemma gated_answer: "fst (gated draw p env f s) = Inr a \<Longrightarrow> \<exists>w. fst (f w) = Inr a"
  by (auto simp: gated_def case_prod_beta split: sum.splits prod.splits)

text \<open>Whatever its profile and its draws, the network only delays answers or replaces them by errors.\<close>

lemma sim_truthful:
  assumes "rand_ok rand" "al_ok (mn_txs n)" "fair_order env"
  shows "truthful (sim_env draw p (mock_env rand n env)) (entry_by_txid n)"
proof -
  have "fst (rpc_raw_mempool_verbose (sim_env draw p (mock_env rand n env)) w) = Inr es \<Longrightarrow> es = snapshot_entries rand n" for w es
    by (auto simp: sim_env_def case_prod_beta cap_body_def mock_env_def mock_raw_mempool_verbose_def
        dest!: gated_answer split: sum.splits option.splits if_splits)
  then show ?thesis
    using mock_snapshot [OF assms(1,2)] assms(3) set_mock_keys [OF assms(1), of n]
    by (auto simp: truthful_def sim_env_def mock_env_def mock_raw_mempool_txids_def mock_mempool_entry_def
        entry_by_txid_def [abs_def] fair_order_def beside_def case_prod_beta dest!: gated_answer)
qed

text \<open>C15. Behind any simulated network, with any drop rate, rate limit, latency and body cap, and any draws of its
  generator, the indexer never vouches for anything but the mempool of a simulated node that stands still:
  from start-up on, in every state ever visible, \<open>caught_up\<close> implies that the cache is the node's mempool.\<close>

theorem faulty_network_safe:
  assumes "mock_reach rand mcfg n" "cfg_ok mcfg" "rand_ok rand" "fair_order env"
    and "sync_reach (sim_env draw p (mock_env rand n env)) cfg w net s" "g \<in> set (ss_trace s)" "ms_caught_up g"
  shows "al_get (ms_txs g) t = map_option mempool_tx_from (entry_by_txid n t)"
proof -
  obtain cs where n: "mock_repr n cs" by (rule mock_reachE [OF assms(1-3)])
  have "truthful (sim_env draw p (mock_env rand n env)) (entry_by_txid n)"
    by (rule sim_truthful [OF assms(3) mock_reprD(1) [OF n] assms(4)])
  from lossy_reach [OF assms(5) this] show ?thesis
    using assms(6,7) by (auto simp: lossy_inv_def never_stale_def mirrors_def)
qed

text \<open>A network that drops every fifth call, in front of the node with a parent and its child.\<close>

definition dropping :: network_profile where
  "dropping = local_node\<lparr>np_drop_rate := 1 / 2\<rparr>"

definition every_fifth :: "nat \<Rightarrow> f64 \<times> nat" where
  "every_fifth k = (if k mod 5 = 0 then 0 else 1, k + 1)"

abbreviation dropping_env :: "(nat net_shared \<times> unit) env" where
  "dropping_env \<equiv> sim_env every_fifth dropping (mock_env plain_rand pair_node (calm_env []))"

lemma dropping_starts: "\<exists>s. run_start dropping_env some_cfg (\<lparr>ns_limiter = limiter_new 0, ns_rng = 0\<rparr>, ()) ''main'' = Some s"
proof -
  let ?i = "run_init (\<lparr>ns_limiter = limiter_new 0, ns_rng = 0\<rparr> :: nat net_shared, ()) ''main''"
  let ?s = "?i\<lparr>ss_world := (\<lparr>ns_limiter = limiter_new 0, ns_rng = 2\<rparr>, ())\<rparr>"
  note defs = sim_env_def gated_def gate_def drops_def delay_def beside_def dropping_def local_node_def every_fifth_def
    cap_body_def mock_env_def calm_env_def mock_mempool_info_def mock_raw_mempool_verbose_def mock_tip_height_def
  have "wait_until_mempool_loaded dropping_env poll ?i = Some ?s" for poll
    by (subst wait_step, subst wait_step)
      (simp add: defs gate_open_def gate_retry_def unwrap_or_def run_outside run_return
        reconnect_on_error_def is_reconnectable_def run_init_def mock_reconnect_def pair_node_def mock_empty_def)
  moreover have "load_succeeds dropping_env ?s"
    by (simp add: load_succeeds_def bulk_resync_def defs run_outside run_return write_state_def change_def)
  then have "initial_bulk_load dropping_env poll ?s \<noteq> None" for poll
    using load_returns [of dropping_env 0 poll ?s] by simp
  ultimately show ?thesis by (auto simp: run_start_def)
qed

lemma faulty_network_safe_witness:
  "\<exists>s. sync_reach dropping_env some_cfg (\<lparr>ns_limiter = limiter_new 0, ns_rng = 0\<rparr>, ()) ''main'' s \<and>
    (\<forall>g. g \<in> set (ss_trace s) \<longrightarrow> ms_caught_up g \<longrightarrow>
      al_get (ms_txs g) (Txid 7) = map_option mempool_tx_from (entry_by_txid pair_node (Txid 7)))"
proof -
  let ?w = "(\<lparr>ns_limiter = limiter_new 0, ns_rng = 0\<rparr> :: nat net_shared, ())"
  have fair: "fair_order (calm_env [])" by (simp add: fair_order_def calm_env_def)
  obtain s where "run_start dropping_env some_cfg ?w ''main'' = Some s" using dropping_starts by blast
  then have "sync_reach dropping_env some_cfg ?w ''main'' s" by (rule sync_started)
  with faulty_network_safe [OF pair_reach cpfp_cfg_ok plain_rand_ok fair this] show ?thesis by blast
qed

end
