(* ===== verification/Sim_Serve_Props.thy ===== *)
theory Sim_Serve_Props
  imports Sim_Server Sim_Net_Props
begin

text \<open>
  The simulation server: the cadence of its blocks and restarts, the configuration the command line leads to,
  and what the JSON-RPC client of \<open>rpc.rs\<close> reads back from its answers.
\<close>

subsection \<open>The churn task\<close>

fun fresh_turns :: "'r rand \<Rightarrow> u64 \<Rightarrow> u32 \<Rightarrow> nat \<Rightarrow> 'r churn_state \<Rightarrow> bool" where
  "fresh_turns rand tpb reload_every 0 c \<longleftrightarrow> True"
| "fresh_turns rand tpb reload_every (Suc k) c \<longleftrightarrow> fresh_advance rand (sv_node c) \<and>
     (case churn_turn rand tpb reload_every c of Some c' \<Rightarrow> fresh_turns rand tpb reload_every k c' | None \<Rightarrow> True)"

lemma mine_turn_spec:
  assumes n: "mock_repr (sv_node c) cs" and cfg: "cfg_ok (mn_cfg (sv_node c))" and rand: "rand_ok rand"
    and fresh: "\<not> mn_reloading (sv_node c)"
  shows "\<exists>c' cs'. mine_turn rand reload_every c = Some c' \<and> mock_repr (sv_node c') cs' \<and>
    mn_cfg (sv_node c') = mn_cfg (sv_node c) \<and> ch_tick c' = ch_tick c \<and> ch_blocks c' = ch_blocks c + 1 \<and>
    mn_tip_height (sv_node c') = mn_tip_height (sv_node c) + 1 \<and>
    (mn_reloading (sv_node c') \<longleftrightarrow> reload_every \<noteq> 0 \<and> is_multiple_of (ch_blocks c') reload_every)"
proof -
  obtain n1 cs1 where 1: "mine_block rand (sv_node c) = Some n1" "mock_repr n1 cs1"
      "churned ((sv_node c)\<lparr>mn_tip_height := mn_tip_height (sv_node c) + 1\<rparr>) n1"
    using mine_block_repr [OF n cfg rand] by blast
  show ?thesis
  proof (cases "reload_every \<noteq> 0 \<and> is_multiple_of (ch_blocks c + 1) reload_every")
    case True
    obtain n2 cs2 where 2: "mass_drop rand (f64_round (4 / 5)) n1 = Some n2" "mock_repr n2 cs2" "churned n1 n2"
      using mass_drop_repr [OF 1(2) rand] by blast
    have "mock_repr (reload n2) cs2" using 2(2) by (simp add: reload_def mock_repr_def)
    then show ?thesis using True 1 2 by (auto simp: mine_turn_def Let_def churned_def reload_def)
  next
    case False
    then have "mine_turn rand reload_every c = Some (c\<lparr>sv_node := n1, ch_blocks := ch_blocks c + 1\<rparr>)"
      using 1(1) by (auto simp: mine_turn_def Let_def)
    then show ?thesis using False 1(2,3) fresh by (auto simp: churned_def)
  qed
qed

lemma churn_turn_spec:
  assumes n: "mock_repr (sv_node c) cs" and cfg: "cfg_ok (mn_cfg (sv_node c))" and rand: "rand_ok rand"
    and fresh: "fresh_advance rand (sv_node c)" and mined: "mined \<longleftrightarrow> tpb \<noteq> 0 \<and> is_multiple_of (ch_tick c + 1) tpb"
  shows "\<exists>c' cs'. churn_turn rand tpb reload_every c = Some c' \<and> mock_repr (sv_node c') cs' \<and>
    mn_cfg (sv_node c') = mn_cfg (sv_node c) \<and> ch_tick c' = ch_tick c + 1 \<and>
    ch_blocks c' = ch_blocks c + (if mined then 1 else 0) \<and>
    mn_tip_height (sv_node c') = mn_tip_height (sv_node c) + (if mined then 1 else 0) \<and>
    (mn_reloading (sv_node c') \<longleftrightarrow> mined \<and> reload_every \<noteq> 0 \<and> is_multiple_of (ch_blocks c') reload_every)"
proof -
  obtain n1 cs1 where 1: "advance rand (sv_node c) = Some n1" "mock_repr n1 cs1"
      "churned ((sv_node c)\<lparr>mn_reloading := False\<rparr>) n1"
    using advance_repr [OF n cfg rand fresh] by blast
  let ?c = "c\<lparr>ch_tick := ch_tick c + 1, sv_node := n1\<rparr>"
  have c: "mock_repr (sv_node ?c) cs1" "cfg_ok (mn_cfg (sv_node ?c))" "\<not> mn_reloading (sv_node ?c)"
    using 1 cfg by (simp_all add: churned_def)
  show ?thesis
  proof (cases mined)
    case True
    then have "churn_turn rand tpb reload_every c = mine_turn rand reload_every ?c"
      using 1(1) mined by (simp add: churn_turn_def Let_def)
    then show ?thesis using mine_turn_spec [OF c(1,2) rand c(3), of reload_every] True 1(3) by (auto simp: churned_def)
  next
    case False
    then have "churn_turn rand tpb reload_every c = Some ?c" using 1(1) mined by (auto simp: churn_turn_def Let_def)
    then show ?thesis using False 1(3) c(1) by (auto simp: churned_def)
  qed
qed

text \<open>Blocks mined in the first \<open>t\<close> turns.\<close>

definition blocks_by :: "u64 \<Rightarrow> nat \<Rightarrow> nat" where
  "blocks_by tpb t = (if tpb = 0 then 0 else t div unat tpb)"

lemma blocks_by_Suc:
  assumes "unat t + 1 < 2 ^ 64"
  shows "blocks_by tpb (Suc (unat t)) = blocks_by tpb (unat t) + (if tpb \<noteq> 0 \<and> is_multiple_of (t + 1) tpb then 1 else 0)"
proof -
  have "unat (t + 1) = Suc (unat t)" using assms unat_add_u64 [of t 1] by simp
  then have "is_multiple_of (t + 1) tpb \<longleftrightarrow> Suc (unat t) mod unat tpb = 0" if "tpb \<noteq> 0"
    using that by (simp add: is_multiple_of_def word_unat_eq_iff unat_mod)
  then show ?thesis by (auto simp: blocks_by_def div_Suc)
qed

lemma churn_turns_spec:
  assumes "mock_repr (sv_node c) cs" "cfg_ok (mn_cfg (sv_node c))" "rand_ok rand" "fresh_turns rand tpb reload_every k c"
    and "unat (ch_tick c) + k < 2 ^ 64"
  shows "\<exists>c' cs'. churn_turns rand tpb reload_every k c = Some c' \<and> mock_repr (sv_node c') cs' \<and>
    unat (ch_tick c') = unat (ch_tick c) + k \<and>
    ch_blocks c' + of_nat (blocks_by tpb (unat (ch_tick c))) = ch_blocks c + of_nat (blocks_by tpb (unat (ch_tick c'))) \<and>
    mn_tip_height (sv_node c') + of_nat (blocks_by tpb (unat (ch_tick c))) =
      mn_tip_height (sv_node c) + of_nat (blocks_by tpb (unat (ch_tick c'))) \<and>
    (0 < k \<longrightarrow> (mn_reloading (sv_node c') \<longleftrightarrow>
       tpb \<noteq> 0 \<and> is_multiple_of (ch_tick c') tpb \<and> reload_every \<noteq> 0 \<and> is_multiple_of (ch_blocks c') reload_every))"
  using assms
proof (induction k arbitrary: c cs)
  case 0
  then show ?case by auto
next
  case (Suc k)
  have fresh: "fresh_advance rand (sv_node c)" using Suc.prems(4) by simp
  define mined where "mined \<longleftrightarrow> tpb \<noteq> 0 \<and> is_multiple_of (ch_tick c + 1) tpb"
  obtain c1 cs1 where 1: "churn_turn rand tpb reload_every c = Some c1" "mock_repr (sv_node c1) cs1"
      "mn_cfg (sv_node c1) = mn_cfg (sv_node c)" "ch_tick c1 = ch_tick c + 1" "ch_blocks c1 = ch_blocks c + (if mined then 1 else 0)"
      "mn_tip_height (sv_node c1) = mn_tip_height (sv_node c) + (if mined then 1 else 0)"
      "mn_reloading (sv_node c1) \<longleftrightarrow> mined \<and> reload_every \<noteq> 0 \<and> is_multiple_of (ch_blocks c1) reload_every"
    using churn_turn_spec [OF Suc.prems(1-3) fresh mined_def, of reload_every] by blast
  have tick: "unat (ch_tick c1) = Suc (unat (ch_tick c))" using 1(4) Suc.prems(5) unat_add_u64 [of "ch_tick c" 1] by simp
  have b: "blocks_by tpb (unat (ch_tick c1)) = blocks_by tpb (unat (ch_tick c)) + (if mined then 1 else 0)"
    unfolding tick mined_def using Suc.prems(5) by (intro blocks_by_Suc) simp
  have next_ok: "cfg_ok (mn_cfg (sv_node c1))" "fresh_turns rand tpb reload_every k c1" "unat (ch_tick c1) + k < 2 ^ 64"
    using Suc.prems(2,4,5) 1(1,3) tick by simp_all
  obtain c2 cs2 where 2: "churn_turns rand tpb reload_every k c1 = Some c2" "mock_repr (sv_node c2) cs2"
      "unat (ch_tick c2) = unat (ch_tick c1) + k"
      "ch_blocks c2 + of_nat (blocks_by tpb (unat (ch_tick c1))) = ch_blocks c1 + of_nat (blocks_by tpb (unat (ch_tick c2)))"
      "mn_tip_height (sv_node c2) + of_nat (blocks_by tpb (unat (ch_tick c1))) =
        mn_tip_height (sv_node c1) + of_nat (blocks_by tpb (unat (ch_tick c2)))"
      "0 < k \<longrightarrow> (mn_reloading (sv_node c2) \<longleftrightarrow>
         tpb \<noteq> 0 \<and> is_multiple_of (ch_tick c2) tpb \<and> reload_every \<noteq> 0 \<and> is_multiple_of (ch_blocks c2) reload_every)"
    using Suc.IH [OF 1(2) next_ok(1) Suc.prems(3) next_ok(2,3)] by blast
  have "mn_reloading (sv_node c2) \<longleftrightarrow>
      tpb \<noteq> 0 \<and> is_multiple_of (ch_tick c2) tpb \<and> reload_every \<noteq> 0 \<and> is_multiple_of (ch_blocks c2) reload_every"
  proof (cases "0 < k")
    case False
    then have "c2 = c1" using 2(1) by simp
    then show ?thesis using 1(4,7) mined_def by auto
  qed (use 2(6) in blast)
  moreover have "ch_blocks c2 + of_nat (blocks_by tpb (unat (ch_tick c))) = ch_blocks c + of_nat (blocks_by tpb (unat (ch_tick c2)))"
    using 2(4) 1(5) b by (cases mined) (simp_all add: algebra_simps)
  moreover have "mn_tip_height (sv_node c2) + of_nat (blocks_by tpb (unat (ch_tick c))) =
      mn_tip_height (sv_node c) + of_nat (blocks_by tpb (unat (ch_tick c2)))"
    using 2(5) 1(6) b by (cases mined) (simp_all add: algebra_simps)
  moreover have "churn_turns rand tpb reload_every (Suc k) c = Some c2" "unat (ch_tick c2) = unat (ch_tick c) + Suc k"
    using 1(1) 2(1,3) tick by simp_all
  ultimately show ?case using 2(2) by blast
qed

text \<open>C20. The background task of the simulation server never stops, and keeps its cadence: after \<open>k\<close> turns it has mined
  one block for every \<open>ticks_per_block\<close> turns, the tip has risen by as much, and the node reports that it is
  loading exactly after a turn that mined a block whose number is a multiple of \<open>reload_every\<close>.\<close>

theorem churn_cadence:
  assumes "mock_reach rand cfg n" "cfg_ok cfg" "rand_ok rand" "fresh_turns rand tpb reload_every k (spawn n p now)"
    and "0 < k" "k < 2 ^ 64"
  shows "\<exists>c. churn_turns rand tpb reload_every k (spawn n p now) = Some c \<and>
    ch_blocks c = of_nat (blocks_by tpb k) \<and> mn_tip_height (sv_node c) = mn_tip_height n + of_nat (blocks_by tpb k) \<and>
    (mn_reloading (sv_node c) \<longleftrightarrow>
       tpb \<noteq> 0 \<and> unat tpb dvd k \<and> reload_every \<noteq> 0 \<and> is_multiple_of (of_nat (blocks_by tpb k)) reload_every)"
proof -
  obtain cs where n: "mock_repr n cs" "mn_cfg n = cfg" by (rule mock_reachE [OF assms(1-3)])
  from churn_turns_spec [of "spawn n p now" cs rand tpb reload_every k] n assms obtain c where
    c: "churn_turns rand tpb reload_every k (spawn n p now) = Some c" "unat (ch_tick c) = k"
      "ch_blocks c + of_nat (blocks_by tpb 0) = of_nat (blocks_by tpb k)"
      "mn_tip_height (sv_node c) + of_nat (blocks_by tpb 0) = mn_tip_height n + of_nat (blocks_by tpb k)"
      "mn_reloading (sv_node c) \<longleftrightarrow>
         tpb \<noteq> 0 \<and> is_multiple_of (ch_tick c) tpb \<and> reload_every \<noteq> 0 \<and> is_multiple_of (ch_blocks c) reload_every"
    by (auto simp: spawn_def)
  moreover have "blocks_by tpb 0 = 0" by (simp add: blocks_by_def)
  moreover have "is_multiple_of (ch_tick c) tpb \<longleftrightarrow> unat tpb dvd k" if "tpb \<noteq> 0"
    using that c(2) by (simp add: is_multiple_of_def word_unat_eq_iff unat_mod dvd_eq_mod_eq_0)
  ultimately show ?thesis by auto
qed

lemma churn_cadence_witness:
  "\<exists>c. churn_turns plain_rand 1 1 1 (spawn pair_node local_node 0) = Some c \<and>
    ch_blocks c = of_nat (blocks_by 1 1) \<and> mn_tip_height (sv_node c) = mn_tip_height pair_node + of_nat (blocks_by 1 1) \<and>
    (mn_reloading (sv_node c) \<longleftrightarrow>
       (1 :: u64) \<noteq> 0 \<and> unat (1 :: u64) dvd 1 \<and> (1 :: u32) \<noteq> 0 \<and> is_multiple_of (of_nat (blocks_by 1 1)) (1 :: u32))"
proof (rule churn_cadence [OF pair_reach cpfp_cfg_ok plain_rand_ok])
  have "fresh_advance plain_rand (sv_node (spawn pair_node local_node 0))" using pair_fresh_advance by (simp add: spawn_def)
  then show "fresh_turns plain_rand 1 1 1 (spawn pair_node local_node 0)" by (simp split: option.split)
qed simp_all

subsection \<open>The command line\<close>

lemma block_turns:
  "(unat (ticks_per_block b s) = 0 \<longleftrightarrow> b = 0) \<and>
   unat (ticks_per_block b s) * max 1 (unat s) \<le> max (unat b) (max 1 (unat s)) \<and>
   unat b < Suc (unat (ticks_per_block b s)) * max 1 (unat s)"
proof -
  define d where "d = max 1 (unat s)"
  have d: "unat (max s 1) = d" "0 < d" by (auto simp: d_def max_def word_le_nat_alt)
  then have turns: "unat (ticks_per_block b s) = (if b = 0 then 0 else max 1 (unat b div d))"
    by (auto simp: ticks_per_block_def max_def word_le_nat_alt unat_div)
  have div: "unat b div d * d \<le> unat b" "unat b < Suc (unat b div d) * d"
    using d(2) dividend_less_div_times [of d "unat b"] by simp_all
  show ?thesis
  proof (cases "unat b < d")
    case True
    then show ?thesis using d(2) unfolding turns d_def [symmetric] by (simp add: max_def)
  next
    case False
    then have "1 \<le> unat b div d" "b \<noteq> 0" using d(2) div_le_mono [of d "unat b" d] by auto
    then have t: "unat (ticks_per_block b s) = unat b div d" unfolding turns by simp
    show ?thesis unfolding t d_def [symmetric] using div False \<open>1 \<le> unat b div d\<close> \<open>b \<noteq> 0\<close> by simp
  qed
qed

text \<open>C37. Whatever numbers the command line gives, not-a-number and infinities included, the simulation starts from
  a sound configuration.  The CPFP fraction is the given number, moved into the range from 0 to 1; the skew is the
  given number, raised to a tenth where it is smaller, with the defaults 3 for not-a-number and 1 for infinity; the chain
  length is at least one; totals fit 64 bits unless the chain length exceeds 10^11; and the turns between two
  blocks are the whole turns that the block interval has room for, at least one, or none for an interval of
  zero.\<close>

theorem sim_config_sound:
  "cc_cpfp_fraction (sim_churn_config args) =
     (case sa_cpfp_fraction args of Finite x \<Rightarrow> if x < 0 then 0 else if 1 < x then 1 else x | PosInf \<Rightarrow> 1 | NegInf \<Rightarrow> 0 | NaN \<Rightarrow> 0) \<and>
   fd_skew (cc_fee (sim_churn_config args)) =
     (case sa_fee_skew args of Finite x \<Rightarrow> max x (f64_round (1 / 10)) | PosInf \<Rightarrow> 1 | NegInf \<Rightarrow> f64_round (1 / 10) | NaN \<Rightarrow> 3) \<and>
   f64_round (1 / 10) \<le> fd_skew (cc_fee (sim_churn_config args)) \<and> 0 < f64_round (1 / 10) \<and>
   1 \<le> cc_max_chain (sim_churn_config args) \<and> (cfg_ok (sim_churn_config args) \<or> 10 ^ 11 < sa_max_chain args) \<and>
   (unat (ticks_per_block b s) = 0 \<longleftrightarrow> b = 0) \<and>
   unat (ticks_per_block b s) * max 1 (unat s) \<le> max (unat b) (max 1 (unat s)) \<and>
   unat b < Suc (unat (ticks_per_block b s)) * max 1 (unat s)"
proof -
  have tenth: "0 < f64_round (1 / 10)" "f64_round (1 / 10) \<le> 1" by code_simp+
  have fee: "fee_cap (sim_churn_config args) = 50000000" by (simp add: fee_cap_def sim_churn_config_def fd_skewed_def)
  have skew: "fd_skew (cc_fee (sim_churn_config args)) =
      (case sa_fee_skew args of Finite x \<Rightarrow> max x (f64_round (1 / 10)) | PosInf \<Rightarrow> 1 | NegInf \<Rightarrow> f64_round (1 / 10) | NaN \<Rightarrow> 3)"
    using tenth(1) by (simp add: sim_churn_config_def fd_skewed_def floor_skew_def max_def split: f64v.split)
  then have low: "f64_round (1 / 10) \<le> fd_skew (cc_fee (sim_churn_config args))" using tenth by (simp split: f64v.split)
  have "max 1 (sa_max_chain args) * 50400000 < 2 ^ 63" if "sa_max_chain args \<le> 10 ^ 11"
    using mult_le_mono1 [of "max 1 (sa_max_chain args)" "10 ^ 11" 50400000] that by simp
  then have "cfg_ok (sim_churn_config args) \<or> 10 ^ 11 < sa_max_chain args"
    using less_le_trans [OF tenth(1) low] unfolding cfg_ok_def fee by (auto simp: chain_cap_def sim_churn_config_def max.commute)
  moreover have "(unat (ticks_per_block b s) = 0 \<longleftrightarrow> b = 0) \<and>
      unat (ticks_per_block b s) * max 1 (unat s) \<le> max (unat b) (max 1 (unat s)) \<and>
      unat b < Suc (unat (ticks_per_block b s)) * max 1 (unat s)" by (rule block_turns)
  ultimately show ?thesis using skew low tenth(1) by (simp add: sim_churn_config_def clamp_fraction_def min_def max_def split: f64v.split)
qed

subsection \<open>What the client reads back\<close>

text \<open>The field of an object, null when absent; the envelope that the fields of a response stand for.\<close>

definition json_field :: "json \<Rightarrow> string \<Rightarrow> json" where
  "json_field j k = (case j of JObject fs \<Rightarrow> unwrap_or (map_of fs (ustr k)) JNull | _ \<Rightarrow> JNull)"

definition envelope_value :: "json \<Rightarrow> rpc_response" where
  "envelope_value j =
     \<lparr>rr_result = json_field j ''result'',
      rr_error = (case (json_field (json_field j ''error'') ''code'', json_field (json_field j ''error'') ''message'') of
        (JNum code, JString message) \<Rightarrow> Some \<lparr>re_code = code, re_message = message\<rparr> | _ \<Rightarrow> None)\<rparr>"

text \<open>
  Named hypotheses about the libraries.  \<open>carries\<close>: the HTTP stack delivers status and body of a response.
  \<open>decodes_entries\<close>: the derived decoder of \<open>MempoolEntry\<close> reads the named fields, takes an absent \<open>time\<close> and a
  null \<open>weight\<close> as \<open>None\<close>, and undoes the rendering of ids and, up to 21 million coins, of amounts.
\<close>

definition carries :: "(json \<Rightarrow> byte list) \<Rightarrow> response \<Rightarrow> http_response \<Rightarrow> bool" where
  "carries render r resp \<longleftrightarrow>
     (case r of
        EmptyStatus s \<Rightarrow> hr_status resp = s \<and> hr_chunks resp = [] \<and> hr_content_length resp \<in> {None, Some 0}
      | JsonBody j \<Rightarrow> hr_status resp = 200 \<and> (\<exists>bs. hr_chunks resp = map Inr bs \<and> concat bs = render j) \<and>
          hr_content_length resp \<in> {None, Some (length (render j))})"

definition payable :: "mempool_entry \<Rightarrow> bool" where
  "payable e \<longleftrightarrow> (\<forall>a \<in> {ef_base (me_fees e), ef_ancestor (me_fees e), ef_descendant (me_fees e)}. unat a \<le> 2100000000000000)"

definition decodes_entries :: "wire \<Rightarrow> (json \<Rightarrow> ustring + mempool_entry) \<Rightarrow> bool" where
  "decodes_entries w decode \<longleftrightarrow> (\<forall>fs gs e.
     map_of fs (ustr ''vsize'') = Some (json_u64 (me_vsize e)) \<longrightarrow>
     map_of fs (ustr ''weight'') = Some (case me_weight e of Some n \<Rightarrow> json_u64 n | None \<Rightarrow> JNull) \<longrightarrow>
     map_of fs (ustr ''depends'') = Some (JArray (map (\<lambda>d. JString (wr_show_txid w d)) (me_depends e))) \<longrightarrow>
     map_of fs (ustr ''fees'') = Some (JObject gs) \<longrightarrow>
     map_of gs (ustr ''base'') = Some (JFloat (wr_to_btc w (ef_base (me_fees e)))) \<longrightarrow>
     map_of gs (ustr ''ancestor'') = Some (JFloat (wr_to_btc w (ef_ancestor (me_fees e)))) \<longrightarrow>
     map_of gs (ustr ''descendant'') = Some (JFloat (wr_to_btc w (ef_descendant (me_fees e)))) \<longrightarrow>
     map_of fs (ustr ''ancestorsize'') = Some (json_u64 (me_ancestorsize e)) \<longrightarrow>
     map_of fs (ustr ''descendantsize'') = Some (json_u64 (me_descendantsize e)) \<longrightarrow>
     map_of fs (ustr ''time'') = map_option json_u64 (me_time e) \<longrightarrow>
     payable e \<longrightarrow> decode (JObject fs) = Inr e)"

lemma map_of_obj [simp]: "map_of (map (\<lambda>(k, v). (ustr k, v)) fs) (ustr k) = map_of fs k"
  by (induction fs) auto

lemma decode_served_entry:
  assumes "decodes_entries w decode" "payable e"
  shows "decode (verbose_entry_json w e) = Inr (e\<lparr>me_time := None\<rparr>)"
proof -
  have "payable (e\<lparr>me_time := None\<rparr>)" using assms(2) by (simp add: payable_def)
  then show ?thesis
    unfolding verbose_entry_json_def json_obj_def
    by (intro assms(1) [unfolded decodes_entries_def, rule_format], simp_all split: option.split, simp_all)
qed

lemma envelope_ok [simp]: "envelope_value (json_obj [(''result'', v), (''error'', JNull), (''id'', JNum 0)]) = \<lparr>rr_result = v, rr_error = None\<rparr>"
  by (simp add: envelope_value_def json_field_def json_obj_def unwrap_or_def)

lemma envelope_error [simp]:
  "envelope_value (json_obj [(''result'', JNull), (''error'', json_obj [(''code'', JNum c), (''message'', JString m)]), (''id'', JNum 0)]) =
    \<lparr>rr_result = JNull, rr_error = Some \<lparr>re_code = c, re_message = m\<rparr>\<rparr>"
  by (simp add: envelope_value_def json_field_def json_obj_def unwrap_or_def)

text \<open>The client's reading of a parsed envelope, and of a response that carries a JSON body within the limit.\<close>

definition decoded :: "(json \<Rightarrow> ustring + 'a) \<Rightarrow> rpc_response \<Rightarrow> rpc_error + 'a" where
  "decoded decode v =
     (case rr_error v of
        Some err \<Rightarrow> Inl (RpcErr (re_code err) (re_message err))
      | None \<Rightarrow> (case decode (rr_result v) of Inl e \<Rightarrow> Inl (DecodeError e) | Inr v \<Rightarrow> Inr v))"

lemma classify_json:
  assumes "carries render (JsonBody j) resp" "envelope (render j) = Inr (envelope_value j)"
  shows "classify envelope decode lossy resp b =
    (if length (render j) \<le> b then decoded decode (envelope_value j) else Inl (BodyTooLarge b))"
proof (cases "length (render j) \<le> b")
  case True
  then have "hr_status resp = 200" "read_body_bounded resp b = Inr (render j)"
    using assms(1) by (auto simp: carries_def read_body_bounded_Inr)
  then show ?thesis using assms(2) True by (simp add: classify_def decoded_def)
next
  case False
  then obtain bs where bs: "hr_status resp = 200" "hr_chunks resp = map Inr bs" "concat bs = render j"
    "hr_content_length resp \<in> {None, Some (length (render j))}" using assms(1) by (auto simp: carries_def)
  have "read_body_bounded resp b = Inl (BodyTooLarge b)"
  proof (cases "read_body_bounded resp b")
    case (Inl e)
    have "Inl m \<notin> set (hr_chunks resp)" for m using bs(2) by auto
    then show ?thesis using Inl read_chunks_errors [of b "[]" "hr_chunks resp" e]
      by (auto simp: read_body_bounded_def split: option.splits if_splits)
  next
    case (Inr body)
    then show ?thesis using False bs unfolding read_body_bounded_Inr by (auto dest: map_injective)
  qed
  then show ?thesis using bs(1) False by (simp add: classify_def)
qed

lemma classify_empty:
  assumes "carries render (EmptyStatus k) resp" "isl (envelope [])" "\<not> is_success k" "k \<noteq> 401" "k \<noteq> 403"
  shows "classify envelope decode lossy resp b = Inl (HttpStatus k (truncate_str (lossy []) MAX_ERR_BODY_LEN))"
proof -
  obtain m where "envelope [] = Inl m" using assms(2) by (auto simp: isl_def)
  moreover have "read_body_bounded resp b = Inr []" using assms(1) by (auto simp: carries_def read_body_bounded_Inr)
  ultimately show ?thesis using assms by (simp add: classify_def carries_def)
qed

text \<open>C19. The entry of a transaction travels whole: through the limiter, the dispatch, JSON, HTTP and the client's
  classification, \<open>mempool_entry\<close> returns what the simulated node holds, except for the time, which the
  server does not send; a transaction that is not in the mempool comes back as \<open>Ok(None)\<close>, and a
  throttled request as HTTP status 429.\<close>

theorem sim_entry_over_http:
  assumes "handle_rpc rand w wait now \<lparr>jq_method = ustr ''getmempoolentry'', jq_params = [JString (wr_show_txid w t)]\<rparr> st = (r, st')"
    and "carries render r resp" "\<And>c req. hq_body req = request_body ''getmempoolentry'' (JArray [JString (wr_show_txid w t)]) \<Longrightarrow> net c req = Inr resp"
    and "case r of JsonBody j \<Rightarrow> envelope (render j) = Inr (envelope_value j) \<and> length (render j) \<le> MAX_BODY_CONTROL | EmptyStatus _ \<Rightarrow> isl (envelope [])"
    and "decodes_entries w decode" "wr_parse_txid w (wr_show_txid w t) = Some t"
    and "\<And>e. entry_by_txid (sv_node st') t = Some e \<Longrightarrow> payable e"
  shows "mempool_entry_call (wr_show_txid w) (call net envelope decode lossy rpc) t =
    (case r of
       EmptyStatus _ \<Rightarrow> Inl (HttpStatus 429 (truncate_str (lossy []) MAX_ERR_BODY_LEN))
     | JsonBody _ \<Rightarrow> Inr (map_option (\<lambda>e. e\<lparr>me_time := None\<rparr>) (entry_by_txid (sv_node st') t)))"
proof -
  let ?call = "call net envelope decode lossy rpc ''getmempoolentry'' (JArray [JString (wr_show_txid w t)]) MAX_BODY_CONTROL"
  have run: "?call = classify envelope decode lossy resp MAX_BODY_CONTROL" using assms(3) by (simp add: call_def)
  have r: "r = EmptyStatus 429 \<or> r = dispatch rand w (sv_node st') (ustr ''getmempoolentry'') [JString (wr_show_txid w t)]"
    using assms(1) by (auto simp: handle_rpc_def Let_def split: prod.splits if_splits)
  show ?thesis
  proof (cases r)
    case (EmptyStatus s)
    then have s: "s = 429" using r by (auto simp: dispatch_def ok_response_def error_response_def Let_def split: if_splits option.splits)
    have "?call = Inl (HttpStatus 429 (truncate_str (lossy []) MAX_ERR_BODY_LEN))"
      unfolding run using assms(2,4) EmptyStatus s by (intro classify_empty) (simp_all add: is_success_def)
    then show ?thesis using EmptyStatus by (simp add: mempool_entry_call_def)
  next
    case (JsonBody j)
    have sees: "?call = decoded decode (envelope_value j)"
      using classify_json [of render j resp envelope decode lossy MAX_BODY_CONTROL] assms(2,4) JsonBody by (simp add: run)
    have body: "JsonBody j = (case entry_by_txid (sv_node st') t of
        Some e \<Rightarrow> ok_response (verbose_entry_json w e) | None \<Rightarrow> error_response (- 5) (ustr ''Transaction not in mempool''))"
      using r JsonBody assms(6) by (simp add: dispatch_def json_first_def json_as_str_def unwrap_or_def)
    show ?thesis
    proof (cases "entry_by_txid (sv_node st') t")
      case None
      then have "?call = Inl (RpcErr (- 5) (ustr ''Transaction not in mempool''))" using body sees by (simp add: error_response_def decoded_def)
      then show ?thesis using None JsonBody by (simp add: mempool_entry_call_def RPC_INVALID_ADDRESS_OR_KEY_def)
    next
      case (Some e)
      then have "?call = Inr (e\<lparr>me_time := None\<rparr>)"
        using body sees decode_served_entry [OF assms(5) assms(7) [OF Some]] by (simp add: ok_response_def decoded_def)
      then show ?thesis using Some JsonBody by (simp add: mempool_entry_call_def)
    qed
  qed
qed

subsection \<open>A concrete instance\<close>

definition plain_wire :: wire where
  "plain_wire = \<lparr>wr_show_txid = (\<lambda>t. [unat (txid_word t)]),
     wr_parse_txid = (\<lambda>s. case s of [n] \<Rightarrow> Some (Txid (of_nat n)) | _ \<Rightarrow> None),
     wr_to_btc = (\<lambda>a. of_nat (unat a) / 100000000)\<rparr>"

lemma plain_id [simp]: "wr_parse_txid plain_wire (wr_show_txid plain_wire t) = Some t"
  by (simp add: plain_wire_def)

definition plain_num :: "(ustring \<times> json) list \<Rightarrow> string \<Rightarrow> u64 option" where
  "plain_num fs k = (case map_of fs (ustr k) of Some (JNum n) \<Rightarrow> Some (word_of_int n) | _ \<Rightarrow> None)"

definition plain_amount :: "(ustring \<times> json) list \<Rightarrow> string \<Rightarrow> u64" where
  "plain_amount gs k = (case map_of gs (ustr k) of Some (JFloat x) \<Rightarrow> of_nat (nat \<lfloor>x * 100000000\<rfloor>) | _ \<Rightarrow> 0)"

definition plain_decode :: "json \<Rightarrow> ustring + mempool_entry" where
  "plain_decode j = (case j of JObject fs \<Rightarrow>
     (case (map_of fs (ustr ''fees''), map_of fs (ustr ''depends'')) of
        (Some (JObject gs), Some (JArray ds)) \<Rightarrow> Inr
          \<lparr>me_vsize = unwrap_or (plain_num fs ''vsize'') 0, me_weight = plain_num fs ''weight'',
           me_depends = List.map_filter (\<lambda>d. case d of JString s \<Rightarrow> wr_parse_txid plain_wire s | _ \<Rightarrow> None) ds,
           me_fees = \<lparr>ef_base = plain_amount gs ''base'', ef_ancestor = plain_amount gs ''ancestor'',
             ef_descendant = plain_amount gs ''descendant''\<rparr>,
           me_ancestorsize = unwrap_or (plain_num fs ''ancestorsize'') 0,
           me_descendantsize = unwrap_or (plain_num fs ''descendantsize'') 0, me_time = plain_num fs ''time''\<rparr>
      | _ \<Rightarrow> Inl [])
   | _ \<Rightarrow> Inl [])"

lemma plain_decodes: "decodes_entries plain_wire plain_decode"
proof -
  have ids: "List.map_filter (\<lambda>d. case d of JString s \<Rightarrow> wr_parse_txid plain_wire s | _ \<Rightarrow> None)
      (map (\<lambda>d. JString (wr_show_txid plain_wire d)) ds) = ds" for ds
    by (induction ds) (simp_all add: List.map_filter_simps)
  have btc: "word_of_nat (nat \<lfloor>wr_to_btc plain_wire a * 100000000\<rfloor>) = a" for a :: u64
  proof -
    have "wr_to_btc plain_wire a * 100000000 = of_nat (unat a)" by (simp add: plain_wire_def)
    then show ?thesis by (simp only: floor_of_nat nat_int) simp
  qed
  show ?thesis
    unfolding decodes_entries_def
    by (auto simp: plain_decode_def plain_num_def plain_amount_def json_u64_def ids btc unwrap_or_def split: option.splits)
qed

definition plain_body :: json where
  "plain_body = json_obj [(''result'', verbose_entry_json plain_wire child_entry), (''error'', JNull), (''id'', JNum 0)]"

lemma plain_served:
  "handle_rpc plain_rand plain_wire (\<lambda>d s. s) 0 \<lparr>jq_method = ustr ''getmempoolentry'', jq_params = [JString (wr_show_txid plain_wire (Txid 8))]\<rparr>
     (spawn pair_node local_node 0) = (JsonBody plain_body, spawn pair_node local_node 0)"
proof -
  have "entry_by_txid pair_node (Txid 8) = Some child_entry" by (simp add: entry_by_txid_def pair_node_def al_get_def)
  then show ?thesis
    by (simp add: handle_rpc_def spawn_def local_node_def dispatch_def json_first_def json_as_str_def unwrap_or_def
        ok_response_def plain_body_def)
qed

lemma sim_entry_over_http_witness:
  "mempool_entry_call (wr_show_txid plain_wire) (call (\<lambda>c req. Inr \<lparr>hr_status = 200, hr_content_length = None, hr_chunks = [Inr [1]]\<rparr>)
     (\<lambda>bs. Inr (envelope_value plain_body)) plain_decode (\<lambda>bs. []) some_rpc) (Txid 8) =
   Inr (Some (child_entry\<lparr>me_time := None\<rparr>))"
proof -
  let ?net = "\<lambda>c req. Inr \<lparr>hr_status = 200, hr_content_length = None, hr_chunks = [Inr [1]]\<rparr>"
  have e: "entry_by_txid (sv_node (spawn pair_node local_node 0)) (Txid 8) = Some child_entry"
    by (simp add: spawn_def entry_by_txid_def pair_node_def al_get_def)
  have "mempool_entry_call (wr_show_txid plain_wire) (call ?net (\<lambda>bs. Inr (envelope_value plain_body)) plain_decode (\<lambda>bs. []) some_rpc) (Txid 8) =
      (case JsonBody plain_body of
         EmptyStatus _ \<Rightarrow> Inl (HttpStatus 429 (truncate_str [] MAX_ERR_BODY_LEN))
       | JsonBody _ \<Rightarrow> Inr (map_option (\<lambda>e. e\<lparr>me_time := None\<rparr>) (entry_by_txid (sv_node (spawn pair_node local_node 0)) (Txid 8))))"
    by (rule sim_entry_over_http [OF plain_served, where render = "\<lambda>j. [1]"
          and resp = "\<lparr>hr_status = 200, hr_content_length = None, hr_chunks = [Inr [1]]\<rparr>"])
      (use e in \<open>auto simp: carries_def MAX_BODY_CONTROL_def plain_decodes payable_def child_entry_def intro: exI [of _ "[[1]]"]\<close>)
  then show ?thesis using e by simp
qed

end
