(* ===== verification/Sim_Http.thy ===== *)
theory Sim_Http
  imports Sim_Serve_Props Sim_Net_Props Rpc_Env
begin

text \<open>
  The whole system at once: the sync loop (\<open>sync/mod.rs\<close>) over the real client (\<open>rpc.rs\<close>) over HTTP to the
  simulation server (\<open>sim/server.rs\<close>) over a simulated node (\<open>sim/mock_node.rs\<close>).  What the libraries between the
  two ends do is stated as \<open>http_stack\<close> and \<open>codecs\<close>; any exchange may fail and any request may be throttled.
\<close>

subsection \<open>The libraries between client and server\<close>

text \<open>The requests the client makes.\<close>

definition client_request :: "wire \<Rightarrow> string \<Rightarrow> json list \<Rightarrow> bool" where
  "client_request w m ps \<longleftrightarrow>
     m \<in> {''getblockchaininfo'', ''getmempoolinfo''} \<and> ps = [] \<or>
     m = ''getrawmempool'' \<and> (\<exists>b. ps = [JBool b]) \<or>
     m = ''getmempoolentry'' \<and> (\<exists>t. ps = [JString (wr_show_txid w t)])"

text \<open>A response the server may give at some moment at which it wraps the node \<open>n\<close>.\<close>

definition served :: "'r rand \<Rightarrow> wire \<Rightarrow> 'r mock_node \<Rightarrow> string \<Rightarrow> json list \<Rightarrow> response \<Rightarrow> bool" where
  "served rand w n m ps r \<longleftrightarrow> (\<exists>wait now (st :: 'r server_state) st'.
     handle_rpc rand w wait now \<lparr>jq_method = ustr m, jq_params = ps\<rparr> st = (r, st') \<and> sv_node st' = n)"

lemma served_cases:
  assumes "served rand w n m ps r"
  shows "r = EmptyStatus 429 \<or> (\<exists>j. r = JsonBody j \<and> dispatch rand w n (ustr m) ps = JsonBody j)"
proof -
  obtain wait now st st' where "handle_rpc rand w wait now \<lparr>jq_method = ustr m, jq_params = ps\<rparr> (st :: 'a server_state) = (r, st')"
    "sv_node st' = n" using assms unfolding served_def by blast
  then have "r = EmptyStatus 429 \<or> r = dispatch rand w n (ustr m) ps"
    by (auto simp: handle_rpc_def Let_def split: prod.splits if_splits)
  moreover have "dispatch rand w n (ustr m) ps \<noteq> EmptyStatus k" for k
    by (simp add: dispatch_def ok_response_def error_response_def Let_def split: option.split)
  ultimately show ?thesis by (cases r) metis+
qed

text \<open>An exchange that succeeds delivers a response of the server, and the client's parser reads what the
  server's printer wrote; the empty body of a throttled request is not JSON.\<close>

definition http_stack :: "'r rand \<Rightarrow> wire \<Rightarrow> 'r mock_node \<Rightarrow> (json \<Rightarrow> byte list) \<Rightarrow> ('w, 'c) libs \<Rightarrow> bool" where
  "http_stack rand w n render lb \<longleftrightarrow>
     (\<forall>v c req m ps resp. client_request w m ps \<longrightarrow> hq_body req = request_body m (JArray ps) \<longrightarrow>
        lb_net lb v c req = Inr resp \<longrightarrow> (\<exists>r. served rand w n m ps r \<and> carries render r resp)) \<and>
     (\<forall>m ps j. client_request w m ps \<longrightarrow> dispatch rand w n (ustr m) ps = JsonBody j \<longrightarrow>
        lb_envelope lb (render j) = Inr (envelope_value j)) \<and>
     isl (lb_envelope lb [])"

text \<open>The decoders: ids are printed and parsed by the same crate, entries as in \<open>decodes_entries\<close>, and a map
  is decoded value by value into distinct keys.\<close>

definition codecs :: "wire \<Rightarrow> ('w, 'c) libs \<Rightarrow> bool" where
  "codecs w lb \<longleftrightarrow>
     (\<forall>t. wr_parse_txid w (wr_show_txid w t) = Some t \<and> lb_show_txid lb t = wr_show_txid w t) \<and>
     decodes_entries w (lb_decode_entry lb) \<and>
     (\<forall>ts. lb_decode_txids lb (JArray (map (\<lambda>t. JString (wr_show_txid w t)) ts)) = Inr ts) \<and>
     (\<forall>js es. distinct (map fst js) \<longrightarrow> map fst js = map fst es \<longrightarrow>
        map (\<lambda>(t, j). lb_decode_entry lb j) js = map (\<lambda>(t, e). Inr e) es \<longrightarrow>
        (\<exists>es'. lb_decode_verbose lb (JObject (map (\<lambda>(t, j). (wr_show_txid w t, j)) js)) = Inr es' \<and>
           distinct (map fst es') \<and> map_of es' = map_of es))"

text \<open>What the server leaves out of an entry.\<close>

definition timeless :: "mempool_entry \<Rightarrow> mempool_entry" where
  "timeless e = e\<lparr>me_time := None\<rparr>"

subsection \<open>Every successful call is the truth\<close>

lemma call_answered:
  assumes "http_stack rand w n render lb" "client_request w m ps"
    and "call (lb_net lb v) (lb_envelope lb) decode (lb_lossy lb) rpc m (JArray ps) b = res"
  shows "(\<exists>e. res = Inl e \<and> (\<forall>c m. e \<noteq> RpcErr c m)) \<or>
    (\<exists>j. dispatch rand w n (ustr m) ps = JsonBody j \<and> res = decoded decode (envelope_value j))"
proof -
  let ?req = "\<lparr>hq_url = rpc_url rpc, hq_body = request_body m (JArray ps),
    hq_basic_auth = (case rpc_auth rpc of BasicAuth user pass \<Rightarrow> Some (user, pass) | NoAuth \<Rightarrow> None)\<rparr>"
  show ?thesis
  proof (cases "lb_net lb v (rpc_http rpc) ?req")
    case (Inl e)
    then show ?thesis using assms(3) by (auto simp: call_def)
  next
    case (Inr resp)
    then have res: "res = classify (lb_envelope lb) decode (lb_lossy lb) resp b" using assms(3) by (simp add: call_def)
    obtain r where r: "served rand w n m ps r" "carries render r resp"
      using assms(1,2) Inr unfolding http_stack_def by (meson http_request.select_convs(2))
    from served_cases [OF r(1)] show ?thesis
    proof (elim disjE exE conjE)
      assume "r = EmptyStatus 429"
      then show ?thesis
        using classify_empty [of render 429 resp "lb_envelope lb" decode "lb_lossy lb" b] r(2) assms(1) by (simp add: res http_stack_def is_success_def)
    next
      fix j assume j: "r = JsonBody j" "dispatch rand w n (ustr m) ps = JsonBody j"
      then have "lb_envelope lb (render j) = Inr (envelope_value j)" using assms(1,2) unfolding http_stack_def by blast
      then show ?thesis
        using classify_json [of render j resp "lb_envelope lb" decode "lb_lossy lb" b] r(2) j by (auto simp: res)
    qed
  qed
qed

lemma decoded_Inr: "decoded decode v = Inr a \<longleftrightarrow> rr_error v = None \<and> decode (rr_result v) = Inr a"
  by (auto simp: decoded_def split: option.split sum.splits)

lemma decoded_RpcErr: "decoded decode v = Inl (RpcErr c m) \<longleftrightarrow> rr_error v = Some \<lparr>re_code = c, re_message = m\<rparr>"
  by (auto simp: decoded_def split: option.split sum.splits)

lemma fold_update_distinct:
  "distinct (map fst kvs) \<Longrightarrow> fst ` set kvs \<inter> fst ` set m = {} \<Longrightarrow> fold (\<lambda>(k, v). AList.update k v) kvs m = m @ kvs"
proof (induction kvs arbitrary: m)
  case (Cons kv kvs)
  obtain k v where kv: "kv = (k, v)" by (rule prod.exhaust)
  have "k \<notin> fst ` set m" using Cons.prems(2) by (auto simp: kv)
  then have "AList.update k v m = m @ [(k, v)]" by (induction m) auto
  then show ?case using Cons by (auto simp: kv)
qed simp

definition http_sim :: "'r rand \<Rightarrow> wire \<Rightarrow> 'r mock_node \<Rightarrow> (json \<Rightarrow> byte list) \<Rightarrow> ('w, 'c) libs \<Rightarrow> bool" where
  "http_sim rand w n render lb \<longleftrightarrow> http_stack rand w n render lb \<and> codecs w lb \<and> rand_ok rand \<and>
     al_ok (mn_txs n) \<and> (\<forall>t e. entry_by_txid n t = Some e \<longrightarrow> payable e)"

lemma http_simD: "http_sim rand w n render lb \<Longrightarrow> http_stack rand w n render lb"
  by (simp add: http_sim_def)

lemma entry_body:
  assumes sim: "http_sim rand w n render lb"
    and j: "dispatch rand w n (ustr ''getmempoolentry'') [JString (wr_show_txid w t)] = JsonBody j"
  shows "(case decoded (lb_decode_entry lb) (envelope_value j) of Inr e \<Rightarrow> Inr (Some e)
      | Inl (RpcErr c m) \<Rightarrow> if c = RPC_INVALID_ADDRESS_OR_KEY then Inr None else Inl (RpcErr c m) | Inl e \<Rightarrow> Inl e) =
    Inr (map_option timeless (entry_by_txid n t))"
proof -
  have ids: "wr_parse_txid w (wr_show_txid w t) = Some t" "decodes_entries w (lb_decode_entry lb)"
    using sim by (auto simp: http_sim_def codecs_def)
  show ?thesis
  proof (cases "entry_by_txid n t")
    case None
    then have "decoded (lb_decode_entry lb) (envelope_value j) = Inl (RpcErr (- 5) (ustr ''Transaction not in mempool''))"
      using j ids(1) by (auto simp: dispatch_def json_first_def json_as_str_def unwrap_or_def error_response_def decoded_RpcErr)
    then show ?thesis using None by (simp add: RPC_INVALID_ADDRESS_OR_KEY_def)
  next
    case (Some e)
    then have "decoded (lb_decode_entry lb) (envelope_value j) = Inr (timeless e)"
      using j ids(1) decode_served_entry [OF ids(2)] sim Some
      by (auto simp: dispatch_def json_first_def json_as_str_def unwrap_or_def ok_response_def decoded_Inr timeless_def http_sim_def)
    then show ?thesis using Some by simp
  qed
qed

lemma txids_body:
  assumes sim: "http_sim rand w n render lb"
    and j: "dispatch rand w n (ustr ''getrawmempool'') [JBool False] = JsonBody j"
  shows "decoded (lb_decode_txids lb) (envelope_value j) = Inr (map fst (snapshot_entries rand n))"
proof -
  have ids: "map (\<lambda>(t, _). JString (wr_show_txid w t)) (snapshot_entries rand n) =
      map (\<lambda>t. JString (wr_show_txid w t)) (map fst (snapshot_entries rand n))" by (simp add: case_prod_beta comp_def)
  have "j = json_obj [(''result'', JArray (map (\<lambda>t. JString (wr_show_txid w t)) (map fst (snapshot_entries rand n)))),
      (''error'', JNull), (''id'', JNum 0)]"
    unfolding ids [symmetric] using j
    by (simp add: dispatch_def json_first_def json_as_bool_def unwrap_or_def ok_response_def Let_def)
  moreover have "lb_decode_txids lb (JArray (map (\<lambda>t. JString (wr_show_txid w t)) ts)) = Inr ts" for ts
    using sim unfolding http_sim_def codecs_def by blast
  ultimately show ?thesis unfolding decoded_Inr by (simp del: map_map)
qed

lemma snapshot_keys: "http_sim rand w n render lb \<Longrightarrow> set (map fst (snapshot_entries rand n)) = dom (entry_by_txid n)"
  using dom_map_of_conv_image_fst [of "snapshot_entries rand n"] mock_snapshot [of rand n] by (simp add: http_sim_def)

lemma http_entry:
  assumes sim: "http_sim rand w n render lb"
    and answer: "fst (rpc_mempool_entry (rpc_env lb env) t s) = Inr r"
  shows "r = map_option timeless (entry_by_txid n t)"
proof -
  obtain v rpc where s: "s = (v, rpc)" by (rule prod.exhaust)
  define res where "res = call (lb_net lb v) (lb_envelope lb) (lb_decode_entry lb) (lb_lossy lb) rpc ''getmempoolentry''
    (JArray [JString (wr_show_txid w t)]) MAX_BODY_CONTROL"
  have "lb_show_txid lb t = wr_show_txid w t" using sim by (auto simp: http_sim_def codecs_def)
  then have r: "(case res of Inr e \<Rightarrow> Inr (Some e)
      | Inl (RpcErr c m) \<Rightarrow> if c = RPC_INVALID_ADDRESS_OR_KEY then Inr None else Inl (RpcErr c m) | Inl e \<Rightarrow> Inl e) = Inr r"
    using answer by (simp add: s rpc_env_def client_call_def mempool_entry_call_def res_def)
  have "client_request w ''getmempoolentry'' [JString (wr_show_txid w t)]" by (auto simp: client_request_def)
  from call_answered [OF http_simD [OF sim] this res_def [symmetric]]
  obtain j where "dispatch rand w n (ustr ''getmempoolentry'') [JString (wr_show_txid w t)] = JsonBody j"
      "res = decoded (lb_decode_entry lb) (envelope_value j)"
    using r by (auto split: sum.splits rpc_error.splits)
  then show ?thesis using entry_body [OF sim] r by simp
qed

lemma http_txids:
  assumes sim: "http_sim rand w n render lb"
    and answer: "fst (rpc_raw_mempool_txids (rpc_env lb env) s) = Inr ts"
  shows "set ts = dom (entry_by_txid n)"
proof -
  obtain v rpc where s: "s = (v, rpc)" by (rule prod.exhaust)
  have call: "call (lb_net lb v) (lb_envelope lb) (lb_decode_txids lb) (lb_lossy lb) rpc ''getrawmempool''
      (JArray [JBool False]) MAX_BODY_TXIDS = Inr ts"
    using answer by (simp add: s rpc_env_def client_call_def raw_mempool_txids_def)
  have "client_request w ''getrawmempool'' [JBool False]" by (auto simp: client_request_def)
  from call_answered [OF http_simD [OF sim] this call]
  have "ts = map fst (snapshot_entries rand n)" using txids_body [OF sim] by auto
  then show ?thesis using snapshot_keys [OF sim] by simp
qed

lemma verbose_body:
  assumes sim: "http_sim rand w n render lb"
    and body: "dispatch rand w n (ustr ''getrawmempool'') [JBool True] = JsonBody j"
  shows "\<exists>es. decoded (lb_decode_verbose lb) (envelope_value j) = Inr es \<and> distinct (map fst es) \<and>
    map_of es = (\<lambda>t. map_option timeless (entry_by_txid n t))"
proof -
  let ?snap = "snapshot_entries rand n"
  have snap: "distinct (map fst ?snap)" "map_of ?snap = entry_by_txid n"
    using mock_snapshot [of rand n] sim by (simp_all add: http_sim_def)
  define js where "js = map (\<lambda>(t, e). (t, verbose_entry_json w e)) ?snap"
  define ts where "ts = map (\<lambda>(t, e). (t, timeless e)) ?snap"
  have keys: "map fst js = map fst ?snap" "map fst ts = map fst ?snap" by (simp_all add: js_def ts_def case_prod_beta)
  have "inj (wr_show_txid w)" using sim unfolding http_sim_def codecs_def by (metis injI option.inject)
  then have "distinct (map (wr_show_txid w) (map fst ?snap))"
    using snap(1) by (simp add: distinct_map inj_on_subset [OF _ subset_UNIV] del: map_map)
  moreover have "map fst (map (\<lambda>(t, j). (wr_show_txid w t, j)) js) = map (wr_show_txid w) (map fst ?snap)"
    by (simp add: js_def case_prod_beta comp_def)
  ultimately have distinct: "distinct (map fst (map (\<lambda>(t, j). (wr_show_txid w t, j)) js))" by (simp only:)
  have "json_map (map (\<lambda>(t, e). (wr_show_txid w t, verbose_entry_json w e)) ?snap) = JObject (map (\<lambda>(t, j). (wr_show_txid w t, j)) js)"
  proof -
    have "map (\<lambda>(t, e). (wr_show_txid w t, verbose_entry_json w e)) ?snap = map (\<lambda>(t, j). (wr_show_txid w t, j)) js"
      by (auto simp: js_def)
    then show ?thesis using distinct fold_update_distinct [of "map (\<lambda>(t, j). (wr_show_txid w t, j)) js" "[]"]
      unfolding json_map_def by (simp only: append_Nil) simp
  qed
  then have "j = json_obj [(''result'', JObject (map (\<lambda>(t, j). (wr_show_txid w t, j)) js)), (''error'', JNull), (''id'', JNum 0)]"
    using body by (simp add: dispatch_def json_first_def json_as_bool_def unwrap_or_def ok_response_def Let_def)
  then have "decoded (lb_decode_verbose lb) (envelope_value j) = Inr es \<longleftrightarrow>
      lb_decode_verbose lb (JObject (map (\<lambda>(t, j). (wr_show_txid w t, j)) js)) = Inr es" for es
    by (simp only: decoded_Inr envelope_ok) simp
  moreover have "map (\<lambda>(t, j). lb_decode_entry lb j) js = map (\<lambda>(t, e). Inr e) ts"
  proof -
    have "lb_decode_entry lb (verbose_entry_json w e) = Inr (timeless e)" if "(t, e) \<in> set ?snap" for t e
    proof -
      have "entry_by_txid n t = Some e" using that snap map_of_is_SomeI by fastforce
      then show ?thesis using decode_served_entry [of w "lb_decode_entry lb" e] sim
        by (simp add: http_sim_def codecs_def timeless_def)
    qed
    then show ?thesis by (auto simp: js_def ts_def)
  qed
  then have "\<exists>es'. lb_decode_verbose lb (JObject (map (\<lambda>(t, j). (wr_show_txid w t, j)) js)) = Inr es' \<and>
      distinct (map fst es') \<and> map_of es' = map_of ts"
    using sim snap(1) keys unfolding http_sim_def codecs_def by metis
  moreover have "map_of ts = (\<lambda>t. map_option timeless (entry_by_txid n t))"
    using snap(2) by (simp add: ts_def map_of_map [of timeless] case_prod_beta comp_def flip: map_of_map)
  ultimately show ?thesis by auto
qed

lemma http_verbose:
  assumes sim: "http_sim rand w n render lb"
    and answer: "fst (rpc_raw_mempool_verbose (rpc_env lb env) s) = Inr es"
  shows "distinct (map fst es) \<and> map_of es = (\<lambda>t. map_option timeless (entry_by_txid n t))"
proof -
  obtain v rpc where s: "s = (v, rpc)" by (rule prod.exhaust)
  have call: "call (lb_net lb v) (lb_envelope lb) (lb_decode_verbose lb) (lb_lossy lb) rpc ''getrawmempool''
      (JArray [JBool True]) MAX_BODY_VERBOSE = Inr es"
    using answer by (simp add: s rpc_env_def client_call_def raw_mempool_verbose_def)
  have "client_request w ''getrawmempool'' [JBool True]" by (auto simp: client_request_def)
  from call_answered [OF http_simD [OF sim] this call] show ?thesis using verbose_body [OF sim] by force
qed

lemma http_truthful:
  assumes "http_sim rand w n render lb" "fair_order env"
  shows "truthful (rpc_env lb env) (\<lambda>t. map_option timeless (entry_by_txid n t))"
proof -
  have "fair_order (rpc_env lb env)" using assms(2) by (auto simp: fair_order_def rpc_env_def along_def case_prod_beta)
  moreover have "dom (\<lambda>t. map_option timeless (entry_by_txid n t)) = dom (entry_by_txid n)" by (auto simp: dom_def)
  ultimately show ?thesis
    using http_entry [OF assms(1)] http_txids [OF assms(1)] http_verbose [OF assms(1)] unfolding truthful_def by blast
qed

subsection \<open>The indexer over HTTP\<close>

text \<open>C9. The simulation end to end, beside a simulated node that stands still (all responses are computed from the one
  node \<open>n\<close>, so no turn of the churn task falls into the run): whatever requests fail or are throttled between
  the real client and the simulation server, in every state the indexer ever publishes \<open>caught_up\<close> implies that the cache
  is the mempool of that node, entry by entry, but for the times, which the server does not send.\<close>

theorem http_indexer_safe:
  assumes "http_sim rand w n render lb" "fair_order env"
    and "sync_reach (rpc_env lb env) cfg v net s" "g \<in> set (ss_trace s)" "ms_caught_up g"
  shows "al_get (ms_txs g) t = map_option (\<lambda>e. mempool_tx_from (timeless e)) (entry_by_txid n t)"
  using lossy_reach [OF assms(3) http_truthful [OF assms(1,2)]] assms(4,5)
  by (auto simp: lossy_inv_def never_stale_def mirrors_def option.map_comp comp_def)

text \<open>A server that answers every request, unthrottled and within the client's limits.\<close>

definition body_limit :: "string \<Rightarrow> json list \<Rightarrow> usize" where
  "body_limit m ps =
     (if m = ''getrawmempool'' then if ps = [JBool True] then MAX_BODY_VERBOSE else MAX_BODY_TXIDS else MAX_BODY_CONTROL)"

definition http_prompt :: "'r rand \<Rightarrow> wire \<Rightarrow> 'r mock_node \<Rightarrow> (json \<Rightarrow> byte list) \<Rightarrow> ('w, 'c) libs \<Rightarrow> bool" where
  "http_prompt rand w n render lb \<longleftrightarrow>
     (\<forall>v c req m ps. client_request w m ps \<longrightarrow> hq_body req = request_body m (JArray ps) \<longrightarrow>
        (\<exists>resp j. lb_net lb v c req = Inr resp \<and> dispatch rand w n (ustr m) ps = JsonBody j \<and>
           carries render (JsonBody j) resp \<and> length (render j) \<le> body_limit m ps)) \<and>
     (\<forall>b. \<exists>info. mi_loaded info = Some b \<and>
        lb_decode_info lb (json_obj [(''loaded'', JBool b), (''mempoolminfee'', JFloat (f64_round (1 / 100000)))]) = Inr info)"

lemma call_prompt:
  assumes "http_sim rand w n render lb" "http_prompt rand w n render lb" "client_request w m ps"
  obtains j where "dispatch rand w n (ustr m) ps = JsonBody j"
    "\<And>v rpc. call (lb_net lb v) (lb_envelope lb) decode (lb_lossy lb) rpc m (JArray ps) (body_limit m ps) = decoded decode (envelope_value j)"
proof -
  obtain j where j: "dispatch rand w n (ustr m) ps = JsonBody j"
    using assms(2,3) unfolding http_prompt_def by (meson http_request.select_convs(2))
  then have env: "lb_envelope lb (render j) = Inr (envelope_value j)" using assms(1,3) unfolding http_sim_def http_stack_def by blast
  have "call (lb_net lb v) (lb_envelope lb) decode (lb_lossy lb) rpc m (JArray ps) (body_limit m ps) = decoded decode (envelope_value j)"
    for v rpc
  proof -
    let ?req = "\<lparr>hq_url = rpc_url rpc, hq_body = request_body m (JArray ps),
      hq_basic_auth = (case rpc_auth rpc of BasicAuth user pass \<Rightarrow> Some (user, pass) | NoAuth \<Rightarrow> None)\<rparr>"
    have "hq_body ?req = request_body m (JArray ps)" by simp
    with assms(2,3) obtain resp j' where resp: "lb_net lb v (rpc_http rpc) ?req = Inr resp" "dispatch rand w n (ustr m) ps = JsonBody j'"
        "carries render (JsonBody j') resp" "length (render j') \<le> body_limit m ps"
      unfolding http_prompt_def by blast
    moreover have "j' = j" using j resp(2) by simp
    ultimately have "lb_net lb v (rpc_http rpc) ?req = Inr resp" "carries render (JsonBody j) resp" "length (render j) \<le> body_limit m ps"
      by simp_all
    then show ?thesis using classify_json [of render j resp "lb_envelope lb" decode "lb_lossy lb" "body_limit m ps"] env
      by (simp add: call_def)
  qed
  with j show thesis by (rule that)
qed

lemma http_serves:
  assumes sim: "http_sim rand w n render lb" and prompt: "http_prompt rand w n render lb" and "fair_order env"
  obtains info where "mi_loaded info = Some (\<not> mn_reloading n)"
    "node_serves (rpc_env lb env) info (map fst (snapshot_entries rand n)) (\<lambda>t. Inr (map_option timeless (entry_by_txid n t)))"
proof -
  obtain ji where ji: "dispatch rand w n (ustr ''getmempoolinfo'') [] = JsonBody ji"
    "\<And>v rpc. call (lb_net lb v) (lb_envelope lb) (lb_decode_info lb) (lb_lossy lb) rpc ''getmempoolinfo'' (JArray []) MAX_BODY_CONTROL =
       decoded (lb_decode_info lb) (envelope_value ji)"
    by (rule call_prompt [OF sim prompt, of "''getmempoolinfo''" "[]"]) (auto simp: client_request_def body_limit_def)
  obtain jt where jt: "dispatch rand w n (ustr ''getrawmempool'') [JBool False] = JsonBody jt"
    "\<And>v rpc. call (lb_net lb v) (lb_envelope lb) (lb_decode_txids lb) (lb_lossy lb) rpc ''getrawmempool'' (JArray [JBool False])
       MAX_BODY_TXIDS = decoded (lb_decode_txids lb) (envelope_value jt)"
    by (rule call_prompt [OF sim prompt, of "''getrawmempool''" "[JBool False]"]) (auto simp: client_request_def body_limit_def)
  have entries: "fst (rpc_mempool_entry (rpc_env lb env) t s) = Inr (map_option timeless (entry_by_txid n t))" for t s
  proof -
    obtain v rpc where s: "s = (v, rpc)" by (rule prod.exhaust)
    obtain je where je: "dispatch rand w n (ustr ''getmempoolentry'') [JString (wr_show_txid w t)] = JsonBody je"
      "\<And>v rpc. call (lb_net lb v) (lb_envelope lb) (lb_decode_entry lb) (lb_lossy lb) rpc ''getmempoolentry''
         (JArray [JString (wr_show_txid w t)]) MAX_BODY_CONTROL = decoded (lb_decode_entry lb) (envelope_value je)"
      by (rule call_prompt [OF sim prompt, of "''getmempoolentry''" "[JString (wr_show_txid w t)]"])
        (auto simp: client_request_def body_limit_def)
    have "lb_show_txid lb t = wr_show_txid w t" using sim by (auto simp: http_sim_def codecs_def)
    then show ?thesis using entry_body [OF sim je(1)] by (simp add: s rpc_env_def client_call_def mempool_entry_call_def je(2))
  qed
  obtain info where info: "mi_loaded info = Some (\<not> mn_reloading n)"
    "lb_decode_info lb (json_obj [(''loaded'', JBool (\<not> mn_reloading n)), (''mempoolminfee'', JFloat (f64_round (1 / 100000)))]) = Inr info"
    using prompt unfolding http_prompt_def by blast
  have "decoded (lb_decode_info lb) (envelope_value ji) = Inr info"
    using ji(1) info(2) by (auto simp: dispatch_def loaded_sync_def ok_response_def decoded_Inr)
  then have "node_serves (rpc_env lb env) info (map fst (snapshot_entries rand n)) (\<lambda>t. Inr (map_option timeless (entry_by_txid n t)))"
    using entries assms(3) ji(2) jt(2) txids_body [OF sim jt(1)]
    by (auto simp: node_serves_def static_answers_def fair_order_def rpc_env_def client_call_def along_def case_prod_beta
        mempool_info_call_def raw_mempool_txids_def)
  with info(1) show thesis by (rule that)
qed

text \<open>C10. And once requests are answered, it gets there.  Let the simulated node stand still, not be reloading, hold at most
  \<open>usize::MAX\<close> transactions and not be a mass drop against the cache, whose keys are distinct; let the server answer every request within the limits of the client, and each
  pass of at most 2000 fetches end within the tick budget of its own start.  Then the ticks of the indexer over HTTP bring
  the cache, whatever it held, to exactly the node's mempool and set \<open>caught_up\<close>, as soon as 2000 transactions
  per tick cover what was missing.\<close>

theorem http_indexer_converges:
  assumes "http_sim rand w n render lb" "http_prompt rand w n render lb" "fair_order env" "\<not> mn_reloading n"
    and "length (mn_txs n) \<le> usize_max" "in_budget (rpc_env lb env) (sc_tick_budget cfg)" "al_ok (ms_txs (ss_state s))"
    and "\<not> is_mass_drop (length (ms_txs (ss_state s))) (length (mn_txs n))"
    and "card (dom (entry_by_txid n) - cached s) \<le> 2000 * k" "0 < k"
  shows "cached ((tick (rpc_env lb env) cfg ^^ k) s) = dom (entry_by_txid n) \<and>
    ms_caught_up (ss_state ((tick (rpc_env lb env) cfg ^^ k) s))"
proof -
  let ?keys = "map fst (snapshot_entries rand n)"
  obtain info where info: "mi_loaded info = Some (\<not> mn_reloading n)"
    "node_serves (rpc_env lb env) info ?keys (\<lambda>t. Inr (map_option timeless (entry_by_txid n t)))"
    by (rule http_serves [OF assms(1-3)])
  note keys = snapshot_keys [OF assms(1)]
  have "length (mn_txs n) = card (dom (entry_by_txid n))"
    using al.length_keys [of "mn_txs n"] assms(1) by (simp add: http_sim_def al_keys_def dom_def entry_by_txid_def)
  then have "card (set ?keys) = length (mn_txs n)" unfolding keys by simp
  moreover have "\<forall>x \<in> set ?keys. \<exists>e. Inr (map_option timeless (entry_by_txid n x)) = Inr (Some e)" unfolding keys by auto
  ultimately show ?thesis using ticks_drain [OF info(2), of s cfg k] assms info(1) unfolding keys by (simp add: unwrap_or_def)
qed

subsection \<open>A concrete instance\<close>

text \<open>A stack for the node with a parent and its child: the seven bodies the server can answer are numbered, and
  a body is sent as its number.  The world is a clock, which an exchange advances by a millisecond.\<close>

definition plain_reply :: "ustring \<Rightarrow> json list \<Rightarrow> json" where
  "plain_reply m ps = (case dispatch plain_rand plain_wire pair_node m ps of JsonBody j \<Rightarrow> j | EmptyStatus _ \<Rightarrow> JNull)"

definition plain_bodies :: "json list" where
  "plain_bodies = map (\<lambda>(m, ps). plain_reply (ustr m) ps)
     [(''getblockchaininfo'', []), (''getmempoolinfo'', []), (''getrawmempool'', [JBool False]), (''getrawmempool'', [JBool True]),
      (''getmempoolentry'', [JString (wr_show_txid plain_wire (Txid 7))]),
      (''getmempoolentry'', [JString (wr_show_txid plain_wire (Txid 8))]),
      (''getmempoolentry'', [JString (wr_show_txid plain_wire (Txid 0))])]"

definition plain_render :: "json \<Rightarrow> byte list" where
  "plain_render j = [of_nat (length (takeWhile (\<lambda>b. b \<noteq> j) plain_bodies))]"

definition plain_envelope :: "byte list \<Rightarrow> ustring + rpc_response" where
  "plain_envelope bs = (case bs of [b] \<Rightarrow> Inr (envelope_value (plain_bodies ! unat b)) | _ \<Rightarrow> Inl [])"

definition plain_net :: "http_request \<Rightarrow> ustring + http_response" where
  "plain_net req = (case hq_body req of
     JObject [_, _, (_, JString m), (_, JArray ps)] \<Rightarrow>
       Inr \<lparr>hr_status = 200, hr_content_length = None, hr_chunks = [Inr (plain_render (plain_reply m ps))]\<rparr>
   | _ \<Rightarrow> Inl [])"

definition plain_libs :: "(nat, unit) libs" where
  "plain_libs = \<lparr>lb_net = (\<lambda>v c. plain_net), lb_exchanged = (\<lambda>v. v + 1000000), lb_envelope = plain_envelope, lb_lossy = (\<lambda>bs. []),
     lb_decode_chain = (\<lambda>j. Inr \<lparr>bi_chain = ''main'', bi_blocks = 850000\<rparr>),
     lb_decode_info = (\<lambda>j. case j of
         JObject fs \<Rightarrow> Inr \<lparr>mi_loaded = (case map_of fs (ustr ''loaded'') of Some (JBool b) \<Rightarrow> Some b | _ \<Rightarrow> None), mi_mempoolminfee = 1000\<rparr>
       | _ \<Rightarrow> Inl []),
     lb_decode_txids = (\<lambda>j. case j of
         JArray ds \<Rightarrow> Inr (List.map_filter (\<lambda>d. case d of JString s \<Rightarrow> wr_parse_txid plain_wire s | _ \<Rightarrow> None) ds)
       | _ \<Rightarrow> Inl []),
     lb_decode_verbose = (\<lambda>j. case j of
         JObject fs \<Rightarrow> Inr (map (\<lambda>(k, v). (the (wr_parse_txid plain_wire k), projr (plain_decode v))) fs)
       | _ \<Rightarrow> Inl []),
     lb_decode_entry = plain_decode, lb_show_txid = wr_show_txid plain_wire,
     lb_read_file = (\<lambda>v f. Inl []), lb_build = (\<lambda>d. Inr ())\<rparr>"

lemma plain_reply_body:
  assumes "client_request plain_wire m ps"
  shows "plain_reply (ustr m) ps \<in> set plain_bodies" "dispatch plain_rand plain_wire pair_node (ustr m) ps = JsonBody (plain_reply (ustr m) ps)"
proof -
  have none: "plain_reply (ustr ''getmempoolentry'') [JString (wr_show_txid plain_wire t)] =
      plain_reply (ustr ''getmempoolentry'') [JString (wr_show_txid plain_wire (Txid 0))]" if "t \<notin> {Txid 7, Txid 8}" for t
  proof -
    have "entry_by_txid pair_node t = None" "entry_by_txid pair_node (Txid 0) = None"
      using that by (auto simp: entry_by_txid_def pair_node_def al_get_def)
    then show ?thesis by (simp add: plain_reply_def dispatch_def json_first_def json_as_str_def unwrap_or_def)
  qed
  have entries: "plain_reply (ustr ''getmempoolentry'') [JString (wr_show_txid plain_wire t)] \<in> set plain_bodies" for t
  proof (cases "t \<in> {Txid 7, Txid 8}")
    case True
    then show ?thesis unfolding plain_bodies_def by (elim insertE emptyE) simp_all
  next
    case False
    then show ?thesis unfolding none [OF False] plain_bodies_def by simp
  qed
  have raw: "plain_reply (ustr ''getrawmempool'') [JBool b] \<in> set plain_bodies" for b
    unfolding plain_bodies_def by (cases b) simp_all
  have "plain_reply (ustr ''getblockchaininfo'') [] \<in> set plain_bodies" "plain_reply (ustr ''getmempoolinfo'') [] \<in> set plain_bodies"
    unfolding plain_bodies_def by simp_all
  then show "plain_reply (ustr m) ps \<in> set plain_bodies"
    using assms entries raw unfolding client_request_def by blast
  have "dispatch plain_rand plain_wire pair_node (ustr m) ps \<noteq> EmptyStatus k" for k
    by (simp add: dispatch_def ok_response_def error_response_def Let_def split: option.split)
  then show "dispatch plain_rand plain_wire pair_node (ustr m) ps = JsonBody (plain_reply (ustr m) ps)"
    by (auto simp: plain_reply_def split: response.split)
qed

lemma plain_parses:
  assumes "j \<in> set plain_bodies"
  shows "plain_envelope (plain_render j) = Inr (envelope_value j)"
proof -
  let ?k = "length (takeWhile (\<lambda>b. b \<noteq> j) plain_bodies)"
  have "\<not> (\<forall>b \<in> set plain_bodies. b \<noteq> j)" using assms by blast
  then have k: "?k < length plain_bodies"
    by (metis (mono_tags, lifting) length_takeWhile_le nat_less_le takeWhile_eq_all_conv takeWhile_eq_take take_all_iff)
  then have "plain_bodies ! ?k = j" using nth_length_takeWhile by fastforce
  moreover have "unat (of_nat ?k :: byte) = ?k" using k by (simp add: plain_bodies_def unsigned_of_nat take_bit_nat_eq_self)
  ultimately show ?thesis by (simp add: plain_envelope_def plain_render_def)
qed

lemma plain_exchange:
  assumes "client_request plain_wire m ps" "hq_body req = request_body m (JArray ps)"
  shows "lb_net plain_libs v c req =
      Inr \<lparr>hr_status = 200, hr_content_length = None, hr_chunks = [Inr (plain_render (plain_reply (ustr m) ps))]\<rparr>"
    "carries plain_render (JsonBody (plain_reply (ustr m) ps))
      \<lparr>hr_status = 200, hr_content_length = None, hr_chunks = [Inr (plain_render (plain_reply (ustr m) ps))]\<rparr>"
  using assms(2) by (auto simp: plain_libs_def plain_net_def request_body_def carries_def intro: exI [of _ "[x]" for x])

lemma plain_serves: "dispatch plain_rand plain_wire pair_node (ustr m) ps = JsonBody j \<Longrightarrow> served plain_rand plain_wire pair_node m ps (JsonBody j)"
  unfolding served_def
  by (intro exI [of _ "\<lambda>d s. s"] exI [of _ 0] exI [of _ "\<lparr>sv_node = pair_node, sv_limiter = limiter_new 0, sv_profile = local_node\<rparr>"])
    (simp add: handle_rpc_def local_node_def)

lemma plain_stack: "http_stack plain_rand plain_wire pair_node plain_render plain_libs"
proof -
  have "\<exists>r. served plain_rand plain_wire pair_node m ps r \<and> carries plain_render r resp"
    if "client_request plain_wire m ps" "hq_body req = request_body m (JArray ps)" "lb_net plain_libs v c req = Inr resp" for v c req m ps resp
    using that plain_exchange [OF that(1,2)] plain_serves [OF plain_reply_body(2) [OF that(1)]] by auto
  moreover have "lb_envelope plain_libs (plain_render j) = Inr (envelope_value j)"
    if "client_request plain_wire m ps" "dispatch plain_rand plain_wire pair_node (ustr m) ps = JsonBody j" for m ps j
    using that plain_reply_body [OF that(1)] plain_parses [of j] by (simp add: plain_libs_def)
  moreover have "isl (lb_envelope plain_libs [])" by (simp add: plain_libs_def plain_envelope_def)
  ultimately show ?thesis unfolding http_stack_def by blast
qed

lemma plain_codecs: "codecs plain_wire plain_libs"
proof -
  have ids: "List.map_filter (\<lambda>d. case d of JString s \<Rightarrow> wr_parse_txid plain_wire s | _ \<Rightarrow> None)
      (map (\<lambda>t. JString (wr_show_txid plain_wire t)) ts) = ts" for ts
    by (induction ts) (simp_all add: List.map_filter_simps)
  have "map (\<lambda>(k, v). (the (wr_parse_txid plain_wire k), projr (plain_decode v))) (map (\<lambda>(t, j). (wr_show_txid plain_wire t, j)) js) = es"
    if "map fst js = map fst es" "map (\<lambda>(t, j). plain_decode j) js = map (\<lambda>(t, e). Inr e) es" for js es
    using that
  proof (induction js arbitrary: es)
    case (Cons x js)
    then show ?case by (cases es; cases x) auto
  qed simp
  then show ?thesis using ids plain_decodes unfolding codecs_def by (simp add: plain_libs_def) metis
qed

lemma plain_http_sim: "http_sim plain_rand plain_wire pair_node plain_render plain_libs"
proof -
  have "payable e" if "entry_by_txid pair_node t = Some e" for t e
    using that by (auto simp: entry_by_txid_def pair_node_def al_get_def payable_def parent_entry_def child_entry_def split: if_splits)
  then show ?thesis using plain_stack plain_codecs plain_rand_ok by (simp add: http_sim_def pair_node_def al_ok_def)
qed

lemma plain_http_prompt: "http_prompt plain_rand plain_wire pair_node plain_render plain_libs"
proof -
  have "\<exists>resp j. lb_net plain_libs v c req = Inr resp \<and> dispatch plain_rand plain_wire pair_node (ustr m) ps = JsonBody j \<and>
      carries plain_render (JsonBody j) resp \<and> length (plain_render j) \<le> body_limit m ps"
    if "client_request plain_wire m ps" "hq_body req = request_body m (JArray ps)" for v c req m ps
  proof -
    have "length (plain_render j) \<le> body_limit m ps" for j
      by (simp add: plain_render_def body_limit_def MAX_BODY_VERBOSE_def MAX_BODY_TXIDS_def MAX_BODY_CONTROL_def)
    then show ?thesis using plain_exchange [OF that] plain_reply_body(2) [OF that(1)] by blast
  qed
  moreover have "\<exists>info. mi_loaded info = Some b \<and> lb_decode_info plain_libs (json_obj [(''loaded'', JBool b), (''mempoolminfee'', JFloat x)]) = Inr info" for b x
    by (simp add: plain_libs_def json_obj_def)
  ultimately show ?thesis unfolding http_prompt_def by blast
qed

definition http_start :: "(nat \<times> unit rpc) sync_state" where
  "http_start = run_init (0, some_rpc) ''main''"

lemma http_indexer_converges_witness:
  "cached ((tick (rpc_env plain_libs (clock_env [])) some_cfg ^^ 1) http_start) = dom (entry_by_txid pair_node) \<and>
   ms_caught_up (ss_state ((tick (rpc_env plain_libs (clock_env [])) some_cfg ^^ 1) http_start))"
proof (rule http_indexer_converges [OF plain_http_sim plain_http_prompt])
  have len: "length (mn_txs pair_node) = 2" by (simp add: pair_node_def)
  show "length (mn_txs pair_node) \<le> usize_max" unfolding len by (simp add: usize_max_def)
  show "\<not> mn_reloading pair_node" by (simp add: pair_node_def mock_empty_def)
  show "fair_order (clock_env [])" by (simp add: fair_order_def clock_env_def)
  show "in_budget (rpc_env plain_libs (clock_env [])) (sc_tick_budget some_cfg)"
    by (rule paced_in_budget [where time = fst and d = 1000000])
      (simp_all add: rpc_env_def along_def client_call_def plain_libs_def clock_env_def some_cfg_def case_prod_beta)
  show "\<not> is_mass_drop (length (ms_txs (ss_state http_start))) (length (mn_txs pair_node))"
    by (simp add: http_start_def run_init_def mempool_state_new_def is_mass_drop_def MASS_DROP_MIN_CACHE_SIZE_def)
  show "al_ok (ms_txs (ss_state http_start))" by (simp add: http_start_def run_init_def mempool_state_new_def al.ok_empty)
  have "card (dom (entry_by_txid pair_node)) \<le> 2" by (simp add: entry_by_txid_def [abs_def] pair_node_def al_get_def card_insert_if)
  then show "card (dom (entry_by_txid pair_node) - cached http_start) \<le> 2000 * 1"
    using card_Diff_subset_Int [of "dom (entry_by_txid pair_node)" "cached http_start"]
    by (simp add: http_start_def cached_def run_init_def mempool_state_new_def al_keys_def)
qed simp

lemma http_starts: "\<exists>s. run_start (rpc_env plain_libs (clock_env [])) some_cfg (0, some_rpc) ''main'' = Some s"
proof -
  let ?env = "rpc_env plain_libs (clock_env [])"
  have fair: "fair_order (clock_env [])" by (simp add: fair_order_def clock_env_def)
  obtain info where info: "mi_loaded info = Some (\<not> mn_reloading pair_node)" "\<And>s. fst (rpc_mempool_info ?env s) = Inr info"
    using http_serves [OF plain_http_sim plain_http_prompt fair] unfolding node_serves_def by metis
  have "\<exists>h. fst (rpc_tip_height ?env s) = Inr h" for s
  proof -
    obtain j where "dispatch plain_rand plain_wire pair_node (ustr ''getblockchaininfo'') [] = JsonBody j"
      "\<And>v rpc. call (lb_net plain_libs v) (lb_envelope plain_libs) (lb_decode_chain plain_libs) (lb_lossy plain_libs) rpc
         ''getblockchaininfo'' (JArray []) MAX_BODY_CONTROL = decoded (lb_decode_chain plain_libs) (envelope_value j)"
      by (rule call_prompt [OF plain_http_sim plain_http_prompt, of "''getblockchaininfo''" "[]"])
        (auto simp: client_request_def body_limit_def)
    then show ?thesis
      by (auto simp: rpc_env_def client_call_def tip_height_def case_prod_beta dispatch_def ok_response_def decoded_def
          plain_libs_def)
  qed
  note tip = this
  have "\<exists>es. fst (rpc_raw_mempool_verbose ?env s) = Inr es" for s
  proof -
    obtain j where "dispatch plain_rand plain_wire pair_node (ustr ''getrawmempool'') [JBool True] = JsonBody j"
      "\<And>v rpc. call (lb_net plain_libs v) (lb_envelope plain_libs) (lb_decode_verbose plain_libs) (lb_lossy plain_libs) rpc
         ''getrawmempool'' (JArray [JBool True]) MAX_BODY_VERBOSE = decoded (lb_decode_verbose plain_libs) (envelope_value j)"
      by (rule call_prompt [OF plain_http_sim plain_http_prompt, of "''getrawmempool''" "[JBool True]"])
        (auto simp: client_request_def body_limit_def)
    then show ?thesis
      by (auto simp: rpc_env_def client_call_def raw_mempool_verbose_def case_prod_beta dispatch_def ok_response_def decoded_def
          Let_def json_first_def json_as_bool_def unwrap_or_def json_map_def plain_libs_def)
  qed
  note verbose = this
  have "gate_open ?env s" for s
    using info by (simp add: gate_open_def run_outside unwrap_or_def pair_node_def mock_empty_def)
  moreover have "load_succeeds ?env s" for s
  proof -
    obtain es where es: "fst (rpc_raw_mempool_verbose ?env (ss_world s)) = Inr es" using verbose by blast
    obtain h where h: "fst (rpc_tip_height ?env (snd (rpc_mempool_info ?env (snd (rpc_raw_mempool_verbose ?env (ss_world s)))))) = Inr h"
      using tip by blast
    show ?thesis by (simp add: load_succeeds_def bulk_resync_def run_outside es info(2) h run_return write_state_def change_def)
  qed
  ultimately show ?thesis using run_start_returns [where k = 0] by (metis funpow_0)
qed

lemma http_indexer_safe_witness:
  "\<exists>s. sync_reach (rpc_env plain_libs (clock_env [])) some_cfg (0, some_rpc) ''main'' s \<and>
    (\<forall>g. g \<in> set (ss_trace s) \<longrightarrow> ms_caught_up g \<longrightarrow>
      al_get (ms_txs g) (Txid 7) = map_option (\<lambda>e. mempool_tx_from (timeless e)) (entry_by_txid pair_node (Txid 7)))"
proof -
  have fair: "fair_order (clock_env [])" by (simp add: fair_order_def clock_env_def)
  obtain s where "run_start (rpc_env plain_libs (clock_env [])) some_cfg (0, some_rpc) ''main'' = Some s" using http_starts by blast
  then have "sync_reach (rpc_env plain_libs (clock_env [])) some_cfg (0, some_rpc) ''main'' s" by (rule sync_started)
  with http_indexer_safe [OF plain_http_sim fair this] show ?thesis by blast
qed

end
