(* ===== verification/Unit_Tests.thy ===== *)
theory Unit_Tests
  imports Sim_Server
begin

text \<open>
  The unit tests of the pure modules (\<open>sync/decision.rs\<close>, \<open>gbt.rs\<close>, \<open>fees.rs\<close>, \<open>mempool.rs\<close>, \<open>config.rs\<close>,
  \<open>sim/server.rs\<close>): each test is the conjunction of its assertions, over the model, and evaluates to true.
  They are the executable link between the model and what the code's authors expect of it.
\<close>

subsection \<open>Decisions\<close>

definition mass_drop_ignored_below_min_cache_size :: bool where
  "mass_drop_ignored_below_min_cache_size \<longleftrightarrow> \<not> is_mass_drop 99 0 \<and> \<not> is_mass_drop 99 1"

definition mass_drop_boundary_at_min_cache_size :: bool where
  "mass_drop_boundary_at_min_cache_size \<longleftrightarrow> \<not> is_mass_drop 100 20 \<and> is_mass_drop 100 19 \<and> is_mass_drop 100 0"

definition mass_drop_saturates_instead_of_overflowing :: bool where
  "mass_drop_saturates_instead_of_overflowing \<longleftrightarrow> \<not> is_mass_drop 1000000 usize_max"

text \<open>\<open>now - Duration\<close> panics when the clock is younger than that; \<open>None\<close> is the panic.\<close>

definition cooling_down_none_and_boundaries :: "nat \<Rightarrow> bool option" where
  "cooling_down_none_and_boundaries now =
     Option.bind (checked_sub_nat now (seconds 59)) (\<lambda>t59.
     Option.bind (checked_sub_nat now RESYNC_COOLDOWN) (\<lambda>t60.
     map_option (\<lambda>t61.
       \<not> resync_cooling_down None now \<and> resync_cooling_down (Some now) now \<and> resync_cooling_down (Some t59) now \<and>
       \<not> resync_cooling_down (Some t60) now \<and> \<not> resync_cooling_down (Some t61) now)
     (checked_sub_nat now (seconds 61))))"

definition decide_desync_in_sync_returns_none :: bool where
  "decide_desync_in_sync_returns_none \<longleftrightarrow>
     decide_desync True 100 100 False = None \<and> decide_desync True 100 100 True = None \<and> decide_desync True 99 0 False = None"

definition decide_desync_precedence_node_not_loaded_wins :: bool where
  "decide_desync_precedence_node_not_loaded_wins \<longleftrightarrow>
     decide_desync False 100 0 False = Some (BulkResync ''node_not_loaded'') \<and>
     decide_desync False 100 0 True = Some (WaitCooldown ''node_not_loaded'')"

definition decide_desync_mass_drop_routing :: bool where
  "decide_desync_mass_drop_routing \<longleftrightarrow>
     decide_desync True 100 0 False = Some (BulkResync ''mass_drop'') \<and>
     decide_desync True 100 0 True = Some (WaitCooldown ''mass_drop'')"

definition backlog_truth_table :: bool where
  "backlog_truth_table \<longleftrightarrow>
     (let m = 2000 in
      \<not> is_backlog 0 m 0 False \<and> \<not> is_backlog m m 0 False \<and> is_backlog (m + 1) m 0 False \<and>
      is_backlog 0 m 1 False \<and> is_backlog 0 m 0 True \<and> is_backlog (m + 1) m 3 True)"

definition projected_mempool_size_values :: bool where
  "projected_mempool_size_values \<longleftrightarrow>
     projected_mempool_size 100 10 5 = Some 95 \<and> projected_mempool_size 50 0 0 = Some 50 \<and>
     projected_mempool_size 10 10 3 = Some 3"

theorem decision_tests_pass:
  "mass_drop_ignored_below_min_cache_size \<and> mass_drop_boundary_at_min_cache_size \<and>
   mass_drop_saturates_instead_of_overflowing \<and> decide_desync_in_sync_returns_none \<and>
   decide_desync_precedence_node_not_loaded_wins \<and> decide_desync_mass_drop_routing \<and>
   backlog_truth_table \<and> projected_mempool_size_values"
  by code_simp

lemma cooling_down_test_passes:
  assumes "seconds 61 \<le> now"
  shows "cooling_down_none_and_boundaries now = Some True"
  using assms by (simp add: cooling_down_none_and_boundaries_def checked_sub_nat_def resync_cooling_down_def RESYNC_COOLDOWN_def
      seconds_def)

subsection \<open>Block projection\<close>

definition gbt_test_tx :: "nat \<Rightarrow> u64 \<Rightarrow> u32 \<Rightarrow> nat list \<Rightarrow> gbt_tx" where
  "gbt_test_tx uid fee weight parents =
     \<lparr>gt_uid = uid, gt_order = of_nat uid, gt_fee = fee, gt_weight = weight, gt_parents = parents\<rparr>"

text \<open>A test on the projection of \<open>txs\<close>: it fails if \<open>project\<close> panics.\<close>

definition on_projection :: "gbt_tx list \<Rightarrow> (projection \<Rightarrow> bool) \<Rightarrow> bool" where
  "on_projection txs test = (case project txs of Some (Inr proj) \<Rightarrow> test proj | _ \<Rightarrow> False)"

text \<open>Indexing a map panics on an absent key; \<open>near\<close> is \<open>(x - y).abs() < 1e-6\<close>.\<close>

definition near :: "f64 \<Rightarrow> f64 \<Rightarrow> bool" where
  "near x y \<longleftrightarrow> \<bar>f64_sub x y\<bar> < f64_round (1 / 1000000)"

definition rate_is :: "projection \<Rightarrow> nat \<Rightarrow> (f64 \<Rightarrow> bool) \<Rightarrow> bool" where
  "rate_is proj uid test = (case pj_rates proj uid of Some r \<Rightarrow> test r | None \<Rightarrow> False)"

text \<open>The cheapest effective rate of a block: the fold of \<open>f64::min\<close> from infinity, which is the outer \<open>Some None\<close>; the outer
  \<open>None\<close> is the panic of an index.\<close>

definition boundary :: "projection \<Rightarrow> nat \<Rightarrow> f64 option option" where
  "boundary proj block =
     (if block < length (pj_blocks proj)
      then fold (\<lambda>uid acc. case (acc, pj_rates proj uid) of
          (Some None, Some r) \<Rightarrow> Some (Some r) | (Some (Some a), Some r) \<Rightarrow> Some (Some (min a r)) | _ \<Rightarrow> None)
        (pj_blocks proj ! block) (Some None)
      else None)"

definition block_is :: "projection \<Rightarrow> nat \<Rightarrow> nat list \<Rightarrow> bool" where
  "block_is proj k uids \<longleftrightarrow> k < length (pj_blocks proj) \<and> pj_blocks proj ! k = uids"

definition independent_txs_rank_by_descending_feerate :: bool where
  "independent_txs_rank_by_descending_feerate \<longleftrightarrow>
     on_projection [gbt_test_tx 0 10000 1000 [], gbt_test_tx 1 5000 1000 [], gbt_test_tx 2 1000 1000 []]
       (\<lambda>proj. block_is proj 0 [0, 1, 2] \<and> rate_is proj 0 (\<lambda>r. near r 40) \<and> rate_is proj 2 (\<lambda>r. near r 4))"

definition cpfp_parent_pulled_up_by_child :: bool where
  "cpfp_parent_pulled_up_by_child \<longleftrightarrow>
     on_projection [gbt_test_tx 0 250 1000 [], gbt_test_tx 1 25000 1000 [0]]
       (\<lambda>proj. block_is proj 0 [0, 1] \<and> rate_is proj 0 (\<lambda>r. 40 < r) \<and>
          rate_is proj 0 (\<lambda>r0. rate_is proj 1 (\<lambda>r1. near r0 r1)))"

definition overflow_spills_to_next_block :: bool where
  "overflow_spills_to_next_block \<longleftrightarrow>
     (let almost_full = MAX_BLOCK_WEIGHT - BLOCK_RESERVED_WEIGHT - 10 in
      on_projection [gbt_test_tx 0 10000 almost_full [], gbt_test_tx 1 1000 almost_full []]
        (\<lambda>proj. block_is proj 0 [0] \<and> block_is proj 1 [1] \<and>
           (case (boundary proj 0, boundary proj 1) of
              (Some b0, Some b1) \<Rightarrow>
                (case (b0, b1) of (None, None) \<Rightarrow> False | (None, Some _) \<Rightarrow> True | (Some _, None) \<Rightarrow> False | (Some x, Some y) \<Rightarrow> y < x)
            | _ \<Rightarrow> False)))"

definition empty_input_yields_no_blocks :: bool where
  "empty_input_yields_no_blocks \<longleftrightarrow> on_projection [] (\<lambda>proj. pj_blocks proj = [] \<and> pj_rates proj = Map.empty)"

definition oversized_tx_lands_in_its_own_block :: bool where
  "oversized_tx_lands_in_its_own_block \<longleftrightarrow>
     on_projection [gbt_test_tx 0 1000 (MAX_BLOCK_WEIGHT + 1000) []]
       (\<lambda>proj. pj_blocks proj \<noteq> [] \<and> (\<exists>b \<in> set (pj_blocks proj). 0 \<in> set b) \<and> pj_rates proj 0 \<noteq> None)"

lemma ranking_test_passes: "independent_txs_rank_by_descending_feerate"
  by code_simp

lemma cpfp_test_passes: "cpfp_parent_pulled_up_by_child"
  by code_simp

lemma overflow_test_passes: "overflow_spills_to_next_block"
  by code_simp

lemma oversized_test_passes: "oversized_tx_lands_in_its_own_block"
  by code_simp

lemma empty_test_passes: "empty_input_yields_no_blocks"
  by (simp add: empty_input_yields_no_blocks_def on_projection_def project_def project_with_def)

subsection \<open>Fee tiers\<close>

definition empty_mempool_all_tiers_at_minimum :: bool where
  "empty_mempool_all_tiers_at_minimum \<longleftrightarrow>
     (let est = recommended_tiers [] 3 42 in
      fe_next_block est = 3 \<and> fe_within_3_blocks est = 3 \<and> fe_within_6_blocks est = 3 \<and> fe_horizon est = 3 \<and>
      fe_relay_floor est = 3 \<and> fe_computed_at est = 42)"

definition tiers_descend_with_block_depth :: bool where
  "tiers_descend_with_block_depth \<longleftrightarrow>
     (let bw = MAX_BLOCK_WEIGHT;
          est = recommended_tiers [(5, bw), (100, bw), (20, bw), (50, bw)] 1 0
      in fe_next_block est = 100 \<and> fe_within_3_blocks est = 20 \<and> fe_within_6_blocks est = 1 \<and> fe_horizon est = 1 \<and>
         fe_within_3_blocks est \<le> fe_next_block est \<and> fe_within_6_blocks est \<le> fe_within_3_blocks est \<and>
         fe_horizon est \<le> fe_within_6_blocks est)"

definition tiers_floored_at_minimum :: bool where
  "tiers_floored_at_minimum \<longleftrightarrow>
     (let bw = MAX_BLOCK_WEIGHT; est = recommended_tiers [(2, bw)] 5 0
      in fe_next_block est = 5 \<and> fe_relay_floor est = 5)"

definition partial_block_returns_marginal_rate :: bool where
  "partial_block_returns_marginal_rate \<longleftrightarrow>
     (let bw = MAX_BLOCK_WEIGHT; est = recommended_tiers [(100, bw div 2), (40, bw div 2)] 1 0
      in fe_next_block est = 40 \<and> fe_within_3_blocks est = 1)"

theorem fees_tests_pass:
  "empty_mempool_all_tiers_at_minimum \<and> tiers_descend_with_block_depth \<and> tiers_floored_at_minimum \<and>
   partial_block_returns_marginal_rate"
  by code_simp

subsection \<open>Cache, configuration and cadence\<close>

definition entry_with_time :: "u64 option \<Rightarrow> mempool_entry" where
  "entry_with_time t =
     \<lparr>me_vsize = 140, me_weight = Some 560, me_depends = [], me_fees = \<lparr>ef_base = 0, ef_ancestor = 0, ef_descendant = 0\<rparr>,
      me_ancestorsize = 140, me_descendantsize = 140, me_time = t\<rparr>"

definition first_seen_carries_node_entry_time :: bool where
  "first_seen_carries_node_entry_time \<longleftrightarrow>
     tx_first_seen (mempool_tx_from (entry_with_time (Some 1700000042))) = 1700000042"

definition first_seen_falls_back_to_zero_when_time_absent :: bool where
  "first_seen_falls_back_to_zero_when_time_absent \<longleftrightarrow> tx_first_seen (mempool_tx_from (entry_with_time None)) = 0"

definition new_state_has_no_fee_estimate :: bool where
  "new_state_has_no_fee_estimate \<longleftrightarrow> ms_fee_estimate (mempool_state_new ''main'') = None"

definition fee_recompute_interval_floored_at_poll :: bool where
  "fee_recompute_interval_floored_at_poll \<longleftrightarrow>
     fee_recompute_interval (Some 100) 2000 = from_millis 2000 \<and>
     fee_recompute_interval (Some 9000) 2000 = from_millis 9000 \<and>
     fee_recompute_interval None 2000 = from_millis 5000"

definition ticks_per_block_maps_interval_to_churn_ticks :: bool where
  "ticks_per_block_maps_interval_to_churn_ticks \<longleftrightarrow>
     ticks_per_block 0 2 = 0 \<and> ticks_per_block 30 2 = 15 \<and> ticks_per_block 1 2 = 1 \<and> ticks_per_block 2 2 = 1"

theorem service_tests_pass:
  "first_seen_carries_node_entry_time \<and> first_seen_falls_back_to_zero_when_time_absent \<and>
   new_state_has_no_fee_estimate \<and> fee_recompute_interval_floored_at_poll \<and> ticks_per_block_maps_interval_to_churn_ticks"
  by code_simp

end
