(* ===== verification/Sim_Track.thy ===== *)
theory Sim_Track
  imports Sim_Net_Props
begin

text \<open>
  The sync loop beside a simulated node that keeps changing: the node churns between the ticks of the loop, which
  reaches it through the local network profile.  One tick brings a cache that is not too far behind into step;
  as long as the mempool does not shrink and no more than 2000 transactions arrive between two ticks, the
  indexer stays in step for good.
\<close>

subsection \<open>One tick\<close>

definition local_rpc :: "('q \<Rightarrow> f64 \<times> 'q) \<Rightarrow> 'r rand \<Rightarrow> 'r mock_node \<Rightarrow> 'w env \<Rightarrow> ('q net_shared \<times> 'w) env" where
  "local_rpc draw rand n env = sim_env draw local_node (mock_env rand n env)"

definition in_step :: "'r mock_node \<Rightarrow> 'w sync_state \<Rightarrow> bool" where
  "in_step n s \<longleftrightarrow> al_ok (ms_txs (ss_state s)) \<and> cached s = dom (al_get (mn_txs n)) \<and> ms_caught_up (ss_state s)"

lemmas local_calls = local_rpc_def sim_env_def gated_def gate_def drops_def delay_def beside_def local_node_def cap_body_def

lemma local_serves:
  assumes "fair_order env"
  shows "node_serves (local_rpc draw rand n env) \<lparr>mi_loaded = Some (\<not> mn_reloading n), mi_mempoolminfee = mn_min_fee n\<rparr>
    (mock_keys rand n) (mock_mempool_entry n)"
  using mock_serves [OF assms, of rand n]
  by (auto simp: node_serves_def static_answers_def fair_order_def local_calls case_prod_beta)

lemma steady_in_step:
  assumes n: "mock_repr n cs" and "rand_ok rand" "\<not> mn_reloading n" "length (mn_txs n) \<le> usize_max"
    and "fair_order env" "in_budget (local_rpc draw rand n env) (sc_tick_budget cfg)"
    and "al_ok (ms_txs (ss_state s))" "\<not> is_mass_drop (length (ms_txs (ss_state s))) (length (mn_txs n))"
    and "card (dom (al_get (mn_txs n)) - cached s) \<le> 2000"
  shows "in_step n (snd (run_state (steady_tick (local_rpc draw rand n env) cfg) s))"
proof -
  let ?t = "snd (run_state (steady_tick (local_rpc draw rand n env) cfg) s)"
  have keys: "set (mock_keys rand n) = dom (al_get (mn_txs n))" by (rule set_mock_keys [OF assms(2)])
  have "card (set (mock_keys rand n)) = length (mn_txs n)"
    using mock_repr_length [OF n] distinct_card [OF mock_reprD(3) [OF n]] mock_reprD(4) [OF n] keys by simp
  then have app: "applied (mock_mempool_entry n) (remdups (mock_keys rand n)) True s ?t"
    using steady_applied [OF local_serves [OF assms(5)], where s = s and cfg = cfg and n1 = n and draw1 = draw and rand1 = rand] assms(3,6,7,8)
    by (simp add: unwrap_or_def)
  have ans: "\<forall>x \<in> set (remdups (mock_keys rand n)). \<exists>e. mock_mempool_entry n x = Inr (Some e)"
    using keys by (auto simp: mock_mempool_entry_def entry_by_txid_def)
  note drain = drain_step [OF app distinct_remdups ans, unfolded set_remdups keys MAX_NEW_FETCH_PER_TICK_def]
  have "finite (dom (al_get (mn_txs n)))" unfolding keys [symmetric] by simp
  then have "dom (al_get (mn_txs n)) - cached ?t = {}" using drain(1) assms(9) by simp
  then show ?thesis using drain(2-4) assms(9) by (auto simp: in_step_def)
qed

lemma tick_steady: "tick env cfg s =
    snd (run_state (steady_tick env cfg) (s\<lparr>ss_world := snd (sleep_or_wake env (sc_poll_interval cfg) (ss_world s))\<rparr>))"
  by (simp add: tick_def run_tick_def run_outside)

lemma in_step_length:
  assumes "mock_repr n cs" "in_step n s"
  shows "length (ms_txs (ss_state s)) = length (mn_txs n)"
  using assms cached_length [of s] distinct_card [OF mock_reprD(3) [OF assms(1)]] mock_reprD(4) [OF assms(1)] mock_repr_length [OF assms(1)]
  by (simp add: in_step_def)

subsection \<open>A churning node\<close>

text \<open>Fresh ids in every one of \<open>k\<close> ticks.\<close>

fun fresh_ticks :: "'r rand \<Rightarrow> nat \<Rightarrow> 'r mock_node \<Rightarrow> bool" where
  "fresh_ticks rand 0 n \<longleftrightarrow> True"
| "fresh_ticks rand (Suc k) n \<longleftrightarrow> fresh_advance rand n \<and>
     (case advance rand n of Some n' \<Rightarrow> fresh_ticks rand k n' | None \<Rightarrow> True)"

text \<open>In each of \<open>k\<close> rounds the node advances, the loop ticks, and the cache is the mempool again.\<close>

fun keeps_step :: "('q \<Rightarrow> f64 \<times> 'q) \<Rightarrow> 'r rand \<Rightarrow> 'w env \<Rightarrow> sync_config \<Rightarrow> nat \<Rightarrow> 'r mock_node \<Rightarrow> ('q net_shared \<times> 'w) sync_state \<Rightarrow> bool" where
  "keeps_step draw rand env cfg 0 n s \<longleftrightarrow> True"
| "keeps_step draw rand env cfg (Suc k) n s \<longleftrightarrow>
     (case advance rand n of
        None \<Rightarrow> False
      | Some n' \<Rightarrow> let s' = tick (local_rpc draw rand n' env) cfg s in in_step n' s' \<and> keeps_step draw rand env cfg k n' s')"

text \<open>A tick of churn is small enough for one tick of the loop.\<close>

lemma advance_near:
  assumes n: "mock_repr n cs" and "cfg_ok (mn_cfg n)" "rand_ok rand" "fresh_advance rand n" "in_step n s"
    and "cc_evictions_per_tick (mn_cfg n) \<le> cc_arrivals_per_tick (mn_cfg n)" "cc_arrivals_per_tick (mn_cfg n) \<le> 2000"
    and "length (mn_txs n) + cc_arrivals_per_tick (mn_cfg n) \<le> usize_max"
  obtains n' cs' where "advance rand n = Some n'" "mock_repr n' cs'" "\<not> mn_reloading n'" "mn_cfg n' = mn_cfg n"
    "length (mn_txs n') \<le> length (mn_txs n) + cc_arrivals_per_tick (mn_cfg n)"
    "\<not> is_mass_drop (length (ms_txs (ss_state s))) (length (mn_txs n'))" "card (dom (al_get (mn_txs n')) - cached s) \<le> 2000"
proof -
  from advance_repr [OF assms(1-4)] obtain n' cs' where
    n': "advance rand n = Some n'" "mock_repr n' cs'" "churned (n\<lparr>mn_reloading := False\<rparr>) n'"
      "length (concat cs') = (length (concat cs) - cc_evictions_per_tick (mn_cfg n)) + cc_arrivals_per_tick (mn_cfg n)"
      "card (set (concat cs') - set (concat cs)) \<le> cc_arrivals_per_tick (mn_cfg n)" by blast
  have dom: "dom (al_get (mn_txs n')) = set (concat cs')" "cached s = set (concat cs)"
    using mock_reprD(4) [OF n] mock_reprD(4) [OF n'(2)] assms(5) by (simp_all add: in_step_def)
  have len: "length (mn_txs n') = (length (mn_txs n) - cc_evictions_per_tick (mn_cfg n)) + cc_arrivals_per_tick (mn_cfg n)"
    using n'(4) by (simp add: mock_repr_length [OF n] mock_repr_length [OF n'(2)])
  have "length (ms_txs (ss_state s)) \<le> length (mn_txs n')" "length (ms_txs (ss_state s)) \<le> usize_max"
    using in_step_length [OF n assms(5)] len assms(6,8) by simp_all
  then have "\<not> is_mass_drop (length (ms_txs (ss_state s))) (length (mn_txs n'))"
    by (auto simp: is_mass_drop_def usize_sat_mul_def MASS_DROP_INVERSE_def min_def)
  moreover have "card (dom (al_get (mn_txs n')) - cached s) \<le> 2000" using n'(5) assms(7) unfolding dom by simp
  ultimately show thesis using that [OF n'(1,2)] n'(3) len by (simp add: churned_def)
qed

text \<open>C16. An indexer that is in step with a simulated node stays in step while the node churns: in every round the node
  takes a churn tick, the loop sleeps and takes a tick, and afterwards the cache holds exactly the transactions the
  node holds now, with \<open>caught_up\<close> set.  It does so for \<open>k\<close> rounds, whatever \<open>k\<close>, provided that no more transactions are
  evicted than arrive and at most 2000 (\<open>MAX_NEW_FETCH_PER_TICK\<close>) arrive per round, that the ids drawn are
  fresh, that the mempool does not outgrow \<open>usize\<close>, and that every pass of at most 2000 fetches ends within
  the tick budget of its own start; the time between passes is free.\<close>

theorem indexer_tracks_churn:
  assumes "mock_reach rand mcfg n" "cfg_ok mcfg" "rand_ok rand" "fresh_ticks rand k n" "in_step n s"
    and "cc_evictions_per_tick mcfg \<le> cc_arrivals_per_tick mcfg" "cc_arrivals_per_tick mcfg \<le> 2000"
    and "length (mn_txs n) + k * cc_arrivals_per_tick mcfg \<le> usize_max"
    and "fair_order env" "\<And>m. in_budget (local_rpc draw rand m env) (sc_tick_budget cfg)"
  shows "keeps_step draw rand env cfg k n s"
proof -
  have step: "keeps_step draw rand env cfg k n s"
    if "mock_repr n cs" "mn_cfg n = mcfg" "fresh_ticks rand k n" "in_step n s"
      "length (mn_txs n) + k * cc_arrivals_per_tick mcfg \<le> usize_max" for cs n s k
    using that
  proof (induction k arbitrary: cs n s)
    case (Suc k)
    from Suc.prems(2,3,5) assms(2,6,7) have start: "cfg_ok (mn_cfg n)" "fresh_advance rand n"
      "cc_evictions_per_tick (mn_cfg n) \<le> cc_arrivals_per_tick (mn_cfg n)" "cc_arrivals_per_tick (mn_cfg n) \<le> 2000"
      "length (mn_txs n) + cc_arrivals_per_tick (mn_cfg n) \<le> usize_max" by simp_all
    obtain n' cs' where n': "advance rand n = Some n'" "mock_repr n' cs'" "\<not> mn_reloading n'" "mn_cfg n' = mn_cfg n"
      "length (mn_txs n') \<le> length (mn_txs n) + cc_arrivals_per_tick (mn_cfg n)"
      "\<not> is_mass_drop (length (ms_txs (ss_state s))) (length (mn_txs n'))" "card (dom (al_get (mn_txs n')) - cached s) \<le> 2000"
      by (rule advance_near [OF Suc.prems(1) start(1) assms(3) start(2) Suc.prems(4) start(3-5)])
    define w where "w = snd (sleep_or_wake (local_rpc draw rand n' env) (sc_poll_interval cfg) (ss_world s))"
    have "length (mn_txs n') \<le> usize_max" using n'(5) start(5) by simp
    from steady_in_step [OF n'(2) assms(3) n'(3) this assms(9) assms(10) [of n'], of "s\<lparr>ss_world := w\<rparr>"]
    have now: "in_step n' (tick (local_rpc draw rand n' env) cfg s)"
      using n'(6,7) Suc.prems(4) by (simp add: tick_steady w_def cached_def in_step_def)
    moreover have "length (mn_txs n') + k * cc_arrivals_per_tick mcfg \<le> usize_max"
      using n'(5) Suc.prems(2,5) by simp
    ultimately show ?case using Suc.IH [OF n'(2) _ _ now] Suc.prems(2,3) n'(1,4) by (simp add: Let_def)
  qed simp
  obtain cs where "mock_repr n cs" "mn_cfg n = mcfg" by (rule mock_reachE [OF assms(1-3)])
  then show ?thesis using step assms(4,5,8) by blast
qed

text \<open>The loop after its start-up beside the node with a parent and its child, under a clock that moves while it sleeps.\<close>

definition pair_start :: "(nat net_shared \<times> nat) sync_state" where
  "pair_start = (run_init (\<lparr>ns_limiter = limiter_new 0, ns_rng = 0\<rparr>, 0) ''main'')\<lparr>ss_state :=
     (mempool_state_new ''main'')\<lparr>ms_caught_up := True,
       ms_txs := [(Txid 7, mempool_tx_from (parent_entry 220 4400)), (Txid 8, mempool_tx_from child_entry)]\<rparr>\<rparr>"

lemma indexer_tracks_churn_witness:
  "keeps_step (\<lambda>r. (0, r)) plain_rand (clock_env []) some_cfg 1 pair_node pair_start"
proof (rule indexer_tracks_churn [OF pair_reach cpfp_cfg_ok plain_rand_ok])
  show "fresh_ticks plain_rand 1 pair_node" using pair_fresh_advance by (simp split: option.split)
  show "in_step pair_node pair_start"
    by (auto simp: in_step_def pair_start_def pair_node_def cached_def al_keys_def al_ok_def al_get_def dom_def)
  show "length (mn_txs pair_node) + 1 * cc_arrivals_per_tick cpfp_cfg \<le> usize_max"
    by (simp add: pair_node_def cpfp_cfg_def usize_max_def)
  show "fair_order (clock_env [])" by (simp add: fair_order_def clock_env_def)
  show "in_budget (local_rpc (\<lambda>r. (0, r)) plain_rand m (clock_env [])) (sc_tick_budget some_cfg)" for m
    by (rule paced_in_budget [where time = snd and d = 0])
      (simp_all add: local_calls mock_env_def clock_env_def case_prod_beta)
qed (simp_all add: cpfp_cfg_def)

end
