(* ===== verification/Node_Tests.thy ===== *)
theory Node_Tests
  imports Sim_Track
begin

text \<open>
  The tests of the simulated node (\<open>sim/mock_node.rs\<close>) and of the simulated network (\<open>sim/network.rs\<close>).  A test of the source fixes a seed of one generator;
  here it is a function of the generator and the seed, and it is proved for all of them that draw fresh ids
  (and keep the documented ranges, \<open>rand_ok\<close>).  A test fails when an operation panics or hangs.
\<close>

subsection \<open>Accessors\<close>

definition node_len :: "'r mock_node \<Rightarrow> nat" where "node_len n = length (mn_txs n)"
definition child_of :: "'r mock_node \<Rightarrow> txid \<Rightarrow> txid option" where "child_of n t = al_get (mn_children n) t"
definition tip_height_sync :: "'r mock_node \<Rightarrow> u64" where "tip_height_sync n = mn_tip_height n"

definition on_node :: "'a option \<Rightarrow> ('a \<Rightarrow> bool) \<Rightarrow> bool" where
  "on_node m test = (case m of Some n \<Rightarrow> test n | None \<Rightarrow> False)"

subsection \<open>Assertions\<close>

text \<open>\<open>e.fees.ancestor == e.fees.base + p.fees.ancestor\<close>, whose sum panics on overflow; likewise for sizes.\<close>

definition fee_sum_is :: "u64 \<Rightarrow> u64 \<Rightarrow> u64 \<Rightarrow> bool" where
  "fee_sum_is c a b \<longleftrightarrow> amount_add a b = Some c"

text \<open>Each child's ancestor totals are its own plus its present parent's; each root's are its own.\<close>

definition assert_invariant :: "'r rand \<Rightarrow> 'r mock_node \<Rightarrow> bool" where
  "assert_invariant rand n = list_all (\<lambda>(t, e).
     case me_depends e of
       parent # _ \<Rightarrow> (case entry_by_txid n parent of
           Some p \<Rightarrow> fee_sum_is (me_ancestorsize e) (me_vsize e) (me_ancestorsize p) \<and>
             fee_sum_is (ef_ancestor (me_fees e)) (ef_base (me_fees e)) (ef_ancestor (me_fees p))
         | None \<Rightarrow> False)
     | [] \<Rightarrow> me_ancestorsize e = me_vsize e \<and> ef_ancestor (me_fees e) = ef_base (me_fees e))
     (snapshot_entries rand n)"

definition parents_present :: "'r rand \<Rightarrow> 'r mock_node \<Rightarrow> bool" where
  "parents_present rand n = list_all (\<lambda>(t, e).
     case me_depends e of parent # _ \<Rightarrow> entry_by_txid n parent \<noteq> None | [] \<Rightarrow> True) (snapshot_entries rand n)"

lemma snapshot_entry:
  assumes "rand_ok rand" "al_ok (mn_txs n)" "(t, e) \<in> set (snapshot_entries rand n)"
  shows "al_get (mn_txs n) t = Some e"
  using mock_snapshot [OF assms(1,2)] assms(3) by (metis entry_by_txid_def map_of_is_SomeI)

lemma unat_sum_is: "unat (a :: u64) = unat b + unat c \<Longrightarrow> fee_sum_is a b c"
  using unat_u64_lt [of a] by (auto simp: fee_sum_is_def amount_add_def word_unat_eq_iff unat_word_ariths)

lemma assert_invariant_repr:
  assumes "mock_repr n cs" "rand_ok rand"
  shows "assert_invariant rand n" "parents_present rand n"
proof -
  note entries = snapshot_entry [OF assms(2) mock_reprD(1) [OF assms(1)]]
  show "assert_invariant rand n"
    unfolding assert_invariant_def list_all_iff
    using repr_parent [OF assms(1) entries] by (fastforce simp: entry_by_txid_def intro: unat_sum_is)
  show "parents_present rand n"
    unfolding parents_present_def list_all_iff
    using repr_parent [OF assms(1) entries] by (fastforce simp: entry_by_txid_def)
qed

subsection \<open>Configurations\<close>

definition churn_of :: "nat \<Rightarrow> nat \<Rightarrow> fee_distribution \<Rightarrow> f64 \<Rightarrow> nat \<Rightarrow> churn_config" where
  "churn_of arrivals evictions fee cpfp_fraction max_chain =
     \<lparr>cc_arrivals_per_tick = arrivals, cc_evictions_per_tick = evictions, cc_fee = fee,
      cc_cpfp_fraction = cpfp_fraction, cc_max_chain = max_chain\<rparr>"

definition flat_test_cfg :: churn_config where "flat_test_cfg = churn_of 50 40 (fd_uniform 1 500) 0 1"
definition cpfp_test_cfg :: churn_config where "cpfp_test_cfg = churn_of 0 0 (fd_uniform 1 100) 1 3"

lemma churn_of_ok:
  assumes "max_chain \<le> 3" "fee = fd_uniform lo hi" "unat lo \<le> 500" "unat hi \<le> 500"
  shows "cfg_ok (churn_of arrivals evictions fee p max_chain)"
proof -
  have "max (unat lo) (unat hi) * 100000 \<le> 500 * 100000" using assms(3,4) by simp
  then have "fee_cap (churn_of arrivals evictions fee p max_chain) \<le> 50000000"
    using assms(2) by (simp add: fee_cap_def churn_of_def fd_uniform_def mult.commute)
  moreover have "chain_cap (churn_of arrivals evictions fee p max_chain) \<le> 3"
    using assms(1) by (simp add: chain_cap_def churn_of_def)
  ultimately have "chain_cap (churn_of arrivals evictions fee p max_chain) * (400000 + fee_cap (churn_of arrivals evictions fee p max_chain)) \<le> 3 * 50400000"
    by (intro mult_le_mono) simp_all
  moreover have "0 < fd_skew fee" using assms(2) by (simp add: fd_uniform_def)
  ultimately show ?thesis by (simp add: cfg_ok_def distrib_left churn_of_def)
qed

lemma test_cfgs_ok [simp]: "cfg_ok flat_test_cfg" "cfg_ok cpfp_test_cfg"
  by (simp_all add: flat_test_cfg_def cpfp_test_cfg_def churn_of_ok)

text \<open>With \<open>cpfp_fraction\<close> 1 every draw of the unit interval attaches.\<close>

lemma cpfp_test_eager: "rand_ok rand \<Longrightarrow> eager rand cpfp_test_cfg"
  using rand_okD(6) by (auto simp: eager_def cpfp_test_cfg_def churn_of_def)

subsection \<open>The shape of a node built with certain attachment\<close>

text \<open>With \<open>cpfp_fraction\<close> 1 at most one chain is unfinished at any time, so that chains of the full length appear
  as soon as there are that many transactions.\<close>

definition packed :: "nat \<Rightarrow> txid list list \<Rightarrow> bool" where
  "packed m cs \<longleftrightarrow> length (filter (\<lambda>ys. ys \<noteq> [] \<and> length ys < m) cs) \<le> 1 \<and> (\<forall>ys \<in> set cs. length ys \<le> m)"

lemma packed_grown:
  assumes "packed m cs" "grown m cs cs'" "extendable m cs \<longrightarrow> length cs' = length cs" "1 \<le> m"
  shows "packed m cs'"
  using assms(2) unfolding grown_def
proof (elim disjE exE conjE)
  fix t assume cs': "cs' = cs @ [[t]]"
  then have "\<not> extendable m cs" using assms(3) by simp
  then have "filter (\<lambda>ys. ys \<noteq> [] \<and> length ys < m) cs = []" by (auto simp: extendable_def filter_empty_conv)
  then show ?thesis using assms(1,4) cs' by (auto simp: packed_def)
next
  fix cs1 ys cs2 t assume "cs = cs1 @ ys # cs2" "ys \<noteq> []" "length ys < m" "cs' = cs1 @ (ys @ [t]) # cs2"
  then show ?thesis using assms(1) by (auto simp: packed_def)
qed

lemma concat_nonempty: "concat (filter (\<lambda>ys. ys \<noteq> []) cs) = concat cs"
  by (induction cs) auto

lemma packed_full:
  assumes "packed m cs" "m \<le> length (concat cs)" "1 \<le> m"
  shows "\<exists>ys \<in> set cs. length ys = m"
proof (rule ccontr)
  assume none: "\<not> (\<exists>ys \<in> set cs. length ys = m)"
  let ?open = "filter (\<lambda>ys. ys \<noteq> [] \<and> length ys < m) cs"
  have "?open = filter (\<lambda>ys. ys \<noteq> []) cs"
    using none assms(1) by (intro filter_cong) (auto simp: packed_def le_less)
  then have concat: "concat ?open = concat cs" by (simp add: concat_nonempty)
  have "length ?open \<le> 1" using assms(1) by (simp add: packed_def)
  then have "length (concat ?open) < m"
  proof (cases ?open)
    case (Cons ys yss)
    then have "yss = []" using \<open>length ?open \<le> 1\<close> by (cases yss) auto
    moreover have "ys \<in> set ?open" unfolding Cons by simp
    then have "length ys < m" unfolding set_filter by blast
    ultimately show ?thesis unfolding Cons by simp
  qed (use assms(3) in simp)
  then show False using concat assms(2) by simp
qed

lemma arrivals_packed:
  assumes "mock_repr n cs" "cfg_ok (mn_cfg n)" "rand_ok rand" "fresh_arrivals rand k n"
    and "eager rand (mn_cfg n)" "packed (cc_max_chain (mn_cfg n)) cs" "1 \<le> cc_max_chain (mn_cfg n)"
  shows "\<exists>n' cs'. add_arrivals rand k n = Some n' \<and> mock_repr n' cs' \<and> churned n n' \<and>
    length (concat cs') = length (concat cs) + k \<and> packed (cc_max_chain (mn_cfg n)) cs'"
  using assms
proof (induction k arbitrary: n cs)
  case 0
  then show ?case by auto
next
  case (Suc k)
  have "fresh_arrival rand n" using Suc.prems(4) by simp
  from add_arrival_grows [OF Suc.prems(1-3) this] obtain m cs1 where
    m: "add_arrival rand n = Some m" "mock_repr m cs1" "churned n m" "grown (cc_max_chain (mn_cfg n)) cs cs1"
      "extendable (cc_max_chain (mn_cfg n)) cs \<longrightarrow> length cs1 = length cs"
    using Suc.prems(5) by blast
  have cfg: "mn_cfg m = mn_cfg n" using m(3) by (simp add: churned_def)
  have "packed (cc_max_chain (mn_cfg m)) cs1" unfolding cfg by (rule packed_grown [OF Suc.prems(6) m(4,5) Suc.prems(7)])
  with Suc.IH [OF m(2)] Suc.prems m(1) cfg obtain n' cs' where
    "add_arrivals rand k m = Some n'" "mock_repr n' cs'" "churned m n'" "length (concat cs') = length (concat cs1) + k"
      "packed (cc_max_chain (mn_cfg n)) cs'" by auto
  then show ?case using m churned_trans grown_length [OF m(4)] by fastforce
qed

text \<open>A full chain of a new node.\<close>

lemma new_packed:
  assumes "rand_ok rand" "eager rand cfg" "cfg_ok cfg" "fresh_arrivals rand k (mock_empty seeded cfg)"
    and "1 \<le> cc_max_chain cfg" "cc_max_chain cfg \<le> k"
  obtains n cs ys where "mock_node_new rand seeded k cfg = Some n" "mock_repr n cs" "mn_cfg n = cfg"
    "ys \<in> set cs" "length ys = cc_max_chain cfg"
proof -
  have "mock_repr (mock_empty seeded cfg) []" by (simp add: mock_repr_def mock_empty_def al.ok_empty al.get_empty dom_def)
  moreover have "packed (cc_max_chain cfg) []" by (simp add: packed_def)
  ultimately obtain n cs where "add_arrivals rand k (mock_empty seeded cfg) = Some n" "mock_repr n cs" "churned (mock_empty seeded cfg) n"
      "length (concat cs) = k" "packed (cc_max_chain cfg) cs"
    using arrivals_packed [of "mock_empty seeded cfg" "[]" rand k] assms by (auto simp: mock_empty_def)
  moreover from this obtain ys where "ys \<in> set cs" "length ys = cc_max_chain cfg"
    using packed_full [of "cc_max_chain cfg" cs] assms(5,6) by blast
  ultimately show thesis by (intro that) (auto simp: mock_node_new_def mock_empty_def churned_def)
qed

subsection \<open>Packages\<close>

text \<open>What a test assumes of the generator: its draws are in range and the ids of its start-up are fresh.\<close>

definition drawn :: "'r rand \<Rightarrow> 'r \<Rightarrow> nat \<Rightarrow> churn_config \<Rightarrow> bool" where
  "drawn rand seed k cfg \<longleftrightarrow> rand_ok rand \<and> cfg_ok cfg \<and> fresh_arrivals rand k (mock_empty seed cfg)"

lemma drawnE:
  assumes "drawn rand seed k cfg"
  obtains n cs where "mock_node_new rand seed k cfg = Some n" "mock_repr n cs" "mn_cfg n = cfg" "length (concat cs) = k"
  using new_repr [of cfg rand k seed] assms unfolding drawn_def by blast

definition packages_have_consistent_aggregates_and_present_parents :: "'r rand \<Rightarrow> 'r \<Rightarrow> bool" where
  "packages_have_consistent_aggregates_and_present_parents rand seed = on_node (mock_node_new rand seed 300 cpfp_test_cfg) (\<lambda>node.
     list_all (\<lambda>(t, e).
       case me_depends e of
         parent # _ \<Rightarrow> (case entry_by_txid node parent of
             Some p \<Rightarrow> fee_sum_is (me_ancestorsize e) (me_vsize e) (me_ancestorsize p) \<and>
               fee_sum_is (ef_ancestor (me_fees e)) (ef_base (me_fees e)) (ef_ancestor (me_fees p)) \<and>
               child_of node parent = Some t
           | None \<Rightarrow> False)
       | [] \<Rightarrow> True) (snapshot_entries rand node) \<and>
     list_ex (\<lambda>(t, e). me_depends e \<noteq> []) (snapshot_entries rand node))"

definition parent_descendant_aggregates_match_child_subtree :: "'r rand \<Rightarrow> 'r \<Rightarrow> bool" where
  "parent_descendant_aggregates_match_child_subtree rand seed = on_node (mock_node_new rand seed 300 cpfp_test_cfg) (\<lambda>node.
     list_all (\<lambda>(t, p).
       case child_of node t of
         Some child \<Rightarrow> (case entry_by_txid node child of
             Some c \<Rightarrow> fee_sum_is (me_descendantsize p) (me_vsize p) (me_descendantsize c) \<and>
               fee_sum_is (ef_descendant (me_fees p)) (ef_base (me_fees p)) (ef_descendant (me_fees c))
           | None \<Rightarrow> False)
       | None \<Rightarrow> True) (snapshot_entries rand node))"

lemma repr_snapshot:
  assumes "mock_repr n cs" "rand_ok rand"
  shows "(t, e) \<in> set (snapshot_entries rand n) \<longleftrightarrow> al_get (mn_txs n) t = Some e"
  using mock_snapshot [OF assms(2) mock_reprD(1) [OF assms(1)]] by (metis entry_by_txid_def map_of_eq_Some_iff)

lemma packages_test_passes:
  assumes "drawn rand seed 300 cpfp_test_cfg"
  shows "packages_have_consistent_aggregates_and_present_parents rand seed"
proof -
  have rand: "rand_ok rand" "fresh_arrivals rand 300 (mock_empty seed cpfp_test_cfg)" using assms by (simp_all add: drawn_def)
  obtain n cs ys where n: "mock_node_new rand seed 300 cpfp_test_cfg = Some n" "mock_repr n cs"
      "ys \<in> set cs" "length ys = cc_max_chain cpfp_test_cfg"
    by (rule new_packed [OF rand(1) cpfp_test_eager [OF rand(1)] test_cfgs_ok(2) rand(2)]) (simp_all add: cpfp_test_cfg_def churn_of_def)
  then have "length ys = 3" by (simp add: cpfp_test_cfg_def churn_of_def)
  then obtain a b c where ys: "ys = [a] @ b # [c]" by (auto simp: numeral_3_eq_3 length_Suc_conv)
  have "chain_ok (al_get (mn_txs n)) (al_get (mn_children n)) ([a] @ b # [c])" using mock_reprD(6) [OF n(2,3)] ys by simp
  then obtain eb where "al_get (mn_txs n) b = Some eb" "me_depends eb = [a]" by (rule chain_okD) auto
  then have "list_ex (\<lambda>(t, e). me_depends e \<noteq> []) (snapshot_entries rand n)"
    unfolding list_ex_iff using repr_snapshot [OF n(2) rand(1)] by force
  then show ?thesis
    unfolding packages_have_consistent_aggregates_and_present_parents_def n(1) on_node_def list_all_iff
    using repr_parent [OF n(2)] repr_snapshot [OF n(2) rand(1)]
    by (fastforce simp: entry_by_txid_def child_of_def intro: unat_sum_is)
qed

lemma subtree_test_passes:
  assumes "drawn rand seed 300 cpfp_test_cfg"
  shows "parent_descendant_aggregates_match_child_subtree rand seed"
proof -
  have rand: "rand_ok rand" using assms by (simp add: drawn_def)
  obtain n cs where n: "mock_node_new rand seed 300 cpfp_test_cfg = Some n" "mock_repr n cs" using assms by (rule drawnE)
  have "case child_of n t of
         Some child \<Rightarrow> (case entry_by_txid n child of
             Some c \<Rightarrow> fee_sum_is (me_descendantsize p) (me_vsize p) (me_descendantsize c) \<and>
               fee_sum_is (ef_descendant (me_fees p)) (ef_base (me_fees p)) (ef_descendant (me_fees c))
           | None \<Rightarrow> False)
       | None \<Rightarrow> True" if "al_get (mn_txs n) t = Some p" for t p
    using repr_children_index [OF n(2) that, of "the (child_of n t)"]
    by (auto simp: child_of_def entry_by_txid_def intro: unat_sum_is split: option.splits)
  then show ?thesis
    unfolding parent_descendant_aggregates_match_child_subtree_def n(1) on_node_def list_all_iff
    using repr_snapshot [OF n(2) rand] by auto
qed

subsection \<open>Churn\<close>

definition advance_applies_churn_counts :: "'r rand \<Rightarrow> 'r \<Rightarrow> bool" where
  "advance_applies_churn_counts rand seed = on_node (mock_node_new rand seed 1000 flat_test_cfg) (\<lambda>n.
     on_node (advance rand n) (\<lambda>n. node_len n = 1010))"

definition fees_within_configured_range :: "'r rand \<Rightarrow> 'r \<Rightarrow> bool" where
  "fees_within_configured_range rand seed = on_node (mock_node_new rand seed 500 flat_test_cfg) (\<lambda>n.
     list_all (\<lambda>(_, e). let sat_vb = ef_base (me_fees e) div max (me_vsize e) 1 in 1 \<le> sat_vb \<and> sat_vb \<le> 500)
       (snapshot_entries rand n))"

definition half_cpfp_cfg :: "nat \<Rightarrow> churn_config" where
  "half_cpfp_cfg k = churn_of k k (fd_uniform 1 100) (1 / 2) 3"

fun never_orphans :: "'r rand \<Rightarrow> nat \<Rightarrow> 'r mock_node \<Rightarrow> bool" where
  "never_orphans rand 0 node \<longleftrightarrow> True"
| "never_orphans rand (Suc k) node \<longleftrightarrow>
     on_node (advance rand node) (\<lambda>node. parents_present rand node \<and> never_orphans rand k node)"

definition churn_eviction_never_orphans_a_child :: "'r rand \<Rightarrow> 'r \<Rightarrow> bool" where
  "churn_eviction_never_orphans_a_child rand seed =
     on_node (mock_node_new rand seed 500 (half_cpfp_cfg 40)) (never_orphans rand 20)"

definition mass_drop_never_orphans_and_shrinks :: "'r rand \<Rightarrow> 'r \<Rightarrow> bool" where
  "mass_drop_never_orphans_and_shrinks rand seed = on_node (mock_node_new rand seed 400 (half_cpfp_cfg 0)) (\<lambda>node.
     let before = node_len node in
     on_node (mass_drop rand (1 / 2) node) (\<lambda>node. node_len node < before \<and> parents_present rand node))"

lemma half_cpfp_cfg_ok [simp]: "cfg_ok (half_cpfp_cfg k)"
  by (simp add: half_cpfp_cfg_def churn_of_ok)

lemma ticks_never_orphan:
  assumes "mock_repr n cs" "cfg_ok (mn_cfg n)" "rand_ok rand" "fresh_ticks rand k n"
  shows "never_orphans rand k n"
  using assms
proof (induction k arbitrary: n cs)
  case (Suc k)
  from Suc.prems advance_repr [OF Suc.prems(1-3)] obtain n' cs' where
    n': "advance rand n = Some n'" "mock_repr n' cs'" "mn_cfg n' = mn_cfg n" "fresh_ticks rand k n'"
    by (auto simp: churned_def split: option.splits)
  then show ?case using Suc.IH [OF n'(2)] Suc.prems(2,3) assert_invariant_repr(2) [OF n'(2)] by (simp add: on_node_def)
qed simp

lemma churn_tests_pass:
  "drawn rand seed 1000 flat_test_cfg \<Longrightarrow> (\<And>n. mock_node_new rand seed 1000 flat_test_cfg = Some n \<Longrightarrow> fresh_advance rand n) \<Longrightarrow>
    advance_applies_churn_counts rand seed"
  "drawn rand seed 500 (half_cpfp_cfg 40) \<Longrightarrow>
    (\<And>n. mock_node_new rand seed 500 (half_cpfp_cfg 40) = Some n \<Longrightarrow> fresh_ticks rand 20 n) \<Longrightarrow>
    churn_eviction_never_orphans_a_child rand seed"
  "drawn rand seed 400 (half_cpfp_cfg 0) \<Longrightarrow> mass_drop_never_orphans_and_shrinks rand seed"
proof -
  assume d: "drawn rand seed 1000 flat_test_cfg" and f: "\<And>n. mock_node_new rand seed 1000 flat_test_cfg = Some n \<Longrightarrow> fresh_advance rand n"
  obtain n cs where n: "mock_node_new rand seed 1000 flat_test_cfg = Some n" "mock_repr n cs" "mn_cfg n = flat_test_cfg"
      "length (concat cs) = 1000" using d by (rule drawnE)
  from advance_repr [OF n(2) _ _ f [OF n(1)]] n(3,4) d obtain n' cs' where
    n': "advance rand n = Some n'" "mock_repr n' cs'" "length (concat cs') = 1010"
    by (auto simp: drawn_def flat_test_cfg_def churn_of_def)
  then show "advance_applies_churn_counts rand seed"
    using n(1) mock_repr_length [OF n'(2)] by (simp add: advance_applies_churn_counts_def on_node_def node_len_def)
next
  assume d: "drawn rand seed 500 (half_cpfp_cfg 40)" and f: "\<And>n. mock_node_new rand seed 500 (half_cpfp_cfg 40) = Some n \<Longrightarrow> fresh_ticks rand 20 n"
  obtain n cs where n: "mock_node_new rand seed 500 (half_cpfp_cfg 40) = Some n" "mock_repr n cs" "mn_cfg n = half_cpfp_cfg 40"
    using d by (rule drawnE)
  then show "churn_eviction_never_orphans_a_child rand seed"
    using ticks_never_orphan [OF n(2) _ _ f [OF n(1)]] d
    by (simp add: churn_eviction_never_orphans_a_child_def on_node_def drawn_def)
next
  assume d: "drawn rand seed 400 (half_cpfp_cfg 0)"
  then have rand: "rand_ok rand" by (simp add: drawn_def)
  obtain n cs where n: "mock_node_new rand seed 400 (half_cpfp_cfg 0) = Some n" "mock_repr n cs" "length (concat cs) = 400"
    using d by (rule drawnE)
  have "f64_as_nat usize_max (f64_mul (f64_round 400) (1 / 2)) = 200" by code_simp
  with mass_drop_repr [OF n(2) rand, of "1 / 2"] n(3) obtain n' cs' where
    n': "mass_drop rand (1 / 2) n = Some n'" "mock_repr n' cs'" "length (concat cs') = 200" by auto
  then show "mass_drop_never_orphans_and_shrinks rand seed"
    using n assert_invariant_repr(2) [OF n'(2) rand] mock_repr_length [OF n(2)] mock_repr_length [OF n'(2)]
    by (simp add: mass_drop_never_orphans_and_shrinks_def on_node_def node_len_def)
qed

subsection \<open>Mining\<close>

definition mine_block_confirms_whole_packages_and_never_orphans :: "'r rand \<Rightarrow> 'r \<Rightarrow> bool" where
  "mine_block_confirms_whole_packages_and_never_orphans rand seed = on_node (mock_node_new rand seed 300 cpfp_test_cfg) (\<lambda>node.
     let tip_before = tip_height_sync node in
     on_node (mine_block rand node) (\<lambda>node. tip_height_sync node = tip_before + 1 \<and> parents_present rand node))"

text \<open>The root of a chain of at least three, the first in the order of the map.\<close>

definition find_root :: "'r rand \<Rightarrow> 'r mock_node \<Rightarrow> txid option" where
  "find_root rand node = map_option fst (find (\<lambda>(a, ea). me_depends ea = [] \<and>
     (case child_of node a of Some b \<Rightarrow> child_of node b \<noteq> None | None \<Rightarrow> False)) (snapshot_entries rand node))"

definition confirm_set_recomputes_grandchild_ancestor_aggregates :: "'r rand \<Rightarrow> 'r \<Rightarrow> bool" where
  "confirm_set_recomputes_grandchild_ancestor_aggregates rand seed = on_node (mock_node_new rand seed 400 cpfp_test_cfg) (\<lambda>node.
     on_node (find_root rand node) (\<lambda>a.
     on_node (child_of node a) (\<lambda>b.
     on_node (child_of node b) (\<lambda>c.
     on_node (entry_by_txid node b) (\<lambda>b_before.
     on_node (entry_by_txid node c) (\<lambda>c_before.
     on_node (entry_by_txid node a) (\<lambda>a_entry.
       on_node (amount_add (me_vsize c_before) (me_vsize b_before)) (\<lambda>s. fee_sum_is (me_ancestorsize c_before) s (me_vsize a_entry)) \<and>
       on_node (confirm_set rand [a] node) (\<lambda>node.
         entry_by_txid node a = None \<and>
         on_node (entry_by_txid node b) (\<lambda>b_after.
           me_depends b_after = [] \<and> me_ancestorsize b_after = me_vsize b_after \<and>
           ef_ancestor (me_fees b_after) = ef_base (me_fees b_after) \<and>
           on_node (entry_by_txid node c) (\<lambda>c_after.
             me_depends c_after = [b] \<and>
             fee_sum_is (me_ancestorsize c_after) (me_vsize c_after) (me_ancestorsize b_after) \<and>
             fee_sum_is (ef_ancestor (me_fees c_after)) (ef_base (me_fees c_after)) (ef_ancestor (me_fees b_after))))))))))))"

text \<open>The chain of such a root, and what confirming the root alone does to it.\<close>

lemma find_rootD:
  assumes n: "mock_repr n cs" "rand_ok rand" and a: "find_root rand n = Some a"
  obtains cs1 b c xs cs2 where "cs = cs1 @ (a # b # c # xs) # cs2"
    "child_of n a = Some b" "child_of n b = Some c"
proof -
  obtain ea b where ea: "al_get (mn_txs n) a = Some ea" "me_depends ea = []" "child_of n a = Some b" "child_of n b \<noteq> None"
    using a repr_snapshot [OF n]
    by (fastforce simp: find_root_def find_Some_iff in_set_conv_nth split: option.splits)
  have "al_get (mn_txs n) a \<noteq> None" using ea(1) by simp
  then obtain cs1 ys zs cs2 where cs: "cs = cs1 @ (ys @ a # zs) # cs2" by (rule mock_repr_split [OF n(1)])
  then have ch: "chain_ok (al_get (mn_txs n)) (al_get (mn_children n)) (ys @ a # zs)" using mock_reprD(6) [OF n(1)] by simp
  have "me_depends ea = (if ys = [] then [] else [last ys])" "child_of n a = (if zs = [] then None else Some (hd zs))"
    using chain_okD [OF ch] ea(1) unfolding child_of_def by (metis option.inject)+
  then obtain zs' where zs: "ys = []" "zs = b # zs'" using ea(2,3) by (cases zs) (auto split: if_splits)
  then have "chain_ok (al_get (mn_txs n)) (al_get (mn_children n)) ([a] @ b # zs')" using ch by simp
  then have "child_of n b = (if zs' = [] then None else Some (hd zs'))" unfolding child_of_def by (rule chain_okD)
  then obtain c xs where "zs' = c # xs" "child_of n b = Some c" using ea(4) by (cases zs') auto
  then show thesis using that [of cs1 b c xs cs2] cs zs ea(3) by simp
qed

lemma confirm_root:
  assumes n: "mock_repr n (cs1 @ (a # xs) # cs2)" and "cfg_ok (mn_cfg n)" "rand_ok rand"
  shows "\<exists>n'. confirm_set rand [a] n = Some n' \<and> mock_repr n' (cs1 @ xs # cs2) \<and> churned n n'"
proof -
  have distinct: "distinct (concat (cs1 @ (a # xs) # cs2))" by (rule mock_reprD(3) [OF n])
  have other: "filter (\<lambda>t. t \<noteq> a) ys = ys" if "a \<notin> set ys" for ys using that by (auto simp: filter_id_conv)
  have "a \<notin> set ys" if "ys \<in> set cs1 \<union> set cs2 \<union> {xs}" for ys using distinct that by auto
  then have cut: "map (filter (\<lambda>t. t \<notin> set [a])) (cs1 @ (a # xs) # cs2) = cs1 @ xs # cs2"
    by (simp add: other map_idI)
  have "ancestor_closed (cs1 @ (a # xs) # cs2) (set [a])"
    unfolding ancestor_closed_def
  proof
    fix ys assume ys: "ys \<in> set (cs1 @ (a # xs) # cs2)"
    show "\<exists>ps qs. ys = ps @ qs \<and> set ps \<subseteq> set [a] \<and> set qs \<inter> set [a] = {}"
    proof (cases "ys = a # xs")
      case True
      then show ?thesis using distinct by (intro exI [of _ "[a]"] exI [of _ xs]) auto
    next
      case False
      then show ?thesis using ys distinct by (intro exI [of _ "[]"] exI [of _ ys]) auto
    qed
  qed
  from confirm_set_repr [OF n assms(2,3) this] show ?thesis unfolding cut .
qed

lemma mining_test_passes:
  assumes "drawn rand seed 300 cpfp_test_cfg"
  shows "mine_block_confirms_whole_packages_and_never_orphans rand seed"
proof -
  have rand: "rand_ok rand" using assms by (simp add: drawn_def)
  obtain n cs where n: "mock_node_new rand seed 300 cpfp_test_cfg = Some n" "mock_repr n cs" "mn_cfg n = cpfp_test_cfg"
    using assms by (rule drawnE)
  have cfg: "cfg_ok (mn_cfg n)" using n(3) by simp
  obtain n' cs' where "mine_block rand n = Some n'" "mock_repr n' cs'" "churned (n\<lparr>mn_tip_height := mn_tip_height n + 1\<rparr>) n'"
    using mine_block_repr [OF n(2) cfg rand] by blast
  then show ?thesis
    using n(1) assert_invariant_repr(2) [OF _ rand]
    by (simp add: mine_block_confirms_whole_packages_and_never_orphans_def on_node_def tip_height_sync_def churned_def)
qed

lemma find_root_some:
  assumes n: "mock_repr n cs" "rand_ok rand" and ys: "ys \<in> set cs" "length ys = 3"
  shows "find_root rand n \<noteq> None"
proof -
  obtain a b c where abc: "ys = [a, b, c]" using ys(2) by (auto simp: numeral_3_eq_3 length_Suc_conv)
  then have "chain_ok (al_get (mn_txs n)) (al_get (mn_children n)) ([] @ a # [b, c])"
      "chain_ok (al_get (mn_txs n)) (al_get (mn_children n)) ([a] @ b # [c])"
    using mock_reprD(6) [OF n(1) ys(1)] by simp_all
  then obtain ea where "al_get (mn_txs n) a = Some ea" "me_depends ea = []" "child_of n a = Some b" "child_of n b = Some c"
    unfolding child_of_def by (elim chain_okD) auto
  moreover from this have "(a, ea) \<in> set (snapshot_entries rand n)" using repr_snapshot [OF n] by blast
  ultimately show ?thesis unfolding find_root_def by (auto simp: find_None_iff intro!: exI [of _ a] exI [of _ ea])
qed

lemma grandchild_test_passes:
  assumes "drawn rand seed 400 cpfp_test_cfg"
  shows "confirm_set_recomputes_grandchild_ancestor_aggregates rand seed"
proof -
  have rand: "rand_ok rand" "fresh_arrivals rand 400 (mock_empty seed cpfp_test_cfg)" using assms by (simp_all add: drawn_def)
  obtain n cs ys where n: "mock_node_new rand seed 400 cpfp_test_cfg = Some n" "mock_repr n cs" "mn_cfg n = cpfp_test_cfg"
      "ys \<in> set cs" "length ys = cc_max_chain cpfp_test_cfg"
    by (rule new_packed [OF rand(1) cpfp_test_eager [OF rand(1)] test_cfgs_ok(2) rand(2)]) (simp_all add: cpfp_test_cfg_def churn_of_def)
  then have "length ys = 3" by (simp add: cpfp_test_cfg_def churn_of_def)
  then obtain a where a: "find_root rand n = Some a" using find_root_some [OF n(2) rand(1) n(4)] by auto
  then obtain cs1 b c xs cs2 where cs: "cs = cs1 @ (a # b # c # xs) # cs2" "child_of n a = Some b" "child_of n b = Some c"
    by (rule find_rootD [OF n(2) rand(1)])
  have cfg: "cfg_ok (mn_cfg n)" using n(3) by simp
  have "mock_repr n (cs1 @ (a # b # c # xs) # cs2)" using n(2) cs(1) by simp
  from confirm_root [OF this cfg rand(1)] obtain n' where
    n': "confirm_set rand [a] n = Some n'" "mock_repr n' (cs1 @ (b # c # xs) # cs2)" by blast
  have ch: "chain_ok (al_get (mn_txs n)) (al_get (mn_children n)) (a # b # c # xs)"
      "chain_ok (al_get (mn_txs n')) (al_get (mn_children n')) (b # c # xs)"
    using mock_reprD(6) [OF n(2), of "a # b # c # xs"] mock_reprD(6) [OF n'(2), of "b # c # xs"] cs(1) by simp_all
  have "chain_ok (al_get (mn_txs n)) (al_get (mn_children n)) ([] @ a # b # c # xs)" using ch(1) by simp
  then obtain ea where ea: "al_get (mn_txs n) a = Some ea" by (rule chain_okD)
  have "chain_ok (al_get (mn_txs n)) (al_get (mn_children n)) ([a] @ b # c # xs)" using ch(1) by simp
  then obtain eb where eb: "al_get (mn_txs n) b = Some eb" by (rule chain_okD)
  have "chain_ok (al_get (mn_txs n)) (al_get (mn_children n)) ([a, b] @ c # xs)" using ch(1) by simp
  then obtain ec where ec: "al_get (mn_txs n) c = Some ec"
      "unat (me_ancestorsize ec) = unat (me_vsize ea) + (unat (me_vsize eb) + unat (me_vsize ec))"
    by (rule chain_okD) (simp add: ea eb)
  have "chain_ok (al_get (mn_txs n')) (al_get (mn_children n')) ([] @ b # c # xs)" using ch(2) by simp
  then obtain eb' where "al_get (mn_txs n') b = Some eb'" "me_depends eb' = []" by (rule chain_okD) auto
  moreover from this have "me_ancestorsize eb' = me_vsize eb'" "ef_ancestor (me_fees eb') = base_of eb'"
    using repr_parent [OF n'(2)] by fastforce+
  moreover have "chain_ok (al_get (mn_txs n')) (al_get (mn_children n')) ([b] @ c # xs)" using ch(2) by simp
  then obtain ec' where "al_get (mn_txs n') c = Some ec'" "me_depends ec' = [b]" by (rule chain_okD) auto
  moreover from this have "fee_sum_is (me_ancestorsize ec') (me_vsize ec') (me_ancestorsize eb')"
      "fee_sum_is (ef_ancestor (me_fees ec')) (base_of ec') (ef_ancestor (me_fees eb'))"
    using repr_parent [OF n'(2), of c ec'] calculation(1) by (auto intro: unat_sum_is)
  moreover have "al_get (mn_txs n') a = None"
    using mock_reprD(3) [OF n(2)] mock_reprD(4) [OF n'(2)] cs(1) by (auto simp: dom_def)
  moreover have "on_node (amount_add (me_vsize ec) (me_vsize eb)) (\<lambda>s. fee_sum_is (me_ancestorsize ec) s (me_vsize ea))"
    using ec(2) unat_u64_lt [of "me_ancestorsize ec"]
    by (auto simp: amount_add_def on_node_def unat_word_ariths intro!: unat_sum_is)
  ultimately show ?thesis
    unfolding confirm_set_recomputes_grandchild_ancestor_aggregates_def
    by (simp add: on_node_def entry_by_txid_def n(1) a cs(2,3) ea eb ec(1) n'(1))
qed

text \<open>One round of the truth test, with whether it forced a partial confirmation; \<open>None\<close> is a failed assertion.\<close>

definition truth_round :: "'r rand \<Rightarrow> 'r mock_node \<Rightarrow> (bool \<times> 'r mock_node) option" where
  "truth_round rand node =
     Option.bind (advance rand node) (\<lambda>node.
     Option.bind (case find_root rand node of
         Some a \<Rightarrow> Option.bind (confirm_set rand [a] node) (\<lambda>node. if assert_invariant rand node then Some (True, node) else None)
       | None \<Rightarrow> Some (False, node)) (\<lambda>(forced, node).
     Option.bind (mine_block rand node) (\<lambda>node. if assert_invariant rand node then Some (forced, node) else None)))"

fun truth_rounds :: "'r rand \<Rightarrow> nat \<Rightarrow> nat \<Rightarrow> 'r mock_node \<Rightarrow> (nat \<times> 'r mock_node) option" where
  "truth_rounds rand 0 forced node = Some (forced, node)"
| "truth_rounds rand (Suc k) forced node =
     Option.bind (truth_round rand node) (\<lambda>(b, node). truth_rounds rand k (if b then forced + 1 else forced) node)"

definition truth_cfg :: churn_config where "truth_cfg = churn_of 60 20 (fd_uniform 1 100) (f64_round (6 / 10)) 3"

definition aggregates_stay_truthful_across_churn_and_mine_cycles :: "'r rand \<Rightarrow> 'r \<Rightarrow> bool" where
  "aggregates_stay_truthful_across_churn_and_mine_cycles rand seed = on_node (mock_node_new rand seed 400 truth_cfg) (\<lambda>node.
     on_node (truth_rounds rand 15 0 node) (\<lambda>(forced, node). 0 < forced \<and> assert_invariant rand node))"

fun fresh_rounds :: "'r rand \<Rightarrow> nat \<Rightarrow> 'r mock_node \<Rightarrow> bool" where
  "fresh_rounds rand 0 n \<longleftrightarrow> True"
| "fresh_rounds rand (Suc k) n \<longleftrightarrow> fresh_advance rand n \<and>
     (case truth_round rand n of Some (_, n') \<Rightarrow> fresh_rounds rand k n' | None \<Rightarrow> True)"

lemma truth_round_ok:
  assumes "mock_repr n cs" "cfg_ok (mn_cfg n)" "rand_ok rand" "fresh_advance rand n"
  shows "\<exists>b n' cs'. truth_round rand n = Some (b, n') \<and> mock_repr n' cs' \<and> mn_cfg n' = mn_cfg n"
proof -
  obtain n1 cs1 where 1: "advance rand n = Some n1" "mock_repr n1 cs1" "mn_cfg n1 = mn_cfg n"
    using advance_repr [OF assms] by (auto simp: churned_def)
  have "\<exists>b n2 cs2. (case find_root rand n1 of
         Some a \<Rightarrow> Option.bind (confirm_set rand [a] n1) (\<lambda>node. if assert_invariant rand node then Some (True, node) else None)
       | None \<Rightarrow> Some (False, n1)) = Some (b, n2) \<and> mock_repr n2 cs2 \<and> mn_cfg n2 = mn_cfg n"
  proof (cases "find_root rand n1")
    case None
    then show ?thesis using 1 by auto
  next
    case (Some a)
    then obtain cs3 b c xs cs4 where "cs1 = cs3 @ (a # b # c # xs) # cs4" by (rule find_rootD [OF 1(2) assms(3)])
    then have "mock_repr n1 (cs3 @ (a # b # c # xs) # cs4)" using 1(2) by simp
    from confirm_root [OF this _ assms(3)] assms(2) 1(3) obtain n2 where
      n2: "confirm_set rand [a] n1 = Some n2" "mock_repr n2 (cs3 @ (b # c # xs) # cs4)" "mn_cfg n2 = mn_cfg n"
      by (auto simp: churned_def)
    then show ?thesis using Some assert_invariant_repr(1) [OF n2(2) assms(3)] by auto
  qed
  then obtain b n2 cs2 where 2: "(case find_root rand n1 of
         Some a \<Rightarrow> Option.bind (confirm_set rand [a] n1) (\<lambda>node. if assert_invariant rand node then Some (True, node) else None)
       | None \<Rightarrow> Some (False, n1)) = Some (b, n2)" "mock_repr n2 cs2" "mn_cfg n2 = mn_cfg n" by blast
  have cfg: "cfg_ok (mn_cfg n2)" using 2(3) assms(2) by simp
  obtain n3 cs3 where 3: "mine_block rand n2 = Some n3" "mock_repr n3 cs3" "mn_cfg n3 = mn_cfg n2"
    using mine_block_repr [OF 2(2) cfg assms(3)] by (auto simp: churned_def)
  then show ?thesis using 1(1) 2(1,3) assert_invariant_repr(1) [OF 3(2) assms(3)] by (simp add: truth_round_def) blast
qed

lemma truth_rounds_ok:
  assumes "mock_repr n cs" "cfg_ok (mn_cfg n)" "rand_ok rand" "fresh_rounds rand k n"
  shows "\<exists>forced' n'. truth_rounds rand k forced n = Some (forced', n') \<and> assert_invariant rand n' \<and> forced \<le> forced'"
  using assms
proof (induction k arbitrary: n cs forced)
  case 0
  then show ?case using assert_invariant_repr(1) by auto
next
  case (Suc k)
  then have fresh: "fresh_advance rand n" by simp
  from truth_round_ok [OF Suc.prems(1-3) fresh] obtain b n1 cs1 where
    1: "truth_round rand n = Some (b, n1)" "mock_repr n1 cs1" "mn_cfg n1 = mn_cfg n" by blast
  from Suc.IH [OF 1(2), of "if b then forced + 1 else forced"] Suc.prems(2-4) 1(1,3) show ?case by (auto split: if_splits)
qed

lemma truth_test_passes:
  assumes "drawn rand seed 400 truth_cfg"
    and "\<And>n. mock_node_new rand seed 400 truth_cfg = Some n \<Longrightarrow> fresh_rounds rand 15 n"
    and "\<And>n n'. mock_node_new rand seed 400 truth_cfg = Some n \<Longrightarrow> advance rand n = Some n' \<Longrightarrow> find_root rand n' \<noteq> None"
  shows "aggregates_stay_truthful_across_churn_and_mine_cycles rand seed"
proof -
  obtain n cs where n: "mock_node_new rand seed 400 truth_cfg = Some n" "mock_repr n cs" "mn_cfg n = truth_cfg"
    using assms(1) by (rule drawnE)
  have cfg: "cfg_ok (mn_cfg n)" and rand: "rand_ok rand" using assms(1) n(3) by (simp_all add: drawn_def)
  have fresh: "fresh_advance rand n" using assms(2) [OF n(1)] by (simp add: numeral_eq_Suc)
  from truth_round_ok [OF n(2) cfg rand fresh] obtain b n1 cs1 where
    1: "truth_round rand n = Some (b, n1)" "mock_repr n1 cs1" "mn_cfg n1 = mn_cfg n" by blast
  have "b" using 1(1) assms(3) [OF n(1)] by (auto simp: truth_round_def split: Option.bind_splits option.splits if_splits)
  moreover have "fresh_rounds rand 14 n1" using assms(2) [OF n(1)] 1(1) by (simp add: numeral_eq_Suc)
  then obtain forced n' where "truth_rounds rand 14 1 n1 = Some (forced, n')" "assert_invariant rand n'" "1 \<le> forced"
    using truth_rounds_ok [OF 1(2) _ rand, of 14 1] cfg 1(3) by auto
  ultimately have "truth_rounds rand (Suc 14) 0 n = Some (forced, n')" using 1(1) by (simp only: truth_rounds.simps) simp
  moreover have "(15 :: nat) = Suc 14" by simp
  ultimately have "truth_rounds rand 15 0 n = Some (forced, n')" by (simp only:)
  then show ?thesis using n(1) \<open>assert_invariant rand n'\<close> \<open>1 \<le> forced\<close>
    by (simp add: aggregates_stay_truthful_across_churn_and_mine_cycles_def on_node_def)
qed

subsection \<open>Seeds and fee rates\<close>

definition skewed_constructor_sanitizes_bad_exponents :: bool where
  "skewed_constructor_sanitizes_bad_exponents \<longleftrightarrow>
     fd_skew (fd_skewed 1 500 (Finite (- 2))) = 1 \<and> fd_skew (fd_skewed 1 500 (Finite 0)) = 1 \<and>
     fd_skew (fd_skewed 1 500 NaN) = 1 \<and> fd_skew (fd_skewed 1 500 PosInf) = 1 \<and>
     fd_skew (fd_skewed 1 500 (Finite 3)) = 3"

fun samples_are :: "'r rand \<Rightarrow> u64 \<Rightarrow> nat \<Rightarrow> 'r mock_node \<Rightarrow> bool" where
  "samples_are rand x 0 node \<longleftrightarrow> True"
| "samples_are rand x (Suc k) node \<longleftrightarrow> (let (y, node) = sample_fee_rate rand node in y = x \<and> samples_are rand x k node)"

definition sample_fee_rate_handles_min_equals_max :: "'r rand \<Rightarrow> 'r \<Rightarrow> bool" where
  "sample_fee_rate_handles_min_equals_max rand seed =
     on_node (mock_node_new rand seed 1 (churn_of 0 0 (fd_uniform 5 5) 0 1)) (samples_are rand 5 100)"

text \<open>Two nodes of one seed, whose maps are iterated in different orders.\<close>

definition same_seed_produces_identical_mempool :: "'r rand \<Rightarrow> (txid list \<Rightarrow> txid list) \<Rightarrow> 'r \<Rightarrow> bool" where
  "same_seed_produces_identical_mempool rand other_order seed = on_node (mock_node_new rand seed 1000 flat_test_cfg) (\<lambda>a.
     on_node (mock_node_new (rand\<lparr>hash_order := other_order\<rparr>) seed 1000 flat_test_cfg) (\<lambda>b.
       case (mock_raw_mempool_txids rand a, mock_raw_mempool_txids (rand\<lparr>hash_order := other_order\<rparr>) b) of
         (Inr ta, Inr tb) \<Rightarrow> length ta = 1000 \<and> set ta = set tb
       | _ \<Rightarrow> False))"

lemma constructor_test_passes: skewed_constructor_sanitizes_bad_exponents
  by (simp add: skewed_constructor_sanitizes_bad_exponents_def fd_skewed_def)

lemma flat_fee_test_passes: "sample_fee_rate_handles_min_equals_max rand seed"
proof -
  let ?cfg = "churn_of 0 0 (fd_uniform 5 5) 0 1"
  have "samples_are rand 5 k node" if "mn_cfg node = ?cfg" for k node
    using that by (induction k) (simp_all add: sample_fee_rate_def churn_of_def fd_uniform_def)
  moreover have "mock_node_new rand seed 1 ?cfg = Some (insert_standalone rand (mock_empty seed ?cfg))"
    by (simp add: mock_node_new_def add_arrival_def attach_drawn_def mock_empty_def churn_of_def)
  moreover have "mn_cfg (insert_standalone rand (mock_empty seed ?cfg)) = ?cfg"
    by (simp add: insert_standalone_def sample_fee_rate_def gen_standalone_entry_def mock_empty_def churn_of_def fd_uniform_def split_def Let_def)
  ultimately show ?thesis by (simp add: sample_fee_rate_handles_min_equals_max_def on_node_def)
qed

lemma fee_range_test_passes:
  assumes "drawn rand seed 500 flat_test_cfg"
  shows "fees_within_configured_range rand seed"
proof -
  have rand: "rand_ok rand" using assms by (simp add: drawn_def)
  obtain n cs where n: "mock_node_new rand seed 500 flat_test_cfg = Some n" "mock_repr n cs" "mn_cfg n = flat_test_cfg"
    using assms by (rule drawnE)
  have "1 \<le> unat (own_rate_sat_vb e)" "unat (own_rate_sat_vb e) \<le> 500" if "al_get (mn_txs n) t = Some e" for t e
    using entry_own_rate [OF mock_reprD(8) [OF n(2) that]] n(3)
    by (simp_all add: rate_allowed_def flat_test_cfg_def churn_of_def fd_uniform_def)
  then show ?thesis
    unfolding fees_within_configured_range_def n(1) on_node_def list_all_iff
    using repr_snapshot [OF n(2) rand] by (fastforce simp: own_rate_sat_vb_def word_le_nat_alt)
qed

lemma seed_test_passes:
  assumes "drawn rand seed 1000 flat_test_cfg" "\<And>ks. mset (other_order ks) = mset ks"
  shows "same_seed_produces_identical_mempool rand other_order seed"
proof -
  let ?other = "rand\<lparr>hash_order := other_order\<rparr>"
  have rand: "rand_ok rand" using assms(1) by (simp add: drawn_def)
  then have other: "rand_ok ?other" using assms(2) unfolding rand_ok_def by simp
  have flat: "add_arrival r m = Some (insert_standalone r m)" "cc_cpfp_fraction (mn_cfg (insert_standalone r m)) = 0"
    if "cc_cpfp_fraction (mn_cfg m) = 0" for r :: "'a rand" and m
    using that by (simp_all add: add_arrival_def attach_drawn_def insert_standalone_def sample_fee_rate_def gen_standalone_entry_def split_def Let_def)
  have same: "add_arrivals ?other k m = add_arrivals rand k m" if "cc_cpfp_fraction (mn_cfg m) = 0" for k m
    using that
  proof (induction k arbitrary: m)
    case (Suc k)
    have "insert_standalone ?other m = insert_standalone rand m"
      by (simp add: insert_standalone_def sample_fee_rate_def gen_standalone_entry_def split_def Let_def)
    with Suc flat show ?case by simp
  qed simp
  obtain n cs where n: "mock_node_new rand seed 1000 flat_test_cfg = Some n" "mock_repr n cs" "length (concat cs) = 1000"
    using assms(1) by (rule drawnE)
  have "mock_node_new ?other seed 1000 flat_test_cfg = Some n"
    using n(1) same by (simp add: mock_node_new_def flat_test_cfg_def churn_of_def)
  moreover have "length (mock_keys rand n) = 1000"
    using rand_okD(3) [OF rand, of "al_keys (mn_txs n)"] mock_repr_length [OF n(2)] n(3)
    by (metis al_keys_def length_map mock_keys_def size_mset)
  ultimately show ?thesis using n(1) set_mock_keys [OF rand] set_mock_keys [OF other]
    by (simp add: same_seed_produces_identical_mempool_def on_node_def mock_raw_mempool_txids_def)
qed

section \<open>The simulated network\<close>

text \<open>The tests of \<open>sim/network.rs\<close>, over any clock whose readings during the test lie within one second.\<close>

definition net_test_node :: "'r rand \<Rightarrow> 'r \<Rightarrow> 'r mock_node option" where
  "net_test_node rand seed = mock_node_new rand seed 100 (churn_of 0 0 (fd_uniform 1 10) 0 1)"

definition test_profile :: "u32 option \<Rightarrow> usize option \<Rightarrow> network_profile" where
  "test_profile req_per_sec body_cap =
     \<lparr>np_latency = 0, np_req_per_sec = req_per_sec, np_body_cap = body_cap, np_drop_rate = 0\<rparr>"

definition is_ok :: "'e + 'a \<Rightarrow> bool" where
  "is_ok r = (case r of Inr _ \<Rightarrow> True | Inl _ \<Rightarrow> False)"

definition rate_limit_surfaces_429_after_budget :: "'r rand \<Rightarrow> 'r \<Rightarrow> ('q \<Rightarrow> f64 \<times> 'q) \<Rightarrow> 'q \<Rightarrow> 'w env \<Rightarrow> 'w \<Rightarrow> bool" where
  "rate_limit_surfaces_429_after_budget rand seed draw net_seed env w = on_node (net_test_node rand seed) (\<lambda>node.
     let inner = mock_env rand node env;
         tip_height = rpc_tip_height (sim_env draw (test_profile (Some 2) None) inner);
         s = net_shared_new inner net_seed w;
         (first, s) = tip_height s;
         (second, s) = tip_height s;
         (third, s) = tip_height s
     in is_ok first \<and> is_ok second \<and> (case third of Inl (HttpStatus status _) \<Rightarrow> status = 429 | _ \<Rightarrow> False))"

definition body_cap_rejects_large_verbose :: "'r rand \<Rightarrow> 'r \<Rightarrow> ('q \<Rightarrow> f64 \<times> 'q) \<Rightarrow> 'q \<Rightarrow> 'w env \<Rightarrow> 'w \<Rightarrow> bool" where
  "body_cap_rejects_large_verbose rand seed draw net_seed env w = on_node (net_test_node rand seed) (\<lambda>node.
     let inner = mock_env rand node env in
     case fst (rpc_raw_mempool_verbose (sim_env draw (test_profile None (Some 10)) inner) (net_shared_new inner net_seed w)) of
       Inl (BodyTooLarge _) \<Rightarrow> True | _ \<Rightarrow> False)"

definition unlimited_profile_passes_through :: "'r rand \<Rightarrow> 'r \<Rightarrow> ('q \<Rightarrow> f64 \<times> 'q) \<Rightarrow> 'q \<Rightarrow> 'w env \<Rightarrow> 'w \<Rightarrow> bool" where
  "unlimited_profile_passes_through rand seed draw net_seed env w = on_node (net_test_node rand seed) (\<lambda>node.
     let inner = mock_env rand node env in
     case fst (rpc_raw_mempool_txids (sim_env draw local_node inner) (net_shared_new inner net_seed w)) of
       Inr txids \<Rightarrow> length txids = 100 | Inl _ \<Rightarrow> False)"

lemma net_test_nodeE:
  assumes "drawn rand seed 100 (churn_of 0 0 (fd_uniform 1 10) 0 1)"
  obtains n where "net_test_node rand seed = Some n" "length (mock_keys rand n) = 100" "length (snapshot_entries rand n) = 100"
proof -
  have rand: "rand_ok rand" using assms by (simp add: drawn_def)
  obtain n cs where n: "net_test_node rand seed = Some n" "mock_repr n cs" "length (concat cs) = 100"
    using assms unfolding net_test_node_def by (rule drawnE)
  note ok = mock_reprD(1) [OF n(2)]
  have "length (mock_keys rand n) = 100"
    using rand_okD(3) [OF rand, of "al_keys (mn_txs n)"] mock_repr_length [OF n(2)] n(3)
    by (metis al_keys_def length_map mock_keys_def size_mset)
  moreover have "distinct (map fst (snapshot_entries rand n))" "set (map fst (snapshot_entries rand n)) = set (mock_keys rand n)"
    using mock_snapshot [OF rand ok] set_mock_keys [OF rand, of n] dom_map_of_conv_image_fst [of "snapshot_entries rand n"]
    by (simp_all add: entry_by_txid_def [abs_def])
  then have "length (map fst (snapshot_entries rand n)) = length (mock_keys rand n)"
    using mock_keys_distinct [OF rand ok] by (metis distinct_card)
  ultimately show thesis using that n(1) by simp
qed

lemma rate_limit_test_passes:
  assumes "drawn rand seed 100 (churn_of 0 0 (fd_uniform 1 10) 0 1)"
    and clock: "\<And>w w'. fst (instant_now env w) < fst (instant_now env w') + seconds 1"
  shows "rate_limit_surfaces_429_after_budget rand seed draw net_seed env w"
proof -
  obtain n where n: "net_test_node rand seed = Some n" using assms(1) by (rule net_test_nodeE)
  obtain t0 w0 where 0: "instant_now env w = (t0, w0)" by (rule prod.exhaust)
  have tip: "gated draw (test_profile (Some 2) None) (mock_env rand n env) (Pair (mock_tip_height n)) (sh, v) =
      (if li_count (ns_limiter sh) < 2 then mock_tip_height n else Inl (HttpStatus 429 []),
       sh\<lparr>ns_limiter := (if li_count (ns_limiter sh) < 2 then (ns_limiter sh)\<lparr>li_count := li_count (ns_limiter sh) + 1\<rparr> else ns_limiter sh)\<rparr>,
       snd (instant_now env v))"
    if "li_window_start (ns_limiter sh) = t0" for sh v
  proof -
    have "fst (instant_now env v) - t0 < seconds 1" using clock [of v w] 0 by (simp add: seconds_def)
    then show ?thesis using that
      by (auto simp: gated_def gate_def drops_def test_profile_def check_rate_limit_def delay_def mock_env_def split_def Let_def)
  qed
  show ?thesis
    unfolding rate_limit_surfaces_429_after_budget_def on_node_def n
    using 0 by (simp add: net_shared_new_def sim_env_def mock_env_def limiter_new_def Let_def is_ok_def
        mock_tip_height_def tip [unfolded mock_env_def mock_tip_height_def])
qed

lemma body_cap_test_passes:
  assumes "drawn rand seed 100 (churn_of 0 0 (fd_uniform 1 10) 0 1)"
  shows "body_cap_rejects_large_verbose rand seed draw net_seed env w"
proof -
  obtain n where n: "net_test_node rand seed = Some n" "length (snapshot_entries rand n) = 100" using assms by (rule net_test_nodeE)
  have "(10 :: nat) < usize_sat_mul 100 180" by code_simp
  then show ?thesis
    using n by (simp add: body_cap_rejects_large_verbose_def on_node_def sim_env_def cap_body_def gated_def gate_def drops_def
        test_profile_def delay_def mock_env_def mock_raw_mempool_verbose_def split_def Let_def)
qed

lemma unlimited_test_passes:
  assumes "drawn rand seed 100 (churn_of 0 0 (fd_uniform 1 10) 0 1)"
  shows "unlimited_profile_passes_through rand seed draw net_seed env w"
proof -
  obtain n where n: "net_test_node rand seed = Some n" "length (mock_keys rand n) = 100" using assms by (rule net_test_nodeE)
  then show ?thesis
    by (simp add: unlimited_profile_passes_through_def on_node_def sim_env_def gated_def gate_def drops_def
        local_node_def delay_def mock_env_def mock_raw_mempool_txids_def split_def Let_def)
qed

end
