(* ===== verification/Sim_Runs.thy ===== *)
theory Sim_Runs
  imports Sim_Track Node_Tests Process Sim_Http
begin

text \<open>
  The integration tests: runs of the sync loop against the simulated node through the local network profile
  (\<open>sync/sim_tests.rs\<close>), and calls of the real client to the simulation server (\<open>sim/server_tests.rs\<close>).  A test is a
  function of its \<open>rig\<close>: the generators and seeds of node and network, the clocks and the scheduler.  It
  is proved for every rig whose ids are fresh and whose clock lets the run take at most one second.
\<close>

subsection \<open>The local profile under the loop\<close>

lemma bulk_local:
  "run_state (bulk_resync (local_rpc draw rand n env)) s =
     (let g = (ss_state s)\<lparr>ms_txs := entries_map (snapshot_entries rand n),
            ms_min_fee := min_fee_sat_vb \<lparr>mi_loaded = Some (\<not> mn_reloading n), mi_mempoolminfee = mn_min_fee n\<rparr>,
            ms_tip_height := mn_tip_height n\<rparr>
      in (Some (length (snapshot_entries rand n)), s\<lparr>ss_state := g, ss_trace := ss_trace s @ [g]\<rparr>))"
  by (cases "ss_world s")
    (simp add: bulk_resync_def run_outside run_return write_state_def change_def put_state_def local_calls mock_env_def
      mock_mempool_info_def mock_raw_mempool_verbose_def mock_tip_height_def Let_def)

lemma snapshot_map:
  assumes n: "mock_repr n cs" and rand: "rand_ok rand"
  shows "al_ok (entries_map (snapshot_entries rand n))" "set (al_keys (entries_map (snapshot_entries rand n))) = dom (al_get (mn_txs n))"
proof -
  note snap = mock_snapshot [OF rand mock_reprD(1) [OF n]]
  show "al_ok (entries_map (snapshot_entries rand n))" by (rule entries_map_ok)
  show "set (al_keys (entries_map (snapshot_entries rand n))) = dom (al_get (mn_txs n))"
    using dom_map_of_conv_image_fst [of "snapshot_entries rand n"] snap(2)
    by (simp add: entries_map_keys entry_by_txid_def [abs_def])
qed

lemma load_local:
  assumes n: "mock_repr n cs" and rand: "rand_ok rand"
  obtains t where "initial_bulk_load (local_rpc draw rand n env) poll s = Some t" "in_step n t"
    "ms_last_sync_ok (ss_state t) \<noteq> None" "ss_last_fee_recompute t = ss_last_fee_recompute s"
proof -
  have "\<exists>t. initial_bulk_load (local_rpc draw rand n env) poll s = Some t \<and>
      ms_txs (ss_state t) = entries_map (snapshot_entries rand n) \<and> ms_caught_up (ss_state t) \<and> ms_last_sync_ok (ss_state t) \<noteq> None \<and>
      ss_last_fee_recompute t = ss_last_fee_recompute s"
    by (subst initial_bulk_load.simps)
      (simp add: bulk_local Let_def run_outside change_def apply_bulk_success_def write_state_def set_synced_locked_def put_state_def)
  then obtain t where t: "initial_bulk_load (local_rpc draw rand n env) poll s = Some t"
      "ms_txs (ss_state t) = entries_map (snapshot_entries rand n)" "ms_caught_up (ss_state t)" "ms_last_sync_ok (ss_state t) \<noteq> None" "ss_last_fee_recompute t = ss_last_fee_recompute s"
    by blast
  then have "in_step n t" using snapshot_map [OF n rand] by (simp add: in_step_def cached_def)
  with t(1,4,5) show thesis by (intro that)
qed

subsection \<open>Rigs\<close>

record ('r, 'q, 'w) rig =
  rg_rand :: "'r rand"
  rg_seed :: 'r
  rg_draw :: "'q \<Rightarrow> f64 \<times> 'q"
  rg_net_seed :: 'q
  rg_env :: "'w env"
  rg_world :: 'w

definition churn :: "nat \<Rightarrow> nat \<Rightarrow> churn_config" where
  "churn arrivals evictions = churn_of arrivals evictions (fd_uniform 1 500) 0 1"

definition run_cfg :: sync_config where
  "run_cfg = \<lparr>sc_poll_interval = from_millis 10, sc_fetch_concurrency = 5, sc_tick_budget = seconds 30,
     sc_fee_recompute_min_interval = from_millis 2000\<rparr>"

definition empty_state :: "'w \<Rightarrow> 'w sync_state" where
  "empty_state w = run_init w ''main''"

definition node_of :: "('r, 'q, 'w) rig \<Rightarrow> nat \<Rightarrow> churn_config \<Rightarrow> 'r mock_node option" where
  "node_of g k cfg = mock_node_new (rg_rand g) (rg_seed g) k cfg"

definition rpc_of :: "('r, 'q, 'w) rig \<Rightarrow> 'r mock_node \<Rightarrow> ('q net_shared \<times> 'w) env" where
  "rpc_of g node = local_rpc (rg_draw g) (rg_rand g) node (rg_env g)"

text \<open>
  \<open>prep\<close> sets the timers that a test reads before the load; the stamp that \<open>initial_bulk_load\<close> returns, which the
  model leaves in \<open>ss_last_bulk_resync\<close>, is thrown away by the tests.
\<close>

definition bulk_loaded :: "('r, 'q, 'w) rig \<Rightarrow> 'r mock_node \<Rightarrow> (('q net_shared \<times> 'w) sync_state \<Rightarrow> ('q net_shared \<times> 'w) sync_state)
     \<Rightarrow> ('q net_shared \<times> 'w) sync_state option" where
  "bulk_loaded g node prep =
     (let s = prep (empty_state (net_shared_new (rg_env g) (rg_net_seed g) (rg_world g))) in
      map_option (\<lambda>t. t\<lparr>ss_last_bulk_resync := ss_last_bulk_resync s\<rparr>) (initial_bulk_load (rpc_of g node) (from_millis 10) s))"

definition ticked :: "('r, 'q, 'w) rig \<Rightarrow> 'r mock_node \<Rightarrow> ('q net_shared \<times> 'w) sync_state \<Rightarrow> ('q net_shared \<times> 'w) sync_state" where
  "ticked g node s = snd (run_state (steady_tick (rpc_of g node) run_cfg) s)"

text \<open>\<open>Instant::now()\<close>, less \<open>d\<close>, for the two timers that a test hands to the tick.\<close>

definition bulk_timer :: "('r, 'q, 'w) rig \<Rightarrow> 'r mock_node \<Rightarrow> nat \<Rightarrow> ('q net_shared \<times> 'w) sync_state \<Rightarrow> ('q net_shared \<times> 'w) sync_state" where
  "bulk_timer g node d s = (case instant_now (rpc_of g node) (ss_world s) of
     (now, w) \<Rightarrow> s\<lparr>ss_world := w, ss_last_bulk_resync := now - d\<rparr>)"

definition fee_timer :: "('r, 'q, 'w) rig \<Rightarrow> 'r mock_node \<Rightarrow> nat \<Rightarrow> ('q net_shared \<times> 'w) sync_state \<Rightarrow> ('q net_shared \<times> 'w) sync_state" where
  "fee_timer g node d s = (case instant_now (rpc_of g node) (ss_world s) of
     (now, w) \<Rightarrow> s\<lparr>ss_world := w, ss_last_fee_recompute := now - d\<rparr>)"

text \<open>The clock of a rig spans one run, of at most a second.\<close>

definition brief_clock :: "'w env \<Rightarrow> bool" where
  "brief_clock env \<longleftrightarrow> (\<forall>w w'. fst (instant_now env w) - fst (instant_now env w') \<le> seconds 1)"

definition rig_ok :: "('r, 'q, 'w) rig \<Rightarrow> bool" where
  "rig_ok g \<longleftrightarrow> rand_ok (rg_rand g) \<and> fair_order (rg_env g) \<and> brief_clock (rg_env g) \<and>
     (\<forall>w. seconds 61 \<le> fst (instant_now (rg_env g) w))"

lemma timers_sel [simp]:
  "ss_state (bulk_timer g node d s) = ss_state s" "ss_state (fee_timer g node d s) = ss_state s"
  "ss_last_bulk_resync (fee_timer g node d s) = ss_last_bulk_resync s"
  "ss_last_fee_recompute (bulk_timer g node d s) = ss_last_fee_recompute s"
  by (simp_all add: bulk_timer_def fee_timer_def split_def)

lemma in_step_timers [simp]:
  "in_step n (bulk_timer g node d s) = in_step n s" "in_step n (fee_timer g node d s) = in_step n s"
  by (simp_all add: in_step_def cached_def)

lemma churn_ok [simp]: "cfg_ok (churn a e)"
  by (simp add: churn_def churn_of_ok)

lemma node_ofE:
  assumes "rig_ok g" "fresh_arrivals (rg_rand g) k (mock_empty (rg_seed g) (churn a e))"
  obtains n cs where "node_of g k (churn a e) = Some n" "mock_repr n cs" "mn_cfg n = churn a e" "length (mn_txs n) = k"
proof -
  have "drawn (rg_rand g) (rg_seed g) k (churn a e)" using assms by (simp add: drawn_def rig_ok_def)
  then obtain n cs where n: "node_of g k (churn a e) = Some n" "mock_repr n cs" "mn_cfg n = churn a e" "length (concat cs) = k"
    unfolding node_of_def by (rule drawnE)
  with mock_repr_length [OF n(2)] show thesis by (intro that) simp_all
qed

lemma loadE:
  assumes "rig_ok g" "mock_repr n cs"
  obtains s where "bulk_loaded g n prep = Some s" "in_step n s" "ms_last_sync_ok (ss_state s) \<noteq> None"
    "ss_last_fee_recompute s = ss_last_fee_recompute (prep (empty_state (net_shared_new (rg_env g) (rg_net_seed g) (rg_world g))))"
proof -
  have rand: "rand_ok (rg_rand g)" using assms(1) by (simp add: rig_ok_def)
  let ?s = "prep (empty_state (net_shared_new (rg_env g) (rg_net_seed g) (rg_world g)))"
  obtain t where "initial_bulk_load (local_rpc (rg_draw g) (rg_rand g) n (rg_env g)) (from_millis 10) ?s = Some t" "in_step n t"
    "ms_last_sync_ok (ss_state t) \<noteq> None" "ss_last_fee_recompute t = ss_last_fee_recompute ?s"
    by (rule load_local [OF assms(2) rand])
  then show thesis
    by (intro that [of "t\<lparr>ss_last_bulk_resync := ss_last_bulk_resync ?s\<rparr>"])
      (simp_all add: bulk_loaded_def rpc_of_def in_step_def cached_def)
qed

subsection \<open>Load and churn\<close>

definition cold_bulk_load_builds_full_mempool :: "('r, 'q, 'w) rig \<Rightarrow> bool" where
  "cold_bulk_load_builds_full_mempool g = on_node (node_of g 5000 (churn 0 0)) (\<lambda>node.
     on_node (bulk_loaded g node id) (\<lambda>s.
       length (ms_txs (ss_state s)) = 5000 \<and> ms_caught_up (ss_state s) \<and> ms_last_sync_ok (ss_state s) \<noteq> None))"

fun churn_rounds :: "('r, 'q, 'w) rig \<Rightarrow> nat \<Rightarrow> 'r mock_node \<Rightarrow> ('q net_shared \<times> 'w) sync_state \<Rightarrow> bool" where
  "churn_rounds g 0 node s \<longleftrightarrow> True"
| "churn_rounds g (Suc k) node s \<longleftrightarrow> on_node (advance (rg_rand g) node) (\<lambda>node.
     let s = ticked g node (fee_timer g node 0 s) in
     ms_caught_up (ss_state s) \<and> length (ms_txs (ss_state s)) = node_len node \<and> churn_rounds g k node s)"

definition steady_churn_local_stays_caught_up :: "('r, 'q, 'w) rig \<Rightarrow> bool" where
  "steady_churn_local_stays_caught_up g = on_node (node_of g 2000 (churn 30 30)) (\<lambda>node.
     on_node (bulk_loaded g node (bulk_timer g node 0)) (churn_rounds g 5 node))"

definition mass_drop_via_bulk_load_shrinks_cache :: "('r, 'q, 'w) rig \<Rightarrow> bool" where
  "mass_drop_via_bulk_load_shrinks_cache g = on_node (node_of g 10000 (churn 0 0)) (\<lambda>node.
     on_node (mass_drop (rg_rand g) (f64_round (9 / 10)) node) (\<lambda>node.
     on_node (bulk_loaded g node id) (\<lambda>s. length (ms_txs (ss_state s)) = 1000)))"

lemma run_clock: "fst (instant_now (rpc_of g n) w) = fst (instant_now (rg_env g) (snd w))"
  by (simp add: rpc_of_def local_calls mock_env_def split_def Let_def)

lemma run_budget:
  assumes "rig_ok g"
  shows "in_budget (rpc_of g n) (sc_tick_budget run_cfg)"
proof -
  have "fst (instant_now (rpc_of g n) w) - fst (instant_now (rpc_of g n) w') \<le> sc_tick_budget run_cfg" for w w'
  proof -
    have "fst (instant_now (rpc_of g n) w) - fst (instant_now (rpc_of g n) w') \<le> seconds 1"
      using assms unfolding run_clock rig_ok_def brief_clock_def by blast
    then show ?thesis by (rule order_trans) (simp add: run_cfg_def seconds_def)
  qed
  then show ?thesis unfolding in_budget_def by (auto simp: case_prod_beta dest!: pass_clock_reading)
qed

lemma ticked_in_step:
  assumes "rig_ok g" "mock_repr n cs" "\<not> mn_reloading n" "length (mn_txs n) \<le> usize_max" "al_ok (ms_txs (ss_state s))"
    and "\<not> is_mass_drop (length (ms_txs (ss_state s))) (length (mn_txs n))" "card (dom (al_get (mn_txs n)) - cached s) \<le> 2000"
  shows "in_step n (ticked g n s)"
  using steady_in_step [OF assms(2) _ assms(3,4) _ run_budget [OF assms(1), unfolded rpc_of_def] assms(5-7)] assms(1)
  by (simp add: ticked_def rpc_of_def rig_ok_def)

lemma cold_load_test_passes:
  assumes "rig_ok g" "fresh_arrivals (rg_rand g) 5000 (mock_empty (rg_seed g) (churn 0 0))"
  shows "cold_bulk_load_builds_full_mempool g"
proof -
  obtain n cs where n: "node_of g 5000 (churn 0 0) = Some n" "mock_repr n cs" "length (mn_txs n) = 5000"
    by (rule node_ofE [OF assms])
  obtain s where s: "bulk_loaded g n id = Some s" "in_step n s" "ms_last_sync_ok (ss_state s) \<noteq> None"
    by (rule loadE [OF assms(1) n(2)])
  then show ?thesis using n in_step_length [OF n(2) s(2)]
    by (simp add: cold_bulk_load_builds_full_mempool_def on_node_def in_step_def)
qed

lemma churn_rounds_pass:
  assumes "rig_ok g" "mock_repr n cs" "mn_cfg n = churn 30 30" "fresh_ticks (rg_rand g) k n" "in_step n s"
    and "length (mn_txs n) + 30 * k \<le> usize_max"
  shows "churn_rounds g k n s"
  using assms(2-)
proof (induction k arbitrary: n cs s)
  case (Suc k)
  have cfg: "cc_evictions_per_tick (mn_cfg n) = 30" "cc_arrivals_per_tick (mn_cfg n) = 30" "cfg_ok (mn_cfg n)"
    using Suc.prems(2) by (simp_all add: churn_def churn_of_def) (simp add: churn_of_ok flip: churn_of_def churn_def)
  obtain n' cs' where n': "advance (rg_rand g) n = Some n'" "mock_repr n' cs'" "\<not> mn_reloading n'" "mn_cfg n' = mn_cfg n"
    "length (mn_txs n') \<le> length (mn_txs n) + cc_arrivals_per_tick (mn_cfg n)"
    "\<not> is_mass_drop (length (ms_txs (ss_state s))) (length (mn_txs n'))" "card (dom (al_get (mn_txs n')) - cached s) \<le> 2000"
    by (rule advance_near [OF Suc.prems(1) cfg(3), of "rg_rand g" s])
      (use Suc.prems(3,4,5) assms(1) cfg(1,2) in \<open>simp_all add: rig_ok_def\<close>)
  have now: "in_step n' (ticked g n' (fee_timer g n' 0 s))"
    using n' Suc.prems(4,5) cfg(2) by (intro ticked_in_step [OF assms(1)]) (simp_all add: in_step_def cached_def)
  have "churn_rounds g k n' (ticked g n' (fee_timer g n' 0 s))"
    using Suc.IH [OF n'(2) _ _ now] Suc.prems(2,3,5) n'(1,4,5) cfg(2) by simp
  then show ?case using now in_step_length [OF n'(2) now] n'(1)
    by (simp add: on_node_def Let_def node_len_def in_step_def)
qed simp

lemma steady_churn_test_passes:
  assumes "rig_ok g" "fresh_arrivals (rg_rand g) 2000 (mock_empty (rg_seed g) (churn 30 30))"
    and "\<And>n. node_of g 2000 (churn 30 30) = Some n \<Longrightarrow> fresh_ticks (rg_rand g) 5 n"
  shows "steady_churn_local_stays_caught_up g"
proof -
  obtain n cs where n: "node_of g 2000 (churn 30 30) = Some n" "mock_repr n cs" "mn_cfg n = churn 30 30" "length (mn_txs n) = 2000"
    by (rule node_ofE [OF assms(1,2)])
  obtain s where s: "bulk_loaded g n (bulk_timer g n 0) = Some s" "in_step n s" by (rule loadE [OF assms(1) n(2)])
  have "churn_rounds g 5 n s"
    using s(2) n(4) by (intro churn_rounds_pass [OF assms(1) n(2,3) assms(3) [OF n(1)]]) (simp_all add: usize_max_def)
  then show ?thesis using n(1) s(1) by (simp add: steady_churn_local_stays_caught_up_def on_node_def)
qed

lemma drop_load_test_passes:
  assumes "rig_ok g" "fresh_arrivals (rg_rand g) 10000 (mock_empty (rg_seed g) (churn 0 0))"
  shows "mass_drop_via_bulk_load_shrinks_cache g"
proof -
  have rand: "rand_ok (rg_rand g)" using assms(1) by (simp add: rig_ok_def)
  obtain n cs where n: "node_of g 10000 (churn 0 0) = Some n" "mock_repr n cs" "length (mn_txs n) = 10000"
    by (rule node_ofE [OF assms])
  have "f64_as_nat usize_max (f64_mul (f64_round 10000) (f64_round (9 / 10))) = 9000" by code_simp
  with mass_drop_repr [OF n(2) rand, of "f64_round (9 / 10)"] n(3) mock_repr_length [OF n(2)] obtain n' cs' where
    n': "mass_drop (rg_rand g) (f64_round (9 / 10)) n = Some n'" "mock_repr n' cs'" "length (concat cs') = 1000" by auto
  obtain s where s: "bulk_loaded g n' id = Some s" "in_step n' s" by (rule loadE [OF assms(1) n'(2)])
  then show ?thesis using n(1) n' in_step_length [OF n'(2) s(2)] mock_repr_length [OF n'(2)]
    by (simp add: mass_drop_via_bulk_load_shrinks_cache_def on_node_def)
qed

subsection \<open>Mass drops in the steady loop\<close>

text \<open>The run of the two tests, with the bulk timer set back by \<open>d\<close>.\<close>

definition drop_run :: "('r, 'q, 'w) rig \<Rightarrow> nat \<Rightarrow> (mempool_state \<Rightarrow> bool) \<Rightarrow> bool" where
  "drop_run g d test = on_node (node_of g 5000 (churn 0 0)) (\<lambda>node.
     on_node (bulk_loaded g node id) (\<lambda>s. length (ms_txs (ss_state s)) = 5000 \<and> ms_caught_up (ss_state s) \<and>
     on_node (mass_drop (rg_rand g) (f64_round (9 / 10)) node) (\<lambda>node. node_len node = 500 \<and>
       test (ss_state (ticked g node (fee_timer g node 0 (bulk_timer g node d s)))))))"

definition steady_tick_detects_mass_drop_and_defers_under_cooldown :: "('r, 'q, 'w) rig \<Rightarrow> bool" where
  "steady_tick_detects_mass_drop_and_defers_under_cooldown g =
     drop_run g 0 (\<lambda>m. length (ms_txs m) = 5000 \<and> \<not> ms_caught_up m)"

definition steady_tick_mass_drop_resyncs_when_cooldown_expired :: "('r, 'q, 'w) rig \<Rightarrow> bool" where
  "steady_tick_mass_drop_resyncs_when_cooldown_expired g =
     drop_run g (seconds 61) (\<lambda>m. length (ms_txs m) = 500 \<and> ms_caught_up m)"

lemma steady_mass_drop:
  assumes "node_serves env info node answer" "is_mass_drop (length (ms_txs (ss_state s))) (card (set node))"
  obtains w w' where "snd (run_state (steady_tick env cfg) s) = snd (run_state (desync env cfg
     ((if resync_cooling_down (Some (ss_last_bulk_resync s)) (fst (instant_now env w')) then WaitCooldown else BulkResync)
       (if unwrap_or (mi_loaded info) True then ''mass_drop'' else ''node_not_loaded''))) (s\<lparr>ss_world := w\<rparr>))"
proof -
  let ?w1 = "snd (rpc_mempool_info env (ss_world s))"
  let ?w2 = "snd (rpc_raw_mempool_txids env ?w1)"
  show thesis
    by (rule that [of ?w2 "snd (instant_now env ?w2)"])
      (use assms in \<open>simp add: steady_tick_def Let_def run_outside look_def read_state_def node_serves_def
        decide_desync_def al_keys_def length_remdups_card_conv\<close>)
qed

lemma resync_in_step:
  assumes "mock_repr n cs" "rand_ok rand"
  shows "in_step n (snd (run_state (desync (local_rpc draw rand n env) cfg (BulkResync r)) s))"
proof -
  have "wp (desync (local_rpc draw rand n env) cfg (BulkResync r))
      (\<lambda>_ t. ms_txs (ss_state t) = entries_map (snapshot_entries rand n) \<and> ms_caught_up (ss_state t)) s"
    unfolding desync_def bulk_and_publish_def apply_bulk_success_def
    by (simp add: wp_simps) (auto simp: wp_def [of "bulk_resync _"] bulk_local Let_def wp_simps intro!: wp_recompute dest: same_viewD)
  then show ?thesis unfolding wp_run using snapshot_map [OF assms] by (simp add: in_step_def cached_def)
qed

text \<open>Any two readings of the clock of a rig are within one second, so the cooldown is decided by \<open>d\<close>.\<close>

lemma timer_cooling:
  assumes "rig_ok g" "s = fee_timer g node 0 (bulk_timer g node d s0)"
  shows "d = 0 \<Longrightarrow> resync_cooling_down (Some (ss_last_bulk_resync s)) (fst (instant_now (rpc_of g n) w))"
    and "d = seconds 61 \<Longrightarrow> \<not> resync_cooling_down (Some (ss_last_bulk_resync s)) (fst (instant_now (rpc_of g n) w))"
proof -
  define now before where "now = fst (instant_now (rg_env g) (snd w))" and "before = fst (instant_now (rg_env g) (snd (ss_world s0)))"
  have "now - before \<le> seconds 1" "before - now \<le> seconds 1" "seconds 61 \<le> now" "seconds 61 \<le> before"
    using assms(1) by (simp_all add: now_def before_def rig_ok_def brief_clock_def)
  moreover have "ss_last_bulk_resync s = before - d" unfolding assms(2) by (simp add: bulk_timer_def split_def run_clock before_def)
  ultimately show "d = 0 \<Longrightarrow> resync_cooling_down (Some (ss_last_bulk_resync s)) (fst (instant_now (rpc_of g n) w))"
    "d = seconds 61 \<Longrightarrow> \<not> resync_cooling_down (Some (ss_last_bulk_resync s)) (fst (instant_now (rpc_of g n) w))"
    unfolding run_clock now_def [symmetric] by (auto simp: resync_cooling_down_def RESYNC_COOLDOWN_def seconds_def)
qed

lemma drop_run_desyncs:
  assumes "rig_ok g" "fresh_arrivals (rg_rand g) 5000 (mock_empty (rg_seed g) (churn 0 0))"
  obtains n s n' cs' w w' r where "node_of g 5000 (churn 0 0) = Some n" "bulk_loaded g n id = Some s"
    "length (ms_txs (ss_state s)) = 5000" "ms_caught_up (ss_state s)"
    "mass_drop (rg_rand g) (f64_round (9 / 10)) n = Some n'" "mock_repr n' cs'" "length (mn_txs n') = 500"
    "ticked g n' (fee_timer g n' 0 (bulk_timer g n' d s)) = snd (run_state (desync (rpc_of g n') run_cfg
       ((if resync_cooling_down (Some (ss_last_bulk_resync (fee_timer g n' 0 (bulk_timer g n' d s)))) (fst (instant_now (rpc_of g n') w'))
         then WaitCooldown else BulkResync) r)) (fee_timer g n' 0 (bulk_timer g n' d s)\<lparr>ss_world := w\<rparr>))"
proof -
  have rand: "rand_ok (rg_rand g)" and fair: "fair_order (rg_env g)" using assms(1) by (simp_all add: rig_ok_def)
  obtain n cs where n: "node_of g 5000 (churn 0 0) = Some n" "mock_repr n cs" "length (mn_txs n) = 5000"
    by (rule node_ofE [OF assms])
  obtain s where s: "bulk_loaded g n id = Some s" "in_step n s" by (rule loadE [OF assms(1) n(2)])
  have len: "length (ms_txs (ss_state s)) = 5000" using in_step_length [OF n(2) s(2)] n(3) by simp
  have "f64_as_nat usize_max (f64_mul (f64_round 5000) (f64_round (9 / 10))) = 4500" by code_simp
  with mass_drop_repr [OF n(2) rand, of "f64_round (9 / 10)"] n(3) mock_repr_length [OF n(2)] obtain n' cs' where
    n': "mass_drop (rg_rand g) (f64_round (9 / 10)) n = Some n'" "mock_repr n' cs'" "length (concat cs') = 500" by auto
  let ?s = "fee_timer g n' 0 (bulk_timer g n' d s)"
  have "card (set (mock_keys (rg_rand g) n')) = 500"
    using n'(3) distinct_card [OF mock_reprD(3) [OF n'(2)]] mock_reprD(4) [OF n'(2)] set_mock_keys [OF rand, of n'] by simp
  then have "is_mass_drop (length (ms_txs (ss_state ?s))) (card (set (mock_keys (rg_rand g) n')))"
    using len by (simp add: is_mass_drop_def MASS_DROP_MIN_CACHE_SIZE_def MASS_DROP_INVERSE_def usize_sat_mul_def usize_max_def)
  from steady_mass_drop [OF local_serves [OF fair] this] obtain w w' r where
    "ticked g n' ?s = snd (run_state (desync (rpc_of g n') run_cfg
       ((if resync_cooling_down (Some (ss_last_bulk_resync ?s)) (fst (instant_now (rpc_of g n') w'))
         then WaitCooldown else BulkResync) r)) (?s\<lparr>ss_world := w\<rparr>))" unfolding ticked_def rpc_of_def by metis
  moreover have "length (mn_txs n') = 500" using n'(3) mock_repr_length [OF n'(2)] by simp
  ultimately show thesis using n(1) s len n'(1,2) by (intro that) (simp_all add: in_step_def)
qed

lemma cooldown_test_passes:
  assumes "rig_ok g" "fresh_arrivals (rg_rand g) 5000 (mock_empty (rg_seed g) (churn 0 0))"
  shows "steady_tick_detects_mass_drop_and_defers_under_cooldown g"
proof -
  obtain n s n' cs' w w' r where run: "node_of g 5000 (churn 0 0) = Some n" "bulk_loaded g n id = Some s"
    "length (ms_txs (ss_state s)) = 5000" "ms_caught_up (ss_state s)"
    "mass_drop (rg_rand g) (f64_round (9 / 10)) n = Some n'" "mock_repr n' cs'" "length (mn_txs n') = 500"
    "ticked g n' (fee_timer g n' 0 (bulk_timer g n' 0 s)) = snd (run_state (desync (rpc_of g n') run_cfg
       ((if resync_cooling_down (Some (ss_last_bulk_resync (fee_timer g n' 0 (bulk_timer g n' 0 s)))) (fst (instant_now (rpc_of g n') w'))
         then WaitCooldown else BulkResync) r)) (fee_timer g n' 0 (bulk_timer g n' 0 s)\<lparr>ss_world := w\<rparr>))"
    by (rule drop_run_desyncs [OF assms, of 0])
  have "ss_state (ticked g n' (fee_timer g n' 0 (bulk_timer g n' 0 s))) = (ss_state s)\<lparr>ms_caught_up := False\<rparr>"
    unfolding run(8) using timer_cooling(1) [OF assms(1) refl refl]
    by (simp add: desync_def set_synced_def write_state_def change_def Let_def)
  then show ?thesis using run(1-7)
    by (simp add: steady_tick_detects_mass_drop_and_defers_under_cooldown_def drop_run_def on_node_def node_len_def)
qed

lemma resync_test_passes:
  assumes "rig_ok g" "fresh_arrivals (rg_rand g) 5000 (mock_empty (rg_seed g) (churn 0 0))"
  shows "steady_tick_mass_drop_resyncs_when_cooldown_expired g"
proof -
  have rand: "rand_ok (rg_rand g)" using assms(1) by (simp add: rig_ok_def)
  obtain n s n' cs' w w' r where run: "node_of g 5000 (churn 0 0) = Some n" "bulk_loaded g n id = Some s"
    "length (ms_txs (ss_state s)) = 5000" "ms_caught_up (ss_state s)"
    "mass_drop (rg_rand g) (f64_round (9 / 10)) n = Some n'" "mock_repr n' cs'" "length (mn_txs n') = 500"
    "ticked g n' (fee_timer g n' 0 (bulk_timer g n' (seconds 61) s)) = snd (run_state (desync (rpc_of g n') run_cfg
       ((if resync_cooling_down (Some (ss_last_bulk_resync (fee_timer g n' 0 (bulk_timer g n' (seconds 61) s)))) (fst (instant_now (rpc_of g n') w'))
         then WaitCooldown else BulkResync) r)) (fee_timer g n' 0 (bulk_timer g n' (seconds 61) s)\<lparr>ss_world := w\<rparr>))"
    by (rule drop_run_desyncs [OF assms, of "seconds 61"])
  have "in_step n' (ticked g n' (fee_timer g n' 0 (bulk_timer g n' (seconds 61) s)))"
    unfolding run(8) using timer_cooling(2) [OF assms(1) refl refl] resync_in_step [OF run(6) rand] by (simp add: rpc_of_def)
  then show ?thesis using run(1-7) in_step_length [OF run(6)]
    by (simp add: steady_tick_mass_drop_resyncs_when_cooldown_expired_def drop_run_def on_node_def node_len_def in_step_def)
qed

subsection \<open>The fee estimate\<close>

text \<open>The comparisons of the test allow a slack of \<open>1e-9\<close>; here there is none.\<close>

definition fee_estimate_is_populated_and_monotone :: "('r, 'q, 'w) rig \<Rightarrow> bool" where
  "fee_estimate_is_populated_and_monotone g = on_node (node_of g 5000 (churn 50 40)) (\<lambda>node.
     on_node (bulk_loaded g node (\<lambda>s. fee_timer g node (seconds 10) (bulk_timer g node 0 s))) (\<lambda>s.
     on_node (advance (rg_rand g) node) (\<lambda>node.
       let m = ss_state (ticked g node s) in
       ms_caught_up m \<and>
       on_node (ms_fee_estimate m) (\<lambda>est.
         fe_relay_floor est \<le> fe_next_block est \<and> fe_within_3_blocks est \<le> fe_next_block est \<and>
         fe_within_6_blocks est \<le> fe_within_3_blocks est \<and> fe_horizon est \<le> fe_within_6_blocks est \<and>
         fe_relay_floor est \<le> fe_horizon est))))"

text \<open>A tick that ends caught up, with the recomputation due, leaves an estimate of its own cache.\<close>

definition fee_at :: "nat \<Rightarrow> 'w sync_state \<Rightarrow> bool" where
  "fee_at b s \<longleftrightarrow> ss_last_fee_recompute s = b"

lemma fee_at_writes:
  "worldless (fee_at b)" "keeps (fee_at b) (remove_gone gone)" "keeps (fee_at b) (finish_tick env fetched min_fee tip backlog n)"
  unfolding remove_gone_def finish_tick_def
  by (auto simp: fee_at_def worldless_def put_state_def intro!: keeps_intros keeps_outside keeps_write_state)

definition fresh_estimate :: "'w sync_state \<Rightarrow> bool" where
  "fresh_estimate s \<longleftrightarrow> (\<exists>est. ms_fee_estimate (ss_state s) = Some est \<and> estimated_from est (ss_state s))"

lemma recompute_due:
  assumes "ms_caught_up (ss_state s)" "length (ms_txs (ss_state s)) < 2 ^ 32" "fee_at b s"
    and "\<And>w. b + d \<le> fst (instant_now env w)"
  shows "wp (maybe_recompute_fees env d False) (\<lambda>_ t. fresh_estimate t) s"
proof -
  have "length (fee_snapshot (ms_txs (ss_state s))) < 2 ^ 32" using assms(2) by (simp add: snapshot_length)
  then have "\<exists>est. compute_estimate (fee_snapshot (ms_txs (ss_state s))) (ms_min_fee (ss_state s)) clock = Some (Inr est)" for clock
    using compute_estimate_result by blast
  then obtain est where p: "\<And>clock. compute_estimate (fee_snapshot (ms_txs (ss_state s))) (ms_min_fee (ss_state s)) clock = Some (Inr (est clock))"
    by metis
  have "\<not> fst (instant_now env (ss_world s)) - b < d" using assms(4) [of "ss_world s"] by simp
  then show ?thesis using assms(1,3) p
    by (auto simp: maybe_recompute_fees_def fee_throttled_def recompute_now_def wp_simps fresh_estimate_def estimated_from_def
        put_state_def fee_at_def)
qed

lemma apply_diff_estimates:
  assumes "fee_at b s" "\<And>w. b + sc_fee_recompute_min_interval cfg \<le> fst (instant_now env w)"
  shows "wp (apply_diff env cfg info ks node)
    (\<lambda>_ t. ms_caught_up (ss_state t) \<longrightarrow> length (ms_txs (ss_state t)) < 2 ^ 32 \<longrightarrow> fresh_estimate t) s"
proof -
  let ?Q = "\<lambda>_ t. ms_caught_up (ss_state t) \<longrightarrow> length (ms_txs (ss_state t)) < 2 ^ 32 \<longrightarrow> fresh_estimate t"
  have rest: "wp (finish_tick env fetched min_fee tip backlog n \<bind> (\<lambda>_. if \<not> backlog then
      maybe_recompute_fees env (sc_fee_recompute_min_interval cfg) False else return ())) ?Q s"
    if "fee_at b s" for fetched min_fee tip backlog n s
  proof -
    have "wp (finish_tick env fetched min_fee tip backlog n) (\<lambda>_ t. ms_caught_up (ss_state t) = (\<not> backlog) \<and> fee_at b t) s"
      using that by (intro wp_conj wp_finish_tick keeps_wp [THEN iffD1, OF fee_at_writes(3), rule_format])
    then show ?thesis unfolding wp_bind
    proof (rule wp_mono)
      fix a :: unit and t :: "'a sync_state" assume t: "ms_caught_up (ss_state t) = (\<not> backlog) \<and> fee_at b t"
      show "wp (if \<not> backlog then maybe_recompute_fees env (sc_fee_recompute_min_interval cfg) False else return ()) ?Q t"
      proof (cases "backlog \<or> \<not> length (ms_txs (ss_state t)) < 2 ^ 32")
        case True
        then show ?thesis using t by (auto simp: wp_simps intro!: wp_recompute dest: same_viewD)
      next
        case False
        then show ?thesis using wp_mono [OF recompute_due [OF _ _ _ assms(2), of t]] t by simp
      qed
    qed
  qed
  have step: "wp (m \<bind> f) ?Q s" if "keeps (fee_at b) m" "fee_at b s" "\<And>a t. fee_at b t \<Longrightarrow> wp (f a) ?Q t"
    for m :: "('a, 'b) sync" and f s
    unfolding wp_bind using keeps_wp [THEN iffD1, OF that(1), rule_format, OF that(2)] that(3) by (rule wp_mono)
  show ?thesis
    unfolding apply_diff_def Let_def
    by (intro step [OF fee_at_writes(2) assms(1)] step [OF keeps_fetch_new [OF fee_at_writes(1)]]
        step [OF keeps_outside [OF fee_at_writes(1)]] rest)
qed

lemma estimate_test_passes:
  assumes "rig_ok g" "fresh_arrivals (rg_rand g) 5000 (mock_empty (rg_seed g) (churn 50 40))"
    and "\<And>n. node_of g 5000 (churn 50 40) = Some n \<Longrightarrow> fresh_advance (rg_rand g) n"
  shows "fee_estimate_is_populated_and_monotone g"
proof -
  have rand: "rand_ok (rg_rand g)" and fair: "fair_order (rg_env g)" using assms(1) by (simp_all add: rig_ok_def)
  obtain n cs where n: "node_of g 5000 (churn 50 40) = Some n" "mock_repr n cs" "mn_cfg n = churn 50 40" "length (mn_txs n) = 5000"
    by (rule node_ofE [OF assms(1,2)])
  have cfg: "cc_evictions_per_tick (mn_cfg n) = 40" "cc_arrivals_per_tick (mn_cfg n) = 50" "cfg_ok (mn_cfg n)"
    unfolding n(3) by (simp_all add: churn_def churn_of_def) (simp add: churn_of_ok flip: churn_of_def churn_def)
  let ?start = "bulk_timer g n 0 (empty_state (net_shared_new (rg_env g) (rg_net_seed g) (rg_world g)))"
  obtain u where u: "bulk_loaded g n (\<lambda>s. fee_timer g n (seconds 10) (bulk_timer g n 0 s)) = Some u" "in_step n u"
    "ss_last_fee_recompute u = ss_last_fee_recompute (fee_timer g n (seconds 10) ?start)"
    by (rule loadE [OF assms(1) n(2)])
  obtain n' cs' where n': "advance (rg_rand g) n = Some n'" "mock_repr n' cs'" "\<not> mn_reloading n'" "mn_cfg n' = mn_cfg n"
    "length (mn_txs n') \<le> length (mn_txs n) + cc_arrivals_per_tick (mn_cfg n)"
    "\<not> is_mass_drop (length (ms_txs (ss_state u))) (length (mn_txs n'))" "card (dom (al_get (mn_txs n')) - cached u) \<le> 2000"
    by (rule advance_near [OF n(2) cfg(3) rand assms(3) [OF n(1)] u(2)]) (simp_all add: cfg n(4) usize_max_def)
  have now: "in_step n' (ticked g n' u)"
    using n' u(2) n(4) cfg(2) by (intro ticked_in_step [OF assms(1)]) (simp_all add: in_step_def cached_def usize_max_def)
  define before where "before = fst (instant_now (rg_env g) (snd (ss_world ?start)))"
  have due: "before - seconds 10 + sc_fee_recompute_min_interval run_cfg \<le> fst (instant_now (rpc_of g n') w)" for w
  proof -
    have "before - fst (instant_now (rg_env g) (snd w)) \<le> seconds 1" "seconds 61 \<le> before"
      using assms(1) by (simp_all add: before_def rig_ok_def brief_clock_def)
    then show ?thesis unfolding run_clock by (simp add: run_cfg_def from_millis_def seconds_def)
  qed
  have "fee_at (before - seconds 10) u" by (simp add: u(3) fee_at_def fee_timer_def split_def run_clock before_def)
  then have "fee_at (before - seconds 10) (u\<lparr>ss_world := w\<rparr>)" for w by (simp add: fee_at_def)
  note est = apply_diff_estimates [OF this due, unfolded wp_run]
  have "card (set (mock_keys (rg_rand g) n')) = length (mn_txs n')"
    using mock_repr_length [OF n'(2)] distinct_card [OF mock_reprD(3) [OF n'(2)]] mock_reprD(4) [OF n'(2)] set_mock_keys [OF rand, of n'] by simp
  with n'(6) have near: "\<not> is_mass_drop (length (ms_txs (ss_state u))) (card (set (mock_keys (rg_rand g) n')))" by simp
  have loaded: "unwrap_or (mi_loaded \<lparr>mi_loaded = Some (\<not> mn_reloading n'), mi_mempoolminfee = mn_min_fee n'\<rparr>) True"
    using n'(3) by (simp add: unwrap_or_def)
  have "fresh_estimate (ticked g n' u)"
  proof (rule steady_diff [OF local_serves [OF fair] loaded near, of "rg_draw g" run_cfg])
    fix w assume run: "snd (run_state (steady_tick (local_rpc (rg_draw g) (rg_rand g) n' (rg_env g)) run_cfg) u) =
      snd (run_state (apply_diff (local_rpc (rg_draw g) (rg_rand g) n' (rg_env g)) run_cfg
        \<lparr>mi_loaded = Some (\<not> mn_reloading n'), mi_mempoolminfee = mn_min_fee n'\<rparr> (al_keys (ms_txs (ss_state u)))
        (remdups (mock_keys (rg_rand g) n'))) (u\<lparr>ss_world := w\<rparr>))"
    have "length (ms_txs (ss_state (ticked g n' u))) < 2 ^ 32"
      using in_step_length [OF n'(2) now] n'(5) n(4) cfg(2) by simp
    then show ?thesis using now est unfolding ticked_def rpc_of_def run in_step_def by blast
  qed
  then obtain est where "ms_fee_estimate (ss_state (ticked g n' u)) = Some est" "estimated_from est (ss_state (ticked g n' u))"
    by (auto simp: fresh_estimate_def)
  with estimated_tiers [OF this(2)] now n(1) u(1) n'(1) show ?thesis
    by (auto simp: fee_estimate_is_populated_and_monotone_def on_node_def Let_def in_step_def intro: order_trans)
qed

subsection \<open>The real client and the simulation server\<close>

text \<open>\<open>stack n\<close> are the libraries between the real client and a server that was spawned on \<open>n\<close>, with the local profile.\<close>

definition server_test_cfg :: churn_config where "server_test_cfg = churn_of 0 0 (fd_uniform 1 50) 0 1"

definition real_client_bulk_loads_over_http ::
  "'r rand \<Rightarrow> 'r \<Rightarrow> ('r mock_node \<Rightarrow> ('w, 'c) libs) \<Rightarrow> 'w env \<Rightarrow> 'w \<times> 'c rpc \<Rightarrow> bool" where
  "real_client_bulk_loads_over_http rand seed stack env s = on_node (mock_node_new rand seed 500 server_test_cfg) (\<lambda>n.
     case fst (rpc_raw_mempool_verbose (rpc_env (stack n) env) s) of Inr entries \<Rightarrow> length entries = 500 | Inl _ \<Rightarrow> False)"

definition real_client_sees_loaded_false_after_reload ::
  "'r rand \<Rightarrow> 'r \<Rightarrow> ('r mock_node \<Rightarrow> ('w, 'c) libs) \<Rightarrow> 'w env \<Rightarrow> 'w \<times> 'c rpc \<Rightarrow> bool" where
  "real_client_sees_loaded_false_after_reload rand seed stack env s = on_node (mock_node_new rand seed 50 server_test_cfg) (\<lambda>n.
     case fst (rpc_mempool_info (rpc_env (stack (reload n)) env) s) of Inr info \<Rightarrow> mi_loaded info = Some False | Inl _ \<Rightarrow> False)"

definition real_client_receives_depends_over_http ::
  "'r rand \<Rightarrow> 'r \<Rightarrow> ('r mock_node \<Rightarrow> ('w, 'c) libs) \<Rightarrow> 'w env \<Rightarrow> 'w \<times> 'c rpc \<Rightarrow> bool" where
  "real_client_receives_depends_over_http rand seed stack env s = on_node (mock_node_new rand seed 50 cpfp_test_cfg) (\<lambda>n.
     case fst (rpc_raw_mempool_verbose (rpc_env (stack n) env) s) of
       Inr entries \<Rightarrow> list_ex (\<lambda>(t, e). me_depends e \<noteq> []) entries | Inl _ \<Rightarrow> False)"

text \<open>Two requests at \<open>t1\<close> and \<open>t2\<close> to a server that was spawned at \<open>t0\<close>; \<open>deliver\<close> is what the client gets of a response.\<close>

definition real_client_sees_429_from_throttled_server ::
  "'r rand \<Rightarrow> 'r \<Rightarrow> wire \<Rightarrow> (nat \<Rightarrow> 'r churn_state \<Rightarrow> 'r churn_state) \<Rightarrow> (response \<Rightarrow> http_response) \<Rightarrow> ('w, 'c) libs \<Rightarrow> 'c rpc
     \<Rightarrow> nat \<Rightarrow> nat \<Rightarrow> nat \<Rightarrow> bool" where
  "real_client_sees_429_from_throttled_server rand seed w wait deliver lb rpc t0 t1 t2 =
     on_node (mock_node_new rand seed 10 server_test_cfg) (\<lambda>n.
       let req = \<lparr>jq_method = ustr ''getblockchaininfo'', jq_params = []\<rparr>;
           (_, st) = handle_rpc rand w wait t1 req (spawn n (local_node\<lparr>np_req_per_sec := Some 1\<rparr>) t0);
           (r, _) = handle_rpc rand w wait t2 req st
       in case tip_height (call (\<lambda>c req. Inr (deliver r)) (lb_envelope lb) (lb_decode_chain lb) (lb_lossy lb) rpc) of
            Inl (HttpStatus status _) \<Rightarrow> status = 429 | _ \<Rightarrow> False)"

definition http_served :: "'r rand \<Rightarrow> ('r mock_node \<Rightarrow> ('w, 'c) libs) \<Rightarrow> 'r mock_node \<Rightarrow> bool" where
  "http_served rand stack n \<longleftrightarrow> (\<exists>w render. http_sim rand w n render (stack n) \<and> http_prompt rand w n render (stack n))"

lemma http_verbose_answers:
  assumes "http_served rand stack n"
  obtains es where "fst (rpc_raw_mempool_verbose (rpc_env (stack n) env) s) = Inr es" "distinct (map fst es)"
    "map_of es = (\<lambda>t. map_option timeless (entry_by_txid n t))"
proof -
  obtain w render where w: "http_sim rand w n render (stack n)" "http_prompt rand w n render (stack n)"
    using assms by (auto simp: http_served_def)
  obtain j where j: "dispatch rand w n (ustr ''getrawmempool'') [JBool True] = JsonBody j"
    "\<And>v rpc. call (lb_net (stack n) v) (lb_envelope (stack n)) (lb_decode_verbose (stack n)) (lb_lossy (stack n)) rpc ''getrawmempool''
       (JArray [JBool True]) MAX_BODY_VERBOSE = decoded (lb_decode_verbose (stack n)) (envelope_value j)"
    by (rule call_prompt [OF w, of "''getrawmempool''" "[JBool True]"]) (auto simp: client_request_def body_limit_def)
  show thesis
    using verbose_body [OF w(1) j(1)] j(2) that
    by (auto simp: rpc_env_def client_call_def raw_mempool_verbose_def case_prod_beta)
qed

lemma http_load_test_passes:
  assumes "drawn rand seed 500 server_test_cfg" "\<And>n. http_served rand stack n"
  shows "real_client_bulk_loads_over_http rand seed stack env s"
proof -
  obtain n cs where n: "mock_node_new rand seed 500 server_test_cfg = Some n" "mock_repr n cs" "length (concat cs) = 500"
    using assms(1) by (rule drawnE)
  obtain es where es: "fst (rpc_raw_mempool_verbose (rpc_env (stack n) env) s) = Inr es" "distinct (map fst es)"
    "map_of es = (\<lambda>t. map_option timeless (entry_by_txid n t))" by (rule http_verbose_answers [OF assms(2)])
  have "set (map fst es) = dom (map_of es)" by (simp add: dom_map_of_conv_image_fst)
  also have "\<dots> = set (concat cs)" using mock_reprD(4) [OF n(2)] by (auto simp: es(3) entry_by_txid_def dom_def)
  finally have "length es = 500"
    using distinct_card [OF es(2)] distinct_card [OF mock_reprD(3) [OF n(2)]] n(3) by simp
  then show ?thesis by (simp add: real_client_bulk_loads_over_http_def on_node_def n(1) es(1))
qed

lemma http_reload_test_passes:
  assumes "drawn rand seed 50 server_test_cfg" "\<And>n. http_served rand stack n" "fair_order env"
  shows "real_client_sees_loaded_false_after_reload rand seed stack env s"
proof -
  obtain n cs where n: "mock_node_new rand seed 50 server_test_cfg = Some n" using assms(1) by (rule drawnE)
  obtain w render where w: "http_sim rand w (reload n) render (stack (reload n))" "http_prompt rand w (reload n) render (stack (reload n))"
    using assms(2) [of "reload n"] by (auto simp: http_served_def)
  obtain info where "mi_loaded info = Some (\<not> mn_reloading (reload n))" "fst (rpc_mempool_info (rpc_env (stack (reload n)) env) s) = Inr info"
    by (rule http_serves [OF w assms(3)]) (simp add: node_serves_def del: split_paired_All)
  then show ?thesis by (simp add: real_client_sees_loaded_false_after_reload_def on_node_def n reload_def)
qed

lemma http_depends_test_passes:
  assumes "drawn rand seed 50 cpfp_test_cfg" "\<And>n. http_served rand stack n"
  shows "real_client_receives_depends_over_http rand seed stack env s"
proof -
  have rand: "rand_ok rand" "fresh_arrivals rand 50 (mock_empty seed cpfp_test_cfg)" using assms(1) by (simp_all add: drawn_def)
  obtain n cs ys where n: "mock_node_new rand seed 50 cpfp_test_cfg = Some n" "mock_repr n cs"
      "ys \<in> set cs" "length ys = cc_max_chain cpfp_test_cfg"
    by (rule new_packed [OF rand(1) cpfp_test_eager [OF rand(1)] test_cfgs_ok(2) rand(2)]) (simp_all add: cpfp_test_cfg_def churn_of_def)
  then have "length ys = 3" by (simp add: cpfp_test_cfg_def churn_of_def)
  then obtain a b c where ys: "ys = [a] @ b # [c]" by (auto simp: numeral_3_eq_3 length_Suc_conv)
  have "chain_ok (al_get (mn_txs n)) (al_get (mn_children n)) ([a] @ b # [c])" using mock_reprD(6) [OF n(2,3)] ys by simp
  then obtain eb where eb: "al_get (mn_txs n) b = Some eb" "me_depends eb = [a]" by (rule chain_okD) auto
  obtain es where es: "fst (rpc_raw_mempool_verbose (rpc_env (stack n) env) s) = Inr es"
    "map_of es = (\<lambda>t. map_option timeless (entry_by_txid n t))" by (rule http_verbose_answers [OF assms(2)])
  have "map_of es b = Some (timeless eb)" using eb(1) by (simp add: es(2) entry_by_txid_def)
  then have "(b, timeless eb) \<in> set es" by (rule map_of_SomeD)
  then have "list_ex (\<lambda>(t, e). me_depends e \<noteq> []) es" using eb(2) unfolding list_ex_iff by (force simp: timeless_def)
  then show ?thesis by (simp add: real_client_receives_depends_over_http_def on_node_def n(1) es(1))
qed

lemma http_429_test_passes:
  assumes "drawn rand seed 10 server_test_cfg" "\<And>r. carries render r (deliver r)" "isl (lb_envelope lb [])"
    and "t0 \<le> t1" "t1 \<le> t2" "t2 < t0 + seconds 1"
  shows "real_client_sees_429_from_throttled_server rand seed w wait deliver lb rpc t0 t1 t2"
proof -
  obtain n cs where n: "mock_node_new rand seed 10 server_test_cfg = Some n" using assms(1) by (rule drawnE)
  have window: "\<not> seconds 1 \<le> t1 - t0" "\<not> seconds 1 \<le> t2 - t0" using assms(4-6) by (simp_all add: seconds_def)
  have "is_success 429 = False" by (simp add: is_success_def)
  then have "tip_height (call (\<lambda>c req. Inr (deliver (EmptyStatus 429))) (lb_envelope lb) (lb_decode_chain lb) (lb_lossy lb) rpc) =
      Inl (HttpStatus 429 (truncate_str (lb_lossy lb []) MAX_ERR_BODY_LEN))"
    using classify_empty [of render 429 "deliver (EmptyStatus 429)" "lb_envelope lb" "lb_decode_chain lb" "lb_lossy lb"] assms(2,3)
    by (simp add: tip_height_def call_def)
  then show ?thesis
    using window by (simp add: real_client_sees_429_from_throttled_server_def on_node_def n handle_rpc_def spawn_def local_node_def
        limiter_new_def check_rate_limit_def Let_def)
qed

end
