(* ===== verification/Spec2Isabelle.thy ===== *)
theory Spec2Isabelle
  imports Gbt_Props Fees_Props Process Sim_Http Unit_Tests Node_Tests Sim_Runs
begin

text \<open>
  The mempool indexer satya-btc, under \<open>src/\<close>: a service that mirrors the mempool of a Bitcoin node over
  JSON-RPC, projects the next blocks from it as a miner would fill them, and serves fee estimates over
  HTTP.  With the feature \<open>simulation\<close> the same binary contains a simulated node.

  \<^bold>\<open>Parts and how they interact.\<close>
  The sync loop (\<open>sync/mod.rs\<close>, decisions in \<open>sync/decision.rs\<close>) asks the node through the trait
  \<open>MempoolRpc\<close> (\<open>rpc.rs\<close>), keeps the shared state (\<open>mempool.rs\<close>) behind a lock, and recomputes the fee estimate,
  for which \<open>fees.rs\<close> turns a snapshot into the inputs of the block projection \<open>gbt.rs\<close> and its effective rates into
  tiers.  The handlers of \<open>http.rs\<close> read the shared state.  \<open>zmq.rs\<close> wakes the loop when a block arrives;
  \<open>config.rs\<close> and \<open>main.rs\<close> set everything up.  Under \<open>sim/\<close>, \<open>MockNode\<close> is a churning mempool behind the same
  trait, \<open>SimulatedRpc\<close> a network in front of it, and the server offers it over HTTP to the real client.

  \<^bold>\<open>Theories and files.\<close>  Names of definitions are those of the source, except where they would clash.
  \<^item> Prelude: machine integers, saturating and checked arithmetic, transaction ids, loops, results.
    F64: finite doubles as the rationals they stand for, with rounding.
  \<^item> \<open>gbt.rs\<close>: Gbt\_Heap (rates, \<open>HeapItem\<close>, the queue), Gbt\_Ancestors (\<open>GbtTx\<close>, \<open>AuditTx\<close>, ancestor search),
    Gbt (scores, the packing loop, \<open>project_with\<close>); proofs in Gbt\_Invariants, Gbt\_Order, Gbt\_Correct and
    the theorems in Gbt\_Props.
  \<^item> \<open>fees.rs\<close>: Fees, theorems in Fees\_Props.  \<open>rpc.rs\<close>: Rpc, and Rpc\_Env for the trait over the real client.
  \<^item> \<open>mempool.rs\<close>: Mempool.  \<open>sync/decision.rs\<close>: Decision.  \<open>config.rs\<close>, \<open>http.rs\<close>, \<open>zmq.rs\<close> and the probe of
    \<open>main.rs\<close>: Service; the rest of the start-up of \<open>main.rs\<close>: Rpc\_Env; the entry point and
    the routes with the JSON they answer: Process.
  \<^item> \<open>sync/mod.rs\<close>: Sync (state transformers over \<open>sync_state\<close>), Sync\_Logic (weakest preconditions and the
    invariant), Sync\_Facts (one tick), Sync\_Abs (ticks under a map of worlds, locale \<open>env_map\<close>), theorems in Sync\_Props;
    Sync\_Lossy (a node that stands still behind a connection on which any call may fail).
  \<^item> \<open>sim/mock_node.rs\<close>: Sim\_Node (all operations), Sim\_Chain (the mempool as a list of chains), Sim\_Churn, Sim\_Mining,
    Sim\_Confirm and Sim\_Block (each operation on chains), theorems in Sim\_Props.
  \<^item> \<open>sim/network.rs\<close>: Sim\_Network, theorems in Sim\_Net\_Props.  \<open>sim/server.rs\<close>: Sim\_Server, theorems in
    Sim\_Serve\_Props.  Sim\_Track runs the indexer tick by tick behind the local profile; Sim\_Http puts everything
    together: sync loop, real client, HTTP, server, simulated node.
  \<^item> The tests: Unit\_Tests (pure modules, \<open>sim/server.rs\<close>), Node\_Tests (\<open>sim/mock_node.rs\<close>, \<open>sim/network.rs\<close>) and Sim\_Runs
    (the integration tests of \<open>sync/sim_tests.rs\<close> and \<open>sim/server_tests.rs\<close>).

  \<^bold>\<open>How state and effects are represented.\<close>
  Structs are records, enums are datatypes, \<open>u32\<close> and \<open>u64\<close> are words (\<open>+\<close> wraps, as in a release build), \<open>usize\<close> is a
  natural number with its bound written out, a \<open>HashMap\<close> is an association list with distinct keys behind the
  locale \<open>hash_map\<close>, a \<open>BinaryHeap\<close> a sorted list behind the locale \<open>max_queue\<close>.  Errors are values of
  sums, panics and endless loops are \<open>None\<close>.  The sync loop runs in a state monad over the shared state,
  the locals of \<open>run\<close> and a world outside, which the functions of \<open>env\<close> change: the node, the clocks and the order
  in which concurrent fetches complete are arguments of every theorem.  Libraries the code only calls
  (reqwest, serde\_json, rand, the conversions of the crate bitcoin) are arguments too, with what is
  assumed of them as named hypotheses (\<open>rand_ok\<close>, \<open>carries\<close>, \<open>decodes_entries\<close>, \<open>codecs\<close>, \<open>http_stack\<close>, \<open>fair_order\<close>, \<open>in_budget\<close>: each
  single pass of fetches ends within the tick budget), each met by a
  concrete instance in a witness.

  \<^bold>\<open>What the lemmas show.\<close>
  \<^item> Projection: it returns for every dependency graph; on acyclic ones it places no child before its
    parents, keeps the weight limit, gives each package its rate, picks greedily, and does not
    depend on hash order; two deviations from its comments are proved (lost overflow, self-parent).
  \<^item> Fees: tiers are the depth quantiles of the rate histogram and independent of order.
  \<^item> Client: no body past its cap is decoded; vanished transactions are no error; reconnecting is all or
    nothing, and a rotated cookie costs one tick.
  \<^item> Sync: readers never see a fee estimate that the loop does not vouch for, or that was
    computed from a mempool it did not vouch for (\<open>vouched\<close>), and what \<open>GET /fees\<close> answers has ordered tiers; a tick reconciles the
    cache with the node, a backlog drains, failures clear \<open>caught_up\<close>, resyncs respect their cooldown.
    Whatever calls fail, \<open>caught_up\<close> is never said of a cache that is not the node's mempool
    (\<open>lossy_readers_exact\<close>, over all environments that are \<open>truthful\<close>).
  \<^item> Simulation: in every reachable state the totals the simulated node serves are true sums over its
    chains, its fees are whole rates within the configured bounds and its index mirrors its entries; blocks are valid and filled
    greedily (what stays behind was outbid by transactions of at least its effective rate); no operation hangs; the limiter keeps
    its budget; through the local profile the indexer behaves as on the node itself and its cache
    stays the simulated mempool while that churns; an entry served over HTTP is the entry read back.
  \<^item> End to end: through any simulated network, and through the real client over HTTP, the indexer is never
    wrong about a simulated node that stands still, and converges to it once calls are answered.
  \<^item> Tests: each is a definition, evaluated where it is pure; those of the simulated node and the runs of the
    sync loop hold for every generator and seed whose ids are fresh, since they follow from the invariants.
    A run takes at most a second of a clock that is past 61 seconds (\<open>rig_ok\<close>), so that the cooldown is decided
    by the timers the test sets.

  \<^bold>\<open>Bounds and fuel.\<close>
  The recursion of \<open>build_ancestors\<close> carries fuel; one more than the number of transactions is enough
  (\<open>build_ancestors_spec\<close>), since each level visits a new transaction.  The packing and refresh loops are
  \<open>while_option\<close> and proved to end.  The walks along chains of the simulated node and the two start-up loops of
  the sync loop are partial functions: the first are proved to return on every reachable node, the second
  return exactly when the node lets them.  The theorems on the simulated node assume a configuration whose
  longest chain fits 64-bit totals (\<open>cfg_ok\<close>; true for chains up to \<open>10^11\<close> at the fees of the command line) and
  ids that do not collide (\<open>fresh_advance\<close>).

  \<^bold>\<open>Not modelled.\<close>
  Access logs, the text of JSON values (serde), argument parsing (clap), logging set-up, task spawning
  and sockets (tokio), the exit of the process when the sync task dies, and the derived \<open>Clone\<close>s, which values do
  not need.  Log lines are modelled only for the \<open>caught_up\<close> transitions.  Tests whose
  verdict depends on what one seed draws are left out: an id that is absent, the distribution of fees, which
  transaction survives a block, the lifted parent of \<open>mocknode_packages_lift_a_parent_through_the_estimator\<close>, and
  \<open>rate_limited_remote_falls_behind\<close>, where an id that is evicted may be drawn again.
\<close>

end
